(* ===== verification/Prelude.thy ===== *)
theory Prelude
  imports "HOL-Library.Word" "HOL-Library.AList"
begin

unbundle bit_operations_syntax

text \<open>
  Shared material of the development: the names of the machine types the C++ sources use,
  little-endian byte strings (the codec behind every \<^verbatim>\<open>ReadLE\<close>/\<^verbatim>\<open>WriteLE\<close> and
  \<^verbatim>\<open>ser_writedata\<close> of the sources), disjoint bitwise \<open>OR\<close> as addition, and association
  lists as the hash maps of the sources (keys unique, iteration in list order).
\<close>

section \<open>Names of the machine types\<close>

type_synonym byte = "8 word"
type_synonym uint32 = "32 word"
type_synonym uint64 = "64 word"
type_synonym uint256 = "256 word"
type_synonym valtype = "byte list"
type_synonym CScript = "byte list"
type_synonym CAmount = int

text \<open>Facts about the codecs that rewrite a decoded encoding; and the length facts.\<close>

named_theorems codec_simps
named_theorems length_simps
named_theorems inv_intros

section \<open>Little-endian byte strings\<close>

fun le_nat :: "byte list \<Rightarrow> nat" where
  "le_nat [] = 0"
| "le_nat (b # bs) = unat b + 256 * le_nat bs"

fun le_bytes :: "nat \<Rightarrow> nat \<Rightarrow> byte list" where
  "le_bytes 0 n = []"
| "le_bytes (Suc k) n = word_of_nat n # le_bytes k (n div 256)"

lemma length_le_bytes [simp, length_simps]: "length (le_bytes k n) = k"
  by (induction k arbitrary: n) auto

lemma unat_byte_less [simp]: "unat (b :: byte) < 256"
  using unsigned_less [of b, where 'a = nat] by simp

lemma unat_of_nat_byte: "unat (word_of_nat n :: byte) = n mod 256"
  by (simp add: unat_of_nat)

lemma le_nat_le_bytes [codec_simps]: "le_nat (le_bytes k n) = n mod 256 ^ k"
proof (induction k arbitrary: n)
  case 0
  then show ?case by simp
next
  case (Suc k)
  have "n mod 256 ^ Suc k = n mod 256 + 256 * (n div 256 mod 256 ^ k)"
    by (simp add: mod_mult2_eq)
  with Suc show ?case by (simp add: unat_of_nat_byte)
qed

lemma le_nat_less: "le_nat bs < 256 ^ length bs"
proof (induction bs)
  case Nil
  then show ?case by simp
next
  case (Cons b bs)
  have "unat b + 256 * le_nat bs < 256 + 256 * le_nat bs" by simp
  also have "\<dots> \<le> 256 * 256 ^ length bs" using Cons by simp
  finally show ?case by simp
qed

lemma le_bytes_le_nat [codec_simps]: "length bs = k \<Longrightarrow> le_bytes k (le_nat bs) = bs"
proof (induction bs arbitrary: k)
  case Nil
  then show ?case by simp
next
  case (Cons b bs)
  have "(unat b + 256 * le_nat bs) div 256 = le_nat bs" by simp
  moreover have "(word_of_nat (unat b + 256 * le_nat bs) :: byte) = b"
    by (rule word_unat_eq_iff [THEN iffD2]) (simp add: unat_of_nat_byte del: of_nat_add)
  ultimately show ?case using Cons by auto
qed

lemma le_nat_append: "le_nat (xs @ ys) = le_nat xs + 256 ^ length xs * le_nat ys"
  by (induction xs) (auto simp: algebra_simps)

section \<open>Disjoint bits\<close>

lemma or_push_bit_eq_add:
  fixes r x :: "'a::len word"
  assumes "unat r < 2 ^ k"
  shows "r OR push_bit k x = r + push_bit k x"
proof -
  have "take_bit k r = r"
    using assms by (simp add: word_unat_eq_iff unsigned_take_bit_eq take_bit_nat_eq_self)
  then have "\<not> bit r n" if "k \<le> n" for n
    using that by (metis bit_take_bit_iff not_le)
  then have "r AND push_bit k x = 0"
    by (intro bit_word_eqI) (auto simp: bit_and_iff bit_push_bit_iff)
  then show ?thesis by (simp add: disjunctive_add_eq_or)
qed

lemma nat_div_128: "n < 256 \<Longrightarrow> n div 128 = of_bool (128 \<le> (n::nat))"
  by (cases "n < 128") (auto intro: div_nat_eqI)

lemma nat_mod_128: "n < 256 \<Longrightarrow> n mod 128 = (if n < 128 then n else n - (128::nat))"
  by (auto simp: le_mod_geq)

lemma byte_and_80: "t AND 0x80 = 0 \<longleftrightarrow> unat (t :: byte) < 128"
proof -
  have "t AND 0x80 = 0 \<longleftrightarrow> \<not> bit t 7"
    using and_exp_eq_0_iff_not_bit [of t 7] by simp
  also have "bit t 7 \<longleftrightarrow> bit (unat t) 7" by (simp add: bit_unsigned_iff)
  also have "\<dots> \<longleftrightarrow> odd (unat t div 128)" by (simp add: bit_iff_odd)
  finally show ?thesis by (simp add: nat_div_128 not_le)
qed

lemma byte_or_80: "unat (t :: byte) < 128 \<Longrightarrow> unat (t OR 0x80) = unat t + 128"
proof -
  assume t: "unat t < 128"
  have "t OR push_bit 7 1 = t + push_bit 7 1" using t by (intro or_push_bit_eq_add) simp
  then have "t OR 0x80 = t + 0x80" by simp
  with t show ?thesis by (simp add: unat_word_ariths)
qed

lemma byte_and_7f: "t AND 0x7f = 0 \<longleftrightarrow> unat (t :: byte) = 0 \<or> unat t = 128"
proof -
  have "t AND 0x7f = take_bit 7 t" by (simp add: take_bit_eq_mask mask_eq_exp_minus_1)
  then have "unat (t AND 0x7f) = unat t mod 128" by (simp add: unsigned_take_bit_eq take_bit_eq_mod unat_mod)
  moreover have "t AND 0x7f = 0 \<longleftrightarrow> unat (t AND 0x7f) = 0" by (simp only: unat_eq_0)
  ultimately have "t AND 0x7f = 0 \<longleftrightarrow> unat t mod 128 = 0" by simp
  then show ?thesis by (auto simp: nat_mod_128 split: if_splits)
qed

lemma word_eq_of_unat: "unat w = m \<Longrightarrow> w = word_of_nat m"
  by auto

lemma unat_word_of_int_small:
  assumes "0 \<le> x" and "x < 2 ^ LENGTH('a)"
  shows "unat (word_of_int x :: 'a::len word) = nat x"
proof -
  have "(word_of_int x :: 'a word) = word_of_nat (nat x)" using assms(1) by simp
  then have "unat (word_of_int x :: 'a word) = nat x mod 2 ^ LENGTH('a)" by (simp only: unat_of_nat)
  also have "\<dots> = nat x" using assms by (simp add: nat_less_iff)
  finally show ?thesis .
qed

section \<open>Results: a value or an error\<close>

text \<open>
  A handler that returns early on an error is a chain of conditionals and cases over sums. These
  rules turn the success of such a chain into the conjunction of what it passed.
\<close>

named_theorems res_simps

lemma if_Inl_eq_Inr_iff [res_simps]: "(if c then Inl e else x) = Inr r \<longleftrightarrow> \<not> c \<and> x = Inr r"
  by simp

lemma if_eq_Inr_Inl_iff [res_simps]: "(if c then x else Inl e) = Inr r \<longleftrightarrow> c \<and> x = Inr r"
  by simp

lemma case_sum_Inl_eq_Inr_iff [res_simps]: "case_sum Inl f m = Inr r \<longleftrightarrow> (\<exists>x. m = Inr x \<and> f x = Inr r)"
  by (cases m) auto

lemma case_option_Inl_eq_Inr_iff [res_simps]:
  "case_option (Inl e) f m = Inr r \<longleftrightarrow> (\<exists>x. m = Some x \<and> f x = Inr r)"
  by (cases m) auto

lemma case_list_Inl_eq_Inr_iff [res_simps]:
  "case_list (Inl e) f xs = Inr r \<longleftrightarrow> (\<exists>y ys. xs = y # ys \<and> f y ys = Inr r)"
  by (cases xs) auto

text \<open>A branch of a conditional result, its condition forgotten.\<close>

lemma if_InrE: "(if b then x else y) = Inr r \<Longrightarrow> (x = Inr r \<Longrightarrow> P) \<Longrightarrow> (y = Inr r \<Longrightarrow> P) \<Longrightarrow> P"
  by (cases b) auto

section \<open>Association lists as maps\<close>

lemma map_of_update [simp]: "map_of (AList.update k v al) = (map_of al)(k \<mapsto> v)"
  by (rule update_conv')

lemma map_of_delete [simp]: "map_of (AList.delete k al) = (map_of al)(k := None)"
  by (rule delete_conv')

lemma distinct_keys_update [intro]: "distinct (map fst al) \<Longrightarrow> distinct (map fst (AList.update k v al))"
  by (rule distinct_update)

lemma distinct_keys_delete [intro]: "distinct (map fst al) \<Longrightarrow> distinct (map fst (AList.delete k al))"
  by (rule distinct_delete)

end
