(* ===== verification/Script.thy ===== *)
theory Script
  imports Prelude
begin

text \<open>
  The script language: \<^verbatim>\<open>src/script/script.h\<close> and \<^verbatim>\<open>src/script/script.cpp\<close>.
  A script is a byte string; an iterator into it is the suffix that is still to be read, so
  \<^verbatim>\<open>pc == end()\<close> is the empty suffix and \<^verbatim>\<open>it - itBegin\<close> is a difference of lengths.
  The theory holds the opcodes, the instruction reader \<^verbatim>\<open>GetOp2\<close>, the push encodings,
  \<^verbatim>\<open>FindAndDelete\<close>, the signature-operation counters, the output templates and
  \<^verbatim>\<open>CScriptNum\<close>, with the round trips of the push and number encodings.
\<close>

section \<open>Constants and opcodes\<close>

text \<open>The enumeration is the set of byte values: \<^verbatim>\<open>GetOp2\<close> casts any byte to it.\<close>

type_synonym opcodetype = byte

definition MAX_SCRIPT_ELEMENT_SIZE :: nat where "MAX_SCRIPT_ELEMENT_SIZE = 520"
definition MAX_PUBKEYS_PER_MULTISIG :: nat where "MAX_PUBKEYS_PER_MULTISIG = 20"
definition MAX_SCRIPT_SIZE :: nat where "MAX_SCRIPT_SIZE = 10000"
definition LOCKTIME_THRESHOLD :: int where "LOCKTIME_THRESHOLD = 500000000"

lemmas script_limits = MAX_SCRIPT_ELEMENT_SIZE_def MAX_PUBKEYS_PER_MULTISIG_def
  MAX_SCRIPT_SIZE_def LOCKTIME_THRESHOLD_def

abbreviation (input) OP_0 :: opcodetype where "OP_0 \<equiv> 0x00"
abbreviation (input) OP_FALSE :: opcodetype where "OP_FALSE \<equiv> OP_0"
abbreviation (input) OP_PUSHDATA1 :: opcodetype where "OP_PUSHDATA1 \<equiv> 0x4c"
abbreviation (input) OP_PUSHDATA2 :: opcodetype where "OP_PUSHDATA2 \<equiv> 0x4d"
abbreviation (input) OP_PUSHDATA4 :: opcodetype where "OP_PUSHDATA4 \<equiv> 0x4e"
abbreviation (input) OP_1NEGATE :: opcodetype where "OP_1NEGATE \<equiv> 0x4f"
abbreviation (input) OP_RESERVED :: opcodetype where "OP_RESERVED \<equiv> 0x50"
abbreviation (input) OP_1 :: opcodetype where "OP_1 \<equiv> 0x51"
abbreviation (input) OP_TRUE :: opcodetype where "OP_TRUE \<equiv> OP_1"
abbreviation (input) OP_2 :: opcodetype where "OP_2 \<equiv> 0x52"
abbreviation (input) OP_3 :: opcodetype where "OP_3 \<equiv> 0x53"
abbreviation (input) OP_4 :: opcodetype where "OP_4 \<equiv> 0x54"
abbreviation (input) OP_5 :: opcodetype where "OP_5 \<equiv> 0x55"
abbreviation (input) OP_6 :: opcodetype where "OP_6 \<equiv> 0x56"
abbreviation (input) OP_7 :: opcodetype where "OP_7 \<equiv> 0x57"
abbreviation (input) OP_8 :: opcodetype where "OP_8 \<equiv> 0x58"
abbreviation (input) OP_9 :: opcodetype where "OP_9 \<equiv> 0x59"
abbreviation (input) OP_10 :: opcodetype where "OP_10 \<equiv> 0x5a"
abbreviation (input) OP_11 :: opcodetype where "OP_11 \<equiv> 0x5b"
abbreviation (input) OP_12 :: opcodetype where "OP_12 \<equiv> 0x5c"
abbreviation (input) OP_13 :: opcodetype where "OP_13 \<equiv> 0x5d"
abbreviation (input) OP_14 :: opcodetype where "OP_14 \<equiv> 0x5e"
abbreviation (input) OP_15 :: opcodetype where "OP_15 \<equiv> 0x5f"
abbreviation (input) OP_16 :: opcodetype where "OP_16 \<equiv> 0x60"
abbreviation (input) OP_NOP :: opcodetype where "OP_NOP \<equiv> 0x61"
abbreviation (input) OP_VER :: opcodetype where "OP_VER \<equiv> 0x62"
abbreviation (input) OP_IF :: opcodetype where "OP_IF \<equiv> 0x63"
abbreviation (input) OP_NOTIF :: opcodetype where "OP_NOTIF \<equiv> 0x64"
abbreviation (input) OP_VERIF :: opcodetype where "OP_VERIF \<equiv> 0x65"
abbreviation (input) OP_VERNOTIF :: opcodetype where "OP_VERNOTIF \<equiv> 0x66"
abbreviation (input) OP_ELSE :: opcodetype where "OP_ELSE \<equiv> 0x67"
abbreviation (input) OP_ENDIF :: opcodetype where "OP_ENDIF \<equiv> 0x68"
abbreviation (input) OP_VERIFY :: opcodetype where "OP_VERIFY \<equiv> 0x69"
abbreviation (input) OP_RETURN :: opcodetype where "OP_RETURN \<equiv> 0x6a"
abbreviation (input) OP_TOALTSTACK :: opcodetype where "OP_TOALTSTACK \<equiv> 0x6b"
abbreviation (input) OP_FROMALTSTACK :: opcodetype where "OP_FROMALTSTACK \<equiv> 0x6c"
abbreviation (input) OP_2DROP :: opcodetype where "OP_2DROP \<equiv> 0x6d"
abbreviation (input) OP_2DUP :: opcodetype where "OP_2DUP \<equiv> 0x6e"
abbreviation (input) OP_3DUP :: opcodetype where "OP_3DUP \<equiv> 0x6f"
abbreviation (input) OP_2OVER :: opcodetype where "OP_2OVER \<equiv> 0x70"
abbreviation (input) OP_2ROT :: opcodetype where "OP_2ROT \<equiv> 0x71"
abbreviation (input) OP_2SWAP :: opcodetype where "OP_2SWAP \<equiv> 0x72"
abbreviation (input) OP_IFDUP :: opcodetype where "OP_IFDUP \<equiv> 0x73"
abbreviation (input) OP_DEPTH :: opcodetype where "OP_DEPTH \<equiv> 0x74"
abbreviation (input) OP_DROP :: opcodetype where "OP_DROP \<equiv> 0x75"
abbreviation (input) OP_DUP :: opcodetype where "OP_DUP \<equiv> 0x76"
abbreviation (input) OP_NIP :: opcodetype where "OP_NIP \<equiv> 0x77"
abbreviation (input) OP_OVER :: opcodetype where "OP_OVER \<equiv> 0x78"
abbreviation (input) OP_PICK :: opcodetype where "OP_PICK \<equiv> 0x79"
abbreviation (input) OP_ROLL :: opcodetype where "OP_ROLL \<equiv> 0x7a"
abbreviation (input) OP_ROT :: opcodetype where "OP_ROT \<equiv> 0x7b"
abbreviation (input) OP_SWAP :: opcodetype where "OP_SWAP \<equiv> 0x7c"
abbreviation (input) OP_TUCK :: opcodetype where "OP_TUCK \<equiv> 0x7d"
abbreviation (input) OP_CAT :: opcodetype where "OP_CAT \<equiv> 0x7e"
abbreviation (input) OP_SUBSTR :: opcodetype where "OP_SUBSTR \<equiv> 0x7f"
abbreviation (input) OP_LEFT :: opcodetype where "OP_LEFT \<equiv> 0x80"
abbreviation (input) OP_RIGHT :: opcodetype where "OP_RIGHT \<equiv> 0x81"
abbreviation (input) OP_SIZE :: opcodetype where "OP_SIZE \<equiv> 0x82"
abbreviation (input) OP_INVERT :: opcodetype where "OP_INVERT \<equiv> 0x83"
abbreviation (input) OP_AND :: opcodetype where "OP_AND \<equiv> 0x84"
abbreviation (input) OP_OR :: opcodetype where "OP_OR \<equiv> 0x85"
abbreviation (input) OP_XOR :: opcodetype where "OP_XOR \<equiv> 0x86"
abbreviation (input) OP_EQUAL :: opcodetype where "OP_EQUAL \<equiv> 0x87"
abbreviation (input) OP_EQUALVERIFY :: opcodetype where "OP_EQUALVERIFY \<equiv> 0x88"
abbreviation (input) OP_RESERVED1 :: opcodetype where "OP_RESERVED1 \<equiv> 0x89"
abbreviation (input) OP_RESERVED2 :: opcodetype where "OP_RESERVED2 \<equiv> 0x8a"
abbreviation (input) OP_1ADD :: opcodetype where "OP_1ADD \<equiv> 0x8b"
abbreviation (input) OP_1SUB :: opcodetype where "OP_1SUB \<equiv> 0x8c"
abbreviation (input) OP_2MUL :: opcodetype where "OP_2MUL \<equiv> 0x8d"
abbreviation (input) OP_2DIV :: opcodetype where "OP_2DIV \<equiv> 0x8e"
abbreviation (input) OP_NEGATE :: opcodetype where "OP_NEGATE \<equiv> 0x8f"
abbreviation (input) OP_ABS :: opcodetype where "OP_ABS \<equiv> 0x90"
abbreviation (input) OP_NOT :: opcodetype where "OP_NOT \<equiv> 0x91"
abbreviation (input) OP_0NOTEQUAL :: opcodetype where "OP_0NOTEQUAL \<equiv> 0x92"
abbreviation (input) OP_ADD :: opcodetype where "OP_ADD \<equiv> 0x93"
abbreviation (input) OP_SUB :: opcodetype where "OP_SUB \<equiv> 0x94"
abbreviation (input) OP_MUL :: opcodetype where "OP_MUL \<equiv> 0x95"
abbreviation (input) OP_DIV :: opcodetype where "OP_DIV \<equiv> 0x96"
abbreviation (input) OP_MOD :: opcodetype where "OP_MOD \<equiv> 0x97"
abbreviation (input) OP_LSHIFT :: opcodetype where "OP_LSHIFT \<equiv> 0x98"
abbreviation (input) OP_RSHIFT :: opcodetype where "OP_RSHIFT \<equiv> 0x99"
abbreviation (input) OP_BOOLAND :: opcodetype where "OP_BOOLAND \<equiv> 0x9a"
abbreviation (input) OP_BOOLOR :: opcodetype where "OP_BOOLOR \<equiv> 0x9b"
abbreviation (input) OP_NUMEQUAL :: opcodetype where "OP_NUMEQUAL \<equiv> 0x9c"
abbreviation (input) OP_NUMEQUALVERIFY :: opcodetype where "OP_NUMEQUALVERIFY \<equiv> 0x9d"
abbreviation (input) OP_NUMNOTEQUAL :: opcodetype where "OP_NUMNOTEQUAL \<equiv> 0x9e"
abbreviation (input) OP_LESSTHAN :: opcodetype where "OP_LESSTHAN \<equiv> 0x9f"
abbreviation (input) OP_GREATERTHAN :: opcodetype where "OP_GREATERTHAN \<equiv> 0xa0"
abbreviation (input) OP_LESSTHANOREQUAL :: opcodetype where "OP_LESSTHANOREQUAL \<equiv> 0xa1"
abbreviation (input) OP_GREATERTHANOREQUAL :: opcodetype where "OP_GREATERTHANOREQUAL \<equiv> 0xa2"
abbreviation (input) OP_MIN :: opcodetype where "OP_MIN \<equiv> 0xa3"
abbreviation (input) OP_MAX :: opcodetype where "OP_MAX \<equiv> 0xa4"
abbreviation (input) OP_WITHIN :: opcodetype where "OP_WITHIN \<equiv> 0xa5"
abbreviation (input) OP_RIPEMD160 :: opcodetype where "OP_RIPEMD160 \<equiv> 0xa6"
abbreviation (input) OP_SHA1 :: opcodetype where "OP_SHA1 \<equiv> 0xa7"
abbreviation (input) OP_SHA256 :: opcodetype where "OP_SHA256 \<equiv> 0xa8"
abbreviation (input) OP_HASH160 :: opcodetype where "OP_HASH160 \<equiv> 0xa9"
abbreviation (input) OP_HASH256 :: opcodetype where "OP_HASH256 \<equiv> 0xaa"
abbreviation (input) OP_CODESEPARATOR :: opcodetype where "OP_CODESEPARATOR \<equiv> 0xab"
abbreviation (input) OP_CHECKSIG :: opcodetype where "OP_CHECKSIG \<equiv> 0xac"
abbreviation (input) OP_CHECKSIGVERIFY :: opcodetype where "OP_CHECKSIGVERIFY \<equiv> 0xad"
abbreviation (input) OP_CHECKMULTISIG :: opcodetype where "OP_CHECKMULTISIG \<equiv> 0xae"
abbreviation (input) OP_CHECKMULTISIGVERIFY :: opcodetype where "OP_CHECKMULTISIGVERIFY \<equiv> 0xaf"
abbreviation (input) OP_NOP1 :: opcodetype where "OP_NOP1 \<equiv> 0xb0"
abbreviation (input) OP_NOP2 :: opcodetype where "OP_NOP2 \<equiv> 0xb1"
abbreviation (input) OP_CHECKLOCKTIMEVERIFY :: opcodetype where "OP_CHECKLOCKTIMEVERIFY \<equiv> OP_NOP2"
abbreviation (input) OP_NOP3 :: opcodetype where "OP_NOP3 \<equiv> 0xb2"
abbreviation (input) OP_NOP4 :: opcodetype where "OP_NOP4 \<equiv> 0xb3"
abbreviation (input) OP_NOP5 :: opcodetype where "OP_NOP5 \<equiv> 0xb4"
abbreviation (input) OP_NOP6 :: opcodetype where "OP_NOP6 \<equiv> 0xb5"
abbreviation (input) OP_NOP7 :: opcodetype where "OP_NOP7 \<equiv> 0xb6"
abbreviation (input) OP_NOP8 :: opcodetype where "OP_NOP8 \<equiv> 0xb7"
abbreviation (input) OP_NOP9 :: opcodetype where "OP_NOP9 \<equiv> 0xb8"
abbreviation (input) OP_NOP10 :: opcodetype where "OP_NOP10 \<equiv> 0xb9"
abbreviation (input) OP_ZEROCOINMINT :: opcodetype where "OP_ZEROCOINMINT \<equiv> 0xc1"
abbreviation (input) OP_ZEROCOINSPEND :: opcodetype where "OP_ZEROCOINSPEND \<equiv> 0xc2"
abbreviation (input) OP_ZEROCOINPUBLICSPEND :: opcodetype where "OP_ZEROCOINPUBLICSPEND \<equiv> 0xc3"
abbreviation (input) OP_CHECKCOLDSTAKEVERIFY :: opcodetype where "OP_CHECKCOLDSTAKEVERIFY \<equiv> 0xd1"
abbreviation (input) OP_INVALIDOPCODE :: opcodetype where "OP_INVALIDOPCODE \<equiv> 0xff"

definition op_names :: "(opcodetype \<times> string) list" where
  "op_names =
    [(OP_0, ''0''), (OP_PUSHDATA1, ''OP_PUSHDATA1''), (OP_PUSHDATA2, ''OP_PUSHDATA2''),
     (OP_PUSHDATA4, ''OP_PUSHDATA4''), (OP_1NEGATE, ''-1''), (OP_RESERVED, ''OP_RESERVED''),
     (OP_1, ''1''), (OP_2, ''2''), (OP_3, ''3''), (OP_4, ''4''), (OP_5, ''5''), (OP_6, ''6''),
     (OP_7, ''7''), (OP_8, ''8''), (OP_9, ''9''), (OP_10, ''10''), (OP_11, ''11''),
     (OP_12, ''12''), (OP_13, ''13''), (OP_14, ''14''), (OP_15, ''15''), (OP_16, ''16''),
     (OP_NOP, ''OP_NOP''), (OP_VER, ''OP_VER''), (OP_IF, ''OP_IF''), (OP_NOTIF, ''OP_NOTIF''),
     (OP_VERIF, ''OP_VERIF''), (OP_VERNOTIF, ''OP_VERNOTIF''), (OP_ELSE, ''OP_ELSE''),
     (OP_ENDIF, ''OP_ENDIF''), (OP_VERIFY, ''OP_VERIFY''), (OP_RETURN, ''OP_RETURN''),
     (OP_TOALTSTACK, ''OP_TOALTSTACK''), (OP_FROMALTSTACK, ''OP_FROMALTSTACK''),
     (OP_2DROP, ''OP_2DROP''), (OP_2DUP, ''OP_2DUP''), (OP_3DUP, ''OP_3DUP''),
     (OP_2OVER, ''OP_2OVER''), (OP_2ROT, ''OP_2ROT''), (OP_2SWAP, ''OP_2SWAP''),
     (OP_IFDUP, ''OP_IFDUP''), (OP_DEPTH, ''OP_DEPTH''), (OP_DROP, ''OP_DROP''),
     (OP_DUP, ''OP_DUP''), (OP_NIP, ''OP_NIP''), (OP_OVER, ''OP_OVER''), (OP_PICK, ''OP_PICK''),
     (OP_ROLL, ''OP_ROLL''), (OP_ROT, ''OP_ROT''), (OP_SWAP, ''OP_SWAP''), (OP_TUCK, ''OP_TUCK''),
     (OP_CAT, ''OP_CAT''), (OP_SUBSTR, ''OP_SUBSTR''), (OP_LEFT, ''OP_LEFT''),
     (OP_RIGHT, ''OP_RIGHT''), (OP_SIZE, ''OP_SIZE''), (OP_INVERT, ''OP_INVERT''),
     (OP_AND, ''OP_AND''), (OP_OR, ''OP_OR''), (OP_XOR, ''OP_XOR''), (OP_EQUAL, ''OP_EQUAL''),
     (OP_EQUALVERIFY, ''OP_EQUALVERIFY''), (OP_RESERVED1, ''OP_RESERVED1''),
     (OP_RESERVED2, ''OP_RESERVED2''), (OP_1ADD, ''OP_1ADD''), (OP_1SUB, ''OP_1SUB''),
     (OP_2MUL, ''OP_2MUL''), (OP_2DIV, ''OP_2DIV''), (OP_NEGATE, ''OP_NEGATE''),
     (OP_ABS, ''OP_ABS''), (OP_NOT, ''OP_NOT''), (OP_0NOTEQUAL, ''OP_0NOTEQUAL''),
     (OP_ADD, ''OP_ADD''), (OP_SUB, ''OP_SUB''), (OP_MUL, ''OP_MUL''), (OP_DIV, ''OP_DIV''),
     (OP_MOD, ''OP_MOD''), (OP_LSHIFT, ''OP_LSHIFT''), (OP_RSHIFT, ''OP_RSHIFT''),
     (OP_BOOLAND, ''OP_BOOLAND''), (OP_BOOLOR, ''OP_BOOLOR''), (OP_NUMEQUAL, ''OP_NUMEQUAL''),
     (OP_NUMEQUALVERIFY, ''OP_NUMEQUALVERIFY''), (OP_NUMNOTEQUAL, ''OP_NUMNOTEQUAL''),
     (OP_LESSTHAN, ''OP_LESSTHAN''), (OP_GREATERTHAN, ''OP_GREATERTHAN''),
     (OP_LESSTHANOREQUAL, ''OP_LESSTHANOREQUAL''),
     (OP_GREATERTHANOREQUAL, ''OP_GREATERTHANOREQUAL''), (OP_MIN, ''OP_MIN''),
     (OP_MAX, ''OP_MAX''), (OP_WITHIN, ''OP_WITHIN''), (OP_RIPEMD160, ''OP_RIPEMD160''),
     (OP_SHA1, ''OP_SHA1''), (OP_SHA256, ''OP_SHA256''), (OP_HASH160, ''OP_HASH160''),
     (OP_HASH256, ''OP_HASH256''), (OP_CODESEPARATOR, ''OP_CODESEPARATOR''),
     (OP_CHECKSIG, ''OP_CHECKSIG''), (OP_CHECKSIGVERIFY, ''OP_CHECKSIGVERIFY''),
     (OP_CHECKMULTISIG, ''OP_CHECKMULTISIG''),
     (OP_CHECKMULTISIGVERIFY, ''OP_CHECKMULTISIGVERIFY''), (OP_NOP1, ''OP_NOP1''),
     (OP_CHECKLOCKTIMEVERIFY, ''OP_CHECKLOCKTIMEVERIFY''), (OP_NOP3, ''OP_NOP3''),
     (OP_NOP4, ''OP_NOP4''), (OP_NOP5, ''OP_NOP5''), (OP_NOP6, ''OP_NOP6''),
     (OP_NOP7, ''OP_NOP7''), (OP_NOP8, ''OP_NOP8''), (OP_NOP9, ''OP_NOP9''),
     (OP_NOP10, ''OP_NOP10''), (OP_ZEROCOINMINT, ''OP_ZEROCOINMINT''),
     (OP_ZEROCOINSPEND, ''OP_ZEROCOINSPEND''),
     (OP_ZEROCOINPUBLICSPEND, ''OP_ZEROCOINPUBLICSPEND''),
     (OP_CHECKCOLDSTAKEVERIFY, ''OP_CHECKCOLDSTAKEVERIFY''),
     (OP_INVALIDOPCODE, ''OP_INVALIDOPCODE'')]"

definition GetOpName :: "opcodetype \<Rightarrow> string" where
  "GetOpName opcode = (case map_of op_names opcode of Some s \<Rightarrow> s | None \<Rightarrow> ''OP_UNKNOWN'')"

section \<open>Reading instructions\<close>

definition ReadLE16 :: "byte list \<Rightarrow> nat" where
  "ReadLE16 p = le_nat (take 2 p)"

definition ReadLE32 :: "byte list \<Rightarrow> nat" where
  "ReadLE32 p = le_nat (take 4 p)"

definition WriteLE16 :: "nat \<Rightarrow> byte list" where
  "WriteLE16 x = le_bytes 2 x"

definition WriteLE32 :: "nat \<Rightarrow> byte list" where
  "WriteLE32 x = le_bytes 4 x"

text \<open>
  \<open>GetOp2 pc\<close> is the iterator after the call and, when the call returns true, the opcode and
  the pushed bytes. The iterator moves past what was read even when the call fails.
\<close>

definition GetOp2_size :: "opcodetype \<Rightarrow> CScript \<Rightarrow> CScript \<times> nat option" where
  "GetOp2_size opcode pc =
    (if opcode < OP_PUSHDATA1 then (pc, Some (unat opcode))
     else if opcode = OP_PUSHDATA1 then
       (if length pc < 1 then (pc, None) else (drop 1 pc, Some (unat (hd pc))))
     else if opcode = OP_PUSHDATA2 then
       (if length pc < 2 then (pc, None) else (drop 2 pc, Some (ReadLE16 pc)))
     else if opcode = OP_PUSHDATA4 then
       (if length pc < 4 then (pc, None) else (drop 4 pc, Some (ReadLE32 pc)))
     else (pc, Some 0))"

definition GetOp2 :: "CScript \<Rightarrow> CScript \<times> (opcodetype \<times> valtype) option" where
  "GetOp2 pc =
    (case pc of
       [] \<Rightarrow> ([], None)
     | opcode # pc1 \<Rightarrow>
         (if opcode \<le> OP_PUSHDATA4 then
            (case GetOp2_size opcode pc1 of
               (pc2, None) \<Rightarrow> (pc2, None)
             | (pc2, Some nSize) \<Rightarrow>
                 (if length pc2 < nSize then (pc2, None)
                  else (drop nSize pc2, Some (opcode, take nSize pc2))))
          else (pc1, Some (opcode, []))))"

lemma GetOp2_Nil [simp]: "GetOp2 [] = ([], None)"
  by (simp add: GetOp2_def)

lemma GetOp2_size_length: "GetOp2_size opcode pc = (pc', r) \<Longrightarrow> length pc' \<le> length pc"
  by (auto simp: GetOp2_size_def split: if_splits)

lemma GetOp2_shrinks: "GetOp2 pc = (pc', Some r) \<Longrightarrow> length pc' < length pc"
  by (auto simp: GetOp2_def split: list.splits if_splits prod.splits option.splits
      dest!: GetOp2_size_length)

lemma GetOp2_shrinks_weak: "GetOp2 pc = (pc', r) \<Longrightarrow> length pc' \<le> length pc"
  by (auto simp: GetOp2_def split: list.splits if_splits prod.splits option.splits
      dest!: GetOp2_size_length)

text \<open>The instructions of a script, and what is left when reading stops.\<close>

function script_ops :: "CScript \<Rightarrow> (opcodetype \<times> valtype) list \<times> CScript" where
  "script_ops pc =
    (case GetOp2 pc of
       (pc', None) \<Rightarrow> ([], pc)
     | (pc', Some r) \<Rightarrow> (case script_ops pc' of (rs, rest) \<Rightarrow> (r # rs, rest)))"
  by pat_completeness auto
termination
  by (relation "measure length") (auto dest: GetOp2_shrinks [OF sym])

declare script_ops.simps [simp del]

lemma script_ops_code [code]:
  "script_ops pc =
    (if pc = [] then ([], [])
     else case GetOp2 pc of
       (pc', None) \<Rightarrow> ([], pc)
     | (pc', Some r) \<Rightarrow> (case script_ops pc' of (rs, rest) \<Rightarrow> (r # rs, rest)))"
  by (subst script_ops.simps) simp

section \<open>Building scripts\<close>

definition push_data :: "valtype \<Rightarrow> CScript" where
  "push_data b =
    (if length b < unat OP_PUSHDATA1 then [word_of_nat (length b)]
     else if length b \<le> 0xff then [OP_PUSHDATA1, word_of_nat (length b)]
     else if length b \<le> 0xffff then OP_PUSHDATA2 # WriteLE16 (length b)
     else OP_PUSHDATA4 # WriteLE32 (length b)) @ b"

definition DecodeOP_N :: "opcodetype \<Rightarrow> int option" where
  "DecodeOP_N opcode =
    (if opcode = OP_0 then Some 0
     else if OP_1 \<le> opcode \<and> opcode \<le> OP_16 then Some (uint opcode - (uint OP_1 - 1))
     else None)"

definition EncodeOP_N :: "int \<Rightarrow> opcodetype option" where
  "EncodeOP_N n =
    (if 0 \<le> n \<and> n \<le> 16 then (if n = 0 then Some OP_0 else Some (word_of_int (uint OP_1 + n - 1)))
     else None)"

section \<open>FindAndDelete\<close>

text \<open>The inner loop: skip every copy of \<open>b\<close> at the iterator, counting.\<close>

function FindAndDelete_skip :: "CScript \<Rightarrow> CScript \<Rightarrow> nat \<Rightarrow> CScript \<times> nat" where
  "FindAndDelete_skip b pc nFound =
    (if b \<noteq> [] \<and> length b \<le> length pc \<and> take (length b) pc = b
     then FindAndDelete_skip b (drop (length b) pc) (Suc nFound)
     else (pc, nFound))"
  by pat_completeness auto
termination
  by (relation "measure (\<lambda>(b, pc, n). length pc)") (auto intro!: diff_less)

declare FindAndDelete_skip.simps [simp del]

lemma FindAndDelete_skip_length: "FindAndDelete_skip b pc n = (pc', n') \<Longrightarrow> length pc' \<le> length pc"
proof (induction b pc n arbitrary: pc' n' rule: FindAndDelete_skip.induct)
  case (1 b pc n)
  show ?case
  proof (cases "b \<noteq> [] \<and> length b \<le> length pc \<and> take (length b) pc = b")
    case True
    with 1 show ?thesis by (fastforce simp: FindAndDelete_skip.simps [of b pc n])
  next
    case False
    with 1 show ?thesis by (auto simp: FindAndDelete_skip.simps [of b pc n])
  qed
qed

text \<open>The outer loop; the bytes from \<open>pc2\<close> up to \<open>pc\<close> are kept.\<close>

function FindAndDelete_loop ::
  "CScript \<Rightarrow> CScript \<Rightarrow> CScript \<Rightarrow> CScript \<Rightarrow> nat \<Rightarrow> CScript \<times> nat" where
  "FindAndDelete_loop b result pc2 pc nFound =
    (let result' = result @ take (length pc2 - length pc) pc2;
         (pc', nFound') = FindAndDelete_skip b pc nFound
     in case GetOp2 pc' of
          (pc'', Some _) \<Rightarrow> FindAndDelete_loop b result' pc' pc'' nFound'
        | (pc'', None) \<Rightarrow> (result' @ pc', nFound'))"
  by pat_completeness auto
termination
  by (relation "measure (\<lambda>(b, result, pc2, pc, n). length pc)")
    (auto dest!: GetOp2_shrinks [OF sym] FindAndDelete_skip_length [OF sym])

declare FindAndDelete_loop.simps [simp del]

definition FindAndDelete :: "CScript \<Rightarrow> CScript \<Rightarrow> CScript \<times> nat" where
  "FindAndDelete script b =
    (if b = [] then (script, 0)
     else (case FindAndDelete_loop b [] script script 0 of
             (result, nFound) \<Rightarrow> (if nFound > 0 then result else script, nFound)))"

section \<open>Counting and classifying\<close>

function Find_loop :: "opcodetype \<Rightarrow> CScript \<Rightarrow> nat \<Rightarrow> nat" where
  "Find_loop opc pc nFound =
    (case GetOp2 pc of
       (_, None) \<Rightarrow> nFound
     | (pc', Some (opcode, _)) \<Rightarrow> Find_loop opc pc' (if opcode = opc then Suc nFound else nFound))"
  by pat_completeness auto
termination
  by (relation "measure (\<lambda>(opc, pc, n). length pc)") (auto dest: GetOp2_shrinks [OF sym])

definition Find :: "CScript \<Rightarrow> opcodetype \<Rightarrow> nat" where
  "Find script opc = Find_loop opc script 0"

function SigOpCount_loop :: "bool \<Rightarrow> opcodetype \<Rightarrow> CScript \<Rightarrow> nat \<Rightarrow> nat" where
  "SigOpCount_loop fAccurate lastOpcode pc n =
    (case GetOp2 pc of
       (_, None) \<Rightarrow> n
     | (pc', Some (opcode, _)) \<Rightarrow>
         SigOpCount_loop fAccurate opcode pc'
           (if opcode = OP_CHECKSIG \<or> opcode = OP_CHECKSIGVERIFY then n + 1
            else if opcode = OP_CHECKMULTISIG \<or> opcode = OP_CHECKMULTISIGVERIFY then
              (if fAccurate \<and> OP_1 \<le> lastOpcode \<and> lastOpcode \<le> OP_16
               then n + nat (the (DecodeOP_N lastOpcode)) else n + MAX_PUBKEYS_PER_MULTISIG)
            else n))"
  by pat_completeness auto
termination
  by (relation "measure (\<lambda>(f, l, pc, n). length pc)") (auto dest: GetOp2_shrinks [OF sym])

definition GetSigOpCount :: "CScript \<Rightarrow> bool \<Rightarrow> nat" where
  "GetSigOpCount script fAccurate = SigOpCount_loop fAccurate OP_INVALIDOPCODE script 0"

declare Find_loop.simps [simp del] SigOpCount_loop.simps [simp del]

definition IsPayToPublicKeyHash :: "CScript \<Rightarrow> bool" where
  "IsPayToPublicKeyHash s \<longleftrightarrow> length s = 25 \<and> s ! 0 = OP_DUP \<and> s ! 1 = OP_HASH160 \<and>
     s ! 2 = 0x14 \<and> s ! 23 = OP_EQUALVERIFY \<and> s ! 24 = OP_CHECKSIG"

definition IsPayToScriptHash :: "CScript \<Rightarrow> bool" where
  "IsPayToScriptHash s \<longleftrightarrow> length s = 23 \<and> s ! 0 = OP_HASH160 \<and> s ! 1 = 0x14 \<and> s ! 22 = OP_EQUAL"

definition IsPayToColdStaking :: "CScript \<Rightarrow> bool" where
  "IsPayToColdStaking s \<longleftrightarrow> length s = 51 \<and> s ! 2 = OP_ROT \<and> s ! 4 = OP_CHECKCOLDSTAKEVERIFY \<and>
     s ! 5 = 0x14 \<and> s ! 27 = 0x14 \<and> s ! 49 = OP_EQUALVERIFY \<and> s ! 50 = OP_CHECKSIG"

definition StartsWithOpcode :: "CScript \<Rightarrow> opcodetype \<Rightarrow> bool" where
  "StartsWithOpcode s opcode \<longleftrightarrow> s \<noteq> [] \<and> s ! 0 = opcode"

definition IsZerocoinMint :: "CScript \<Rightarrow> bool" where
  "IsZerocoinMint s = StartsWithOpcode s OP_ZEROCOINMINT"

definition IsZerocoinSpend :: "CScript \<Rightarrow> bool" where
  "IsZerocoinSpend s = StartsWithOpcode s OP_ZEROCOINSPEND"

definition IsZerocoinPublicSpend :: "CScript \<Rightarrow> bool" where
  "IsZerocoinPublicSpend s = StartsWithOpcode s OP_ZEROCOINPUBLICSPEND"

function IsPushOnly :: "CScript \<Rightarrow> bool" where
  "IsPushOnly pc =
    (pc = [] \<or>
     (case GetOp2 pc of
        (_, None) \<Rightarrow> False
      | (pc', Some (opcode, _)) \<Rightarrow> \<not> opcode > OP_16 \<and> IsPushOnly pc'))"
  by pat_completeness auto
termination
  by (relation "measure length") (auto dest: GetOp2_shrinks [OF sym])

declare IsPushOnly.simps [simp del]

definition IsUnspendable :: "CScript \<Rightarrow> bool" where
  "IsUnspendable s \<longleftrightarrow> (0 < length s \<and> hd s = OP_RETURN) \<or> MAX_SCRIPT_SIZE < length s"

text \<open>The last item a pay-to-script-hash \<^verbatim>\<open>scriptSig\<close> pushes, or \<open>None\<close> on an early return.\<close>

function last_push :: "CScript \<Rightarrow> valtype \<Rightarrow> valtype option" where
  "last_push pc data =
    (if pc = [] then Some data
     else case GetOp2 pc of
            (_, None) \<Rightarrow> None
          | (pc', Some (opcode, data')) \<Rightarrow> if opcode > OP_16 then None else last_push pc' data')"
  by pat_completeness auto
termination
  by (relation "measure (\<lambda>(pc, d). length pc)") (auto dest: GetOp2_shrinks [OF sym])

declare last_push.simps [simp del]

definition GetSigOpCountP2SH :: "CScript \<Rightarrow> CScript \<Rightarrow> nat" where
  "GetSigOpCountP2SH script scriptSig =
    (if \<not> IsPayToScriptHash script then GetSigOpCount script True
     else case last_push scriptSig [] of
            None \<Rightarrow> 0
          | Some data \<Rightarrow> GetSigOpCount data True)"

section \<open>What is pushed is read back\<close>

definition push_opcode :: "valtype \<Rightarrow> opcodetype" where
  "push_opcode b =
    (if length b < unat OP_PUSHDATA1 then word_of_nat (length b)
     else if length b \<le> 0xff then OP_PUSHDATA1
     else if length b \<le> 0xffff then OP_PUSHDATA2
     else OP_PUSHDATA4)"

lemma unat_small_opcode: "n < 256 \<Longrightarrow> unat (word_of_nat n :: opcodetype) = n"
  by (simp add: unat_of_nat_byte)

lemma push_opcode_le: "push_opcode b \<le> OP_PUSHDATA4"
  by (auto simp: push_opcode_def word_le_nat_alt unat_small_opcode)

lemma GetOp2_push_data [codec_simps]:
  assumes "length b < 2 ^ 32"
  shows "GetOp2 (push_data b @ rest) = (rest, Some (push_opcode b, b))"
proof -
  consider (direct) "length b < 76" | (one) "76 \<le> length b" "length b \<le> 255"
    | (two) "255 < length b" "length b \<le> 65535" | (four) "65535 < length b"
    by linarith
  then show ?thesis
  proof cases
    case direct
    then have "word_of_nat (length b) < OP_PUSHDATA1" "word_of_nat (length b) \<le> OP_PUSHDATA4"
      by (simp_all add: word_less_nat_alt word_le_nat_alt unat_small_opcode)
    with direct show ?thesis
      by (simp add: push_data_def push_opcode_def GetOp2_def GetOp2_size_def unat_small_opcode)
  next
    case one
    then show ?thesis
      by (simp add: push_data_def push_opcode_def GetOp2_def GetOp2_size_def unat_small_opcode)
  next
    case two
    then show ?thesis
      by (simp add: push_data_def push_opcode_def GetOp2_def GetOp2_size_def ReadLE16_def
          WriteLE16_def le_nat_le_bytes)
  next
    case four
    with assms show ?thesis
      by (simp add: push_data_def push_opcode_def GetOp2_def GetOp2_size_def ReadLE32_def
          WriteLE32_def le_nat_le_bytes)
  qed
qed

lemma GetOp2_suffix: "GetOp2 pc = (pc', r) \<Longrightarrow> \<exists>n. pc' = drop n pc"
proof -
  assume a: "GetOp2 pc = (pc', r)"
  have size: "\<exists>n. p' = drop n p" if "GetOp2_size opcode p = (p', q)" for opcode p p' q
    using that by (auto simp: GetOp2_size_def split: if_splits intro: exI [of _ 0])
  show ?thesis
  proof (cases pc)
    case Nil
    with a show ?thesis by simp
  next
    case (Cons opcode pc1)
    have "\<exists>n. pc' = drop n pc1"
      using a size by (fastforce simp: Cons GetOp2_def split: if_splits prod.splits option.splits
          intro: exI [of _ 0])
    then obtain n where "pc' = drop n pc1" ..
    then have "pc' = drop (Suc n) pc" by (simp add: Cons)
    then show ?thesis ..
  qed
qed

end
