(* ===== verification/ScriptNum.thy ===== *)
theory ScriptNum
  imports Script
begin

text \<open>
  \<^verbatim>\<open>CScriptNum\<close> of \<^verbatim>\<open>src/script/script.h\<close>: the sign-magnitude little-endian numbers of the
  script language, held as an \<^verbatim>\<open>int64_t\<close>. The loops of \<^verbatim>\<open>serialize\<close> and \<^verbatim>\<open>set_vch\<close> work
  on 64-bit words as in the source; the value is an \<open>int\<close>.
\<close>

section \<open>Model\<close>

type_synonym CScriptNum = int

datatype scriptnum_error = ScriptNumOverflow | ScriptNumNonMinimal

definition nDefaultMaxNumSize :: nat where "nDefaultMaxNumSize = 4"

function serialize_loop :: "uint64 \<Rightarrow> byte list" where
  "serialize_loop absvalue =
    (if absvalue = 0 then []
     else ucast (absvalue AND 0xff) # serialize_loop (drop_bit 8 absvalue))"
  by pat_completeness auto
termination
proof (relation "measure unat")
  fix a :: uint64
  assume "a \<noteq> 0"
  then have "unat a div 256 < unat a" by (simp add: unat_gt_0)
  then show "(drop_bit 8 a, a) \<in> measure unat"
    by (simp add: unat_drop_bit_eq drop_bit_eq_div unat_div)
qed simp

declare serialize_loop.simps [simp del]

definition serialize :: "int \<Rightarrow> valtype" where
  "serialize value =
    (if value = 0 then []
     else
       let neg = value < 0;
           absvalue = (if neg then NOT (word_of_int value) + 1 else word_of_int value :: uint64);
           result = serialize_loop absvalue
       in if last result AND 0x80 \<noteq> 0 then result @ [if neg then 0x80 else 0]
          else if neg then butlast result @ [last result OR 0x80]
          else result)"

fun set_vch_loop :: "nat \<Rightarrow> valtype \<Rightarrow> uint64 \<Rightarrow> uint64" where
  "set_vch_loop i [] result = result"
| "set_vch_loop i (b # vch) result = set_vch_loop (Suc i) vch (result OR push_bit (8 * i) (ucast b))"

definition set_vch :: "valtype \<Rightarrow> int" where
  "set_vch vch =
    (if vch = [] then 0
     else
       let result = set_vch_loop 0 vch 0
       in if last vch AND 0x80 \<noteq> 0
          then - sint (result AND NOT (push_bit (8 * (length vch - 1)) 0x80))
          else sint result)"

definition CScriptNum_minimal :: "valtype \<Rightarrow> bool" where
  "CScriptNum_minimal vch \<longleftrightarrow>
    \<not> (0 < length vch \<and> last vch AND 0x7f = 0 \<and>
       (length vch \<le> 1 \<or> vch ! (length vch - 2) AND 0x80 = 0))"

definition CScriptNum_ctor :: "valtype \<Rightarrow> bool \<Rightarrow> nat \<Rightarrow> scriptnum_error + CScriptNum" where
  "CScriptNum_ctor vch fRequireMinimal nMaxNumSize =
    (if nMaxNumSize < length vch then Inl ScriptNumOverflow
     else if fRequireMinimal \<and> \<not> CScriptNum_minimal vch then Inl ScriptNumNonMinimal
     else Inr (set_vch vch))"

definition getint :: "CScriptNum \<Rightarrow> int" where
  "getint m_value =
    (if m_value > 2 ^ 31 - 1 then 2 ^ 31 - 1
     else if m_value < - (2 ^ 31) then - (2 ^ 31)
     else m_value)"

definition getvch :: "CScriptNum \<Rightarrow> valtype" where
  "getvch m_value = serialize m_value"

text \<open>The checked operators: \<open>None\<close> where the source's \<^verbatim>\<open>assert\<close> fails.\<close>

definition ScriptNum_add :: "CScriptNum \<Rightarrow> int \<Rightarrow> CScriptNum option" where
  "ScriptNum_add m_value rhs =
    (if rhs = 0 \<or> (rhs > 0 \<and> m_value \<le> 2 ^ 63 - 1 - rhs) \<or> (rhs < 0 \<and> m_value \<ge> - (2 ^ 63) - rhs)
     then Some (m_value + rhs) else None)"

definition ScriptNum_sub :: "CScriptNum \<Rightarrow> int \<Rightarrow> CScriptNum option" where
  "ScriptNum_sub m_value rhs =
    (if rhs = 0 \<or> (rhs > 0 \<and> m_value \<ge> - (2 ^ 63) + rhs) \<or> (rhs < 0 \<and> m_value \<le> 2 ^ 63 - 1 + rhs)
     then Some (m_value - rhs) else None)"

definition ScriptNum_neg :: "CScriptNum \<Rightarrow> CScriptNum option" where
  "ScriptNum_neg m_value = (if m_value \<noteq> - (2 ^ 63) then Some (- m_value) else None)"

section \<open>Minimal little-endian digits\<close>

fun nat_le :: "nat \<Rightarrow> byte list" where
  "nat_le n = (if n = 0 then [] else word_of_nat n # nat_le (n div 256))"

declare nat_le.simps [simp del]

lemma nat_le_0 [simp]: "nat_le 0 = []"
  by (simp add: nat_le.simps)

lemma nat_le_eq_Nil [simp]: "nat_le n = [] \<longleftrightarrow> n = 0"
  by (subst nat_le.simps) simp

lemma le_nat_nat_le [simp]: "le_nat (nat_le n) = n"
proof (induction n rule: nat_le.induct)
  case (1 n)
  then show ?case by (cases "n = 0") (auto simp: nat_le.simps [of n] unat_of_nat_byte)
qed

lemma last_nat_le: "n \<noteq> 0 \<Longrightarrow> last (nat_le n) \<noteq> 0"
proof (induction n rule: nat_le.induct)
  case (1 n)
  show ?case
  proof (cases "n div 256 = 0")
    case True
    with 1 have "unat (word_of_nat n :: byte) = n" by (simp add: unat_of_nat_byte)
    with 1(2) have "(word_of_nat n :: byte) \<noteq> 0" by (metis unat_0)
    with True 1(2) show ?thesis by (simp add: nat_le.simps [of n])
  next
    case False
    with 1 show ?thesis by (simp add: nat_le.simps [of n])
  qed
qed

lemma nat_le_le_nat: "bs = [] \<or> last bs \<noteq> 0 \<Longrightarrow> nat_le (le_nat bs) = bs"
proof (induction bs)
  case Nil
  then show ?case by simp
next
  case (Cons b bs)
  then have IH: "nat_le (le_nat bs) = bs" by (cases bs) auto
  have "le_nat (b # bs) \<noteq> 0"
  proof
    assume "le_nat (b # bs) = 0"
    then have "unat b = 0" and "le_nat bs = 0" by auto
    with IH have "bs = []" by simp
    with \<open>unat b = 0\<close> Cons.prems show False by (simp add: unat_eq_0)
  qed
  moreover have "(word_of_nat (le_nat (b # bs)) :: byte) = b"
    by (rule word_unat_eq_iff [THEN iffD2]) (simp add: unat_of_nat_byte del: of_nat_add)
  ultimately show ?case using IH by (subst nat_le.simps) simp
qed

lemma serialize_loop_0 [simp]: "serialize_loop 0 = []"
  by (simp add: serialize_loop.simps)

lemma serialize_loop_nat_le: "serialize_loop a = nat_le (unat a)"
proof (induction a rule: serialize_loop.induct)
  case (1 a)
  have "a AND 0xff = take_bit 8 a" by (simp add: take_bit_eq_mask mask_eq_exp_minus_1)
  then have "unat (ucast (a AND 0xff) :: byte) = unat (word_of_nat (unat a) :: byte)"
    by (simp add: unsigned_ucast_eq unsigned_take_bit_eq unat_of_nat_byte take_bit_eq_mod unat_mod)
  then have "(ucast (a AND 0xff) :: byte) = word_of_nat (unat a)"
    by (simp only: word_unat_eq_iff)
  with 1 show ?case
    by (cases "a = 0")
      (simp_all add: serialize_loop.simps [of a] nat_le.simps [of "unat a"] unat_eq_0
        unat_drop_bit_eq drop_bit_eq_div unat_div)
qed

section \<open>The bit loop of set_vch computes the little-endian value\<close>

lemma set_vch_loop_eq:
  assumes "unat r < 2 ^ (8 * i)" and "i + length bs \<le> 8"
  shows "set_vch_loop i bs r = r + push_bit (8 * i) (word_of_nat (le_nat bs))"
  using assms
proof (induction i bs r rule: set_vch_loop.induct)
  case (1 i r)
  then show ?case by simp
next
  case (2 i b bs r)
  let ?r = "r + push_bit (8 * i) (ucast b :: uint64)"
  have "(unat b + 1) * 2 ^ (8 * i) \<le> 256 * 2 ^ (8 * i)"
    using unat_byte_less [of b] by (intro mult_right_mono) linarith+
  then have "unat b * 2 ^ (8 * i) + 2 ^ (8 * i) \<le> 2 ^ (8 * Suc i)"
    by (simp only: power_add mult_Suc_right add_mult_distrib) simp
  with "2.prems"(1) have sm: "unat r + unat b * 2 ^ (8 * i) < 2 ^ (8 * Suc i)"
    by linarith
  have pw: "(2::nat) ^ (8 * Suc i) \<le> 2 ^ 64" using 2 by (intro power_increasing) auto
  have ub: "push_bit (8 * i) (ucast b :: uint64) = word_of_nat (unat b * 2 ^ (8 * i))"
    by (simp add: push_bit_eq_mult)
  have "?r = word_of_nat (unat r + unat b * 2 ^ (8 * i))" by (simp add: ub)
  then have "unat ?r = (unat r + unat b * 2 ^ (8 * i)) mod 2 ^ 64" by (simp only: unat_of_nat) simp
  also have "\<dots> = unat r + unat b * 2 ^ (8 * i)" using sm pw by simp
  finally have lt: "unat ?r < 2 ^ (8 * Suc i)" using sm by simp
  have "r OR push_bit (8 * i) (ucast b) = ?r" using 2 by (simp add: or_push_bit_eq_add)
  then have "set_vch_loop i (b # bs) r = ?r + push_bit (8 * Suc i) (word_of_nat (le_nat bs))"
    using 2 lt by simp
  also have "\<dots> = r + push_bit (8 * i) (word_of_nat (le_nat (b # bs)))"
    by (simp add: ub push_bit_eq_mult power_add algebra_simps)
  finally show ?case .
qed

lemma set_vch_loop_le_nat: "length vch \<le> 8 \<Longrightarrow> set_vch_loop 0 vch 0 = word_of_nat (le_nat vch)"
  by (simp add: set_vch_loop_eq)


section \<open>The sign bit\<close>

lemma and_not_exp:
  fixes r :: "'a::len word"
  assumes "bit r n"
  shows "r AND NOT (2 ^ n) = r - 2 ^ n"
proof -
  have "(r AND NOT (2 ^ n)) AND 2 ^ n = 0"
    by (intro bit_word_eqI) (auto simp: bit_and_iff bit_not_iff)
  then have "(r AND NOT (2 ^ n)) + 2 ^ n = (r AND NOT (2 ^ n)) OR 2 ^ n"
    by (simp only: disjunctive_add_eq_or)
  also have "\<dots> = r"
    using assms by (intro bit_word_eqI) (auto simp: bit_and_iff bit_or_iff bit_not_iff bit_exp_iff)
  finally show ?thesis by (simp add: eq_diff_eq)
qed

lemma sint_of_small_nat: "m < 2 ^ 63 \<Longrightarrow> sint (word_of_nat m :: uint64) = int m"
  using int_word_sint [of "int m", where 'a = 64] by simp

text \<open>The value of a byte string of at most eight bytes: sign and magnitude.\<close>

lemma le_nat_msb:
  assumes "vch \<noteq> []"
  shows "unat (last vch) < 128 \<longleftrightarrow> le_nat vch < 2 ^ (8 * length vch - 1)"
proof -
  obtain bs t where v: "vch = bs @ [t]" using assms by (cases vch rule: rev_cases) auto
  let ?P = "2 ^ (8 * length bs) :: nat"
  have val: "le_nat vch = le_nat bs + ?P * unat t" by (simp add: v le_nat_append power_mult)
  have bsl: "le_nat bs < ?P" using le_nat_less [of bs] by (simp add: power_mult)
  have pw: "(2::nat) ^ (8 * length vch - 1) = ?P * 128" by (simp add: v power_add)
  show ?thesis
  proof
    assume "unat (last vch) < 128"
    then have "?P * (unat t + 1) \<le> ?P * 128" by (intro mult_left_mono) (simp_all add: v)
    then have "?P * unat t + ?P \<le> ?P * 128" by (simp only: distrib_left mult_1_right)
    with bsl show "le_nat vch < 2 ^ (8 * length vch - 1)" unfolding val pw by linarith
  next
    assume "le_nat vch < 2 ^ (8 * length vch - 1)"
    then have "?P * unat t < ?P * 128" unfolding val pw by linarith
    then show "unat (last vch) < 128" by (simp add: v)
  qed
qed

lemma set_vch_nonneg:
  assumes "vch \<noteq> []" and "length vch \<le> 8" and "unat (last vch) < 128"
  shows "set_vch vch = int (le_nat vch)"
proof -
  have "le_nat vch < 2 ^ (8 * length vch - 1)" using assms le_nat_msb by blast
  also have "\<dots> \<le> (2::nat) ^ 63" using assms(2) by (intro power_increasing) auto
  finally show ?thesis
    using assms by (simp add: set_vch_def set_vch_loop_le_nat byte_and_80 sint_of_small_nat)
qed

lemma set_vch_neg:
  assumes "vch \<noteq> []" and "length vch \<le> 8" and "\<not> unat (last vch) < 128"
  shows "set_vch vch = - int (le_nat vch - 2 ^ (8 * length vch - 1))"
proof -
  let ?m = "le_nat vch" and ?n = "8 * length vch - 1"
  let ?r = "word_of_nat ?m :: uint64"
  have n: "8 * length vch = Suc ?n" "?n < 64" using assms(1,2) by (cases vch; simp)+
  have lo: "2 ^ ?n \<le> ?m" using assms(1,3) le_nat_msb by (meson not_le)
  have "(256::nat) ^ length vch = 2 ^ Suc ?n" unfolding n(1) [symmetric] by (simp add: power_mult)
  then have hi: "?m < 2 * 2 ^ ?n" using le_nat_less [of vch] by simp
  have "?m div 2 ^ ?n = 1" using lo hi by (intro div_nat_eqI) auto
  then have "bit ?m ?n" by (simp add: bit_iff_odd)
  then have b: "bit ?r ?n" using n by (simp add: bit_of_nat_iff)
  have "push_bit (8 * (length vch - 1)) 0x80 = (2 ^ ?n :: uint64)"
    using assms(1) by (cases vch) (simp_all add: push_bit_eq_mult power_add)
  then have "?r AND NOT (push_bit (8 * (length vch - 1)) 0x80) = ?r - 2 ^ ?n"
    using b by (simp add: and_not_exp)
  also have "\<dots> = word_of_nat (?m - 2 ^ ?n)" using lo by simp
  finally have eq: "?r AND NOT (push_bit (8 * (length vch - 1)) 0x80) = word_of_nat (?m - 2 ^ ?n)" .
  have "?m - 2 ^ ?n < 2 ^ ?n" using hi lo by linarith
  also have "\<dots> \<le> (2::nat) ^ 63" using n by (intro power_increasing) auto
  finally have "sint (word_of_nat (?m - 2 ^ ?n) :: uint64) = int (?m - 2 ^ ?n)"
    by (rule sint_of_small_nat)
  with assms show ?thesis
    unfolding set_vch_def set_vch_loop_le_nat [OF assms(2)] Let_def eq by (simp add: byte_and_80)
qed

section \<open>Round trips and ranges\<close>

lemma serialize_nat_le:
  assumes "- (2 ^ 63) < n" and "n < 2 ^ 63" and "n \<noteq> 0"
  shows "serialize n =
    (let result = nat_le (nat \<bar>n\<bar>)
     in if \<not> unat (last result) < 128 then result @ [if n < 0 then 0x80 else 0]
        else if n < 0 then butlast result @ [last result OR 0x80]
        else result)"
proof -
  have "NOT (word_of_int n :: uint64) + 1 = - word_of_int n" by (simp add: not_eq_complement)
  moreover have "unat (- word_of_int n :: uint64) = nat (- n)" if "n < 0"
    using that assms unat_word_of_int_small [of "- n", where 'a = 64] by simp
  moreover have "unat (word_of_int n :: uint64) = nat n" if "0 < n"
    using that assms unat_word_of_int_small [of n, where 'a = 64] by simp
  ultimately show ?thesis
    using assms(3) by (simp add: serialize_def serialize_loop_nat_le byte_and_80 Let_def)
qed

lemma le_nat_butlast: "bs \<noteq> [] \<Longrightarrow> le_nat (butlast bs @ [t]) + 256 ^ (length bs - 1) * unat (last bs)
    = le_nat bs + 256 ^ (length bs - 1) * unat t"
  by (cases bs rule: rev_cases) (auto simp: le_nat_append)

lemma length_nat_le: "n < 256 ^ k \<Longrightarrow> length (nat_le n) \<le> k"
proof (induction n arbitrary: k rule: nat_le.induct)
  case (1 n)
  show ?case
  proof (cases "n = 0")
    case False
    with 1(2) obtain k' where k: "k = Suc k'" by (cases k) auto
    with 1(2) have "n div 256 < 256 ^ k'" by (simp add: less_mult_imp_div_less mult.commute)
    with 1(1) False k show ?thesis by (simp add: nat_le.simps [of n])
  qed simp
qed

text \<open>Where a serialized number has its sign bit, by the top digit of the magnitude.\<close>

lemma serialize_cases:
  assumes "- (2 ^ 63) < n" and "n < 2 ^ 63" and "n \<noteq> 0"
  obtains (extend) "128 \<le> unat (last (nat_le (nat \<bar>n\<bar>)))"
      "serialize n = nat_le (nat \<bar>n\<bar>) @ [if n < 0 then 0x80 else 0]"
    | (negative) "unat (last (nat_le (nat \<bar>n\<bar>))) < 128" "n < 0"
      "serialize n = butlast (nat_le (nat \<bar>n\<bar>)) @ [last (nat_le (nat \<bar>n\<bar>)) OR 0x80]"
    | (positive) "unat (last (nat_le (nat \<bar>n\<bar>))) < 128" "0 < n"
      "serialize n = nat_le (nat \<bar>n\<bar>)"
proof (cases "unat (last (nat_le (nat \<bar>n\<bar>))) < 128")
  case True
  then show ?thesis using serialize_nat_le [OF assms] assms(3) negative positive
    by (cases "n < 0") (simp_all add: Let_def)
next
  case False
  then show ?thesis using serialize_nat_le [OF assms] by (intro extend) (simp_all add: Let_def)
qed

lemma nat_le_extend_length:
  assumes "m < 2 ^ (8 * k - 1)" and "m \<noteq> 0" and "128 \<le> unat (last (nat_le m))"
  shows "length (nat_le m) < k"
proof -
  have "\<not> m < 2 ^ (8 * length (nat_le m) - 1)"
    using assms le_nat_msb [of "nat_le m"] by simp
  then have "(2::nat) ^ (8 * length (nat_le m) - 1) < 2 ^ (8 * k - 1)" using assms(1) by linarith
  then show ?thesis by (subst (asm) power_strict_increasing_iff) auto
qed

lemma length_serialize:
  assumes "\<bar>n\<bar> < 2 ^ (8 * k - 1)" and "0 < k" and "k \<le> 8"
  shows "length (serialize n) \<le> k"
proof (cases "n = 0")
  case True
  then show ?thesis by (simp add: serialize_def)
next
  case False
  let ?m = "nat \<bar>n\<bar>"
  have "(2::int) ^ (8 * k - 1) \<le> 2 ^ 63" using assms by (intro power_increasing) auto
  then have n: "- (2 ^ 63) < n" "n < 2 ^ 63" using assms(1) by linarith+
  have m: "?m < 2 ^ (8 * k - 1)" "?m \<noteq> 0" using assms(1) False by (auto simp: nat_less_iff)
  have "(2::nat) ^ (8 * k - 1) \<le> 2 ^ (8 * k)" by (intro power_increasing) auto
  with m(1) have "?m < 2 ^ (8 * k)" by (rule less_le_trans)
  then have "length (nat_le ?m) \<le> k" by (intro length_nat_le) (simp only: power_mult, simp)
  then have l: "length (nat_le ?m) \<le> k" "nat_le ?m \<noteq> []" using m by auto
  from n False show ?thesis
    by (cases rule: serialize_cases [of n]) (use l nat_le_extend_length [OF m] in auto)
qed

lemma set_vch_serialize:
  assumes n: "- (2 ^ 63) < n" "n < 2 ^ 63"
  shows "set_vch (serialize n) = n"
proof (cases "n = 0")
  case True
  then show ?thesis by (simp add: serialize_def set_vch_def)
next
  case False
  let ?m = "nat \<bar>n\<bar>" and ?r = "nat_le (nat \<bar>n\<bar>)"
  have m: "?m < 2 ^ (8 * 8 - 1)" "?m \<noteq> 0" using n False by (auto simp: nat_less_iff)
  have r: "?r \<noteq> []" "le_nat ?r = ?m" using m by auto
  have len: "length (serialize n) \<le> 8" using n by (intro length_serialize) auto
  from n False show ?thesis
  proof (cases rule: serialize_cases [of n])
    case extend
    have "le_nat (serialize n) = ?m + 2 ^ (8 * length ?r) * unat (if n < 0 then 0x80 else 0 :: byte)"
      by (simp add: extend le_nat_append power_mult)
    with len extend show ?thesis
      by (cases "n < 0") (auto simp: set_vch_neg set_vch_nonneg power_add)
  next
    case negative
    have "unat (last (serialize n)) = unat (last ?r) + 128" using negative by (simp add: byte_or_80)
    moreover have "le_nat (serialize n) = ?m + 256 ^ (length ?r - 1) * 128"
      using le_nat_butlast [OF r(1), of "last ?r OR 0x80"] negative r
      by (simp add: byte_or_80 algebra_simps)
    moreover have "length (serialize n) = length ?r" "serialize n \<noteq> []" using negative r(1) by auto
    moreover have "(256::nat) ^ (length ?r - 1) * 128 = 2 ^ (8 * length ?r - 1)"
      using r(1) by (cases ?r) (simp_all add: power_mult power_add)
    ultimately show ?thesis using len negative by (simp add: set_vch_neg)
  next
    case positive
    with len r show ?thesis by (simp add: set_vch_nonneg)
  qed
qed

lemma le_nat_less_bits: "vch \<noteq> [] \<Longrightarrow> le_nat vch < 2 * 2 ^ (8 * length vch - 1)"
  using le_nat_less [of vch] by (cases vch) (simp_all add: power_mult power_add)

lemma set_vch_range:
  assumes "length vch \<le> k" and "k \<le> 8" and "0 < k"
  shows "\<bar>set_vch vch\<bar> < 2 ^ (8 * k - 1)"
proof (cases "vch = []")
  case True
  then show ?thesis by (simp add: set_vch_def)
next
  case False
  have "nat \<bar>set_vch vch\<bar> < 2 ^ (8 * length vch - 1)"
  proof (cases "unat (last vch) < 128")
    case True
    then have "le_nat vch < 2 ^ (8 * length vch - 1)" using False le_nat_msb by blast
    with True show ?thesis using assms False by (simp add: set_vch_nonneg)
  next
    case neg: False
    then have "le_nat vch - 2 ^ (8 * length vch - 1) < 2 ^ (8 * length vch - 1)"
      using le_nat_less_bits [OF False] by linarith
    with neg show ?thesis using assms False by (simp add: set_vch_neg)
  qed
  also have "\<dots> \<le> 2 ^ (8 * k - 1)" using assms by (intro power_increasing) auto
  finally show ?thesis by (simp add: nat_less_iff)
qed

text \<open>A minimal encoding is the one \<open>serialize\<close> produces.\<close>

lemma minimal_snoc:
  "CScriptNum_minimal (bs @ [t]) \<longleftrightarrow>
    unat t mod 128 \<noteq> 0 \<or> (bs \<noteq> [] \<and> 128 \<le> unat (last bs))"
proof -
  have "t AND 0x7f = 0 \<longleftrightarrow> unat t mod 128 = 0"
    by (auto simp: byte_and_7f nat_mod_128 split: if_splits)
  then show ?thesis
    by (cases bs rule: rev_cases) (auto simp: CScriptNum_minimal_def nth_append byte_and_80)
qed

lemma serialize_of_magnitude:
  assumes "- (2 ^ 63) < n" and "n < 2 ^ 63" and "nat \<bar>n\<bar> = le_nat bs" and "bs \<noteq> []" and "last bs \<noteq> 0"
  shows "serialize n =
    (if 128 \<le> unat (last bs) then bs @ [if n < 0 then 0x80 else 0]
     else if n < 0 then butlast bs @ [last bs OR 0x80] else bs)"
proof -
  have bs: "nat_le (nat \<bar>n\<bar>) = bs" using assms nat_le_le_nat by simp
  then have "n \<noteq> 0" using assms(4) by auto
  with assms(1,2) show ?thesis by (cases rule: serialize_cases [of n]) (use bs in auto)
qed

lemma serialize_set_vch:
  assumes "CScriptNum_minimal vch" and "length vch \<le> 8"
  shows "serialize (set_vch vch) = vch"
proof (cases vch rule: rev_cases)
  case Nil
  then show ?thesis by (simp add: set_vch_def serialize_def)
next
  case (snoc bs t)
  let ?n = "set_vch vch" and ?u = "word_of_nat (unat t mod 128) :: byte"
  have u: "unat ?u = unat t mod 128" by (simp add: unat_of_nat_byte)
  have r: "- (2 ^ 63) < ?n" "?n < 2 ^ 63" using set_vch_range [of vch 8] assms(2) by auto
  have pw: "(2::nat) ^ (8 * length vch - 1) = 256 ^ length bs * 128"
    by (simp add: snoc power_add power_mult)
  have val: "le_nat vch = le_nat bs + 256 ^ length bs * unat t" by (simp add: snoc le_nat_append)
  have split: "unat t mod 128 = (if unat t < 128 then unat t else unat t - 128)"
    by (simp add: nat_mod_128)
  have mag: "nat \<bar>?n\<bar> = le_nat bs + 256 ^ length bs * (unat t mod 128)"
  proof (cases "unat t < 128")
    case True
    then have "?n = int (le_nat vch)" using assms(2) snoc by (intro set_vch_nonneg) auto
    then have "nat \<bar>?n\<bar> = le_nat vch" by simp
    with True val show ?thesis by simp
  next
    case False
    have eq: "le_nat vch - 256 ^ length bs * 128 = le_nat bs + 256 ^ length bs * (unat t mod 128)"
      using val False by (simp only: split if_False diff_mult_distrib2) simp
    have "?n = - int (le_nat vch - 256 ^ length bs * 128)"
      unfolding pw [symmetric] using False assms(2) snoc by (intro set_vch_neg) auto
    then show ?thesis by (simp only: abs_minus_cancel abs_of_nat nat_int eq)
  qed
  have sgn: "?n < 0 \<longleftrightarrow> 128 \<le> unat t" if "nat \<bar>?n\<bar> \<noteq> 0"
    using that assms(2) snoc by (cases "unat t < 128") (auto simp: set_vch_neg set_vch_nonneg)
  show ?thesis
  proof (cases "unat t mod 128 = 0")
    case True
    then have b: "bs \<noteq> []" "128 \<le> unat (last bs)" using assms(1) snoc by (auto simp: minimal_snoc)
    then have l: "last bs \<noteq> 0" by auto
    then have "le_nat bs \<noteq> 0" using nat_le_le_nat [of bs] b(1) by (metis nat_le_0)
    with mag True sgn have m: "nat \<bar>?n\<bar> = le_nat bs" "?n < 0 \<longleftrightarrow> 128 \<le> unat t" by auto
    have "t = (if ?n < 0 then 0x80 else 0)"
      using split True m(2) by (auto simp: word_unat_eq_iff split: if_splits)
    then show ?thesis using serialize_of_magnitude [OF r m(1) b(1) l] b(2) snoc by simp
  next
    case False
    have m: "nat \<bar>?n\<bar> = le_nat (bs @ [?u])" using mag u by (simp add: le_nat_append)
    have l: "last (bs @ [?u]) \<noteq> 0" using False u by (simp add: word_unat_eq_iff)
    have s: "?n < 0 \<longleftrightarrow> 128 \<le> unat t" using sgn mag False by simp
    have "unat ?u < 128" using u by simp
    then have "(if ?n < 0 then ?u OR 0x80 else ?u) = t"
      using s u split by (auto simp: word_unat_eq_iff byte_or_80 not_le split: if_splits)
    then show ?thesis using serialize_of_magnitude [OF r m _ l] \<open>unat ?u < 128\<close> snoc by (auto split: if_splits)
  qed
qed

text \<open>
  What the constructor accepts: a decoded number is in range, and under the minimality rule the
  bytes are exactly the encoding of the number.
\<close>

lemma CScriptNum_ctor_range:
  assumes "CScriptNum_ctor vch fRequireMinimal k = Inr n" and "0 < k" and "k \<le> 8"
  shows "\<bar>n\<bar> < 2 ^ (8 * k - 1)"
  using assms set_vch_range by (auto simp: CScriptNum_ctor_def split: if_splits)

lemma CScriptNum_ctor_minimal:
  assumes "CScriptNum_ctor vch True k = Inr n" and "k \<le> 8"
  shows "getvch n = vch"
  using assms by (auto simp: CScriptNum_ctor_def getvch_def serialize_set_vch split: if_splits)

end
