(* ===== verification/Interpreter.thy ===== *)
theory Interpreter
  imports ScriptNum
begin

text \<open>
  The script virtual machine of \<^verbatim>\<open>src/script/interpreter.cpp\<close>: \<^verbatim>\<open>EvalScript\<close> and
  \<^verbatim>\<open>VerifyScript\<close> with the signature and public-key encoding rules they apply.

  The stacks are lists with the top first, so \<^verbatim>\<open>stacktop(-i)\<close> is element \<open>i - 1\<close>. Every
  \<^verbatim>\<open>return set_error(...)\<close> is an \<open>Inl\<close>; an exception (a \<^verbatim>\<open>scriptnum_error\<close>, or one thrown by the
  signature checker) is caught by \<^verbatim>\<open>EvalScript\<close> and is \<open>SCRIPT_ERR_UNKNOWN_ERROR\<close>. The hash
  functions, the low-S test and the signature checker (the virtual class
  \<^verbatim>\<open>BaseSignatureChecker\<close>) are fields of the environment record.
\<close>

section \<open>Data\<close>

datatype ScriptError =
    SCRIPT_ERR_OK | SCRIPT_ERR_UNKNOWN_ERROR | SCRIPT_ERR_EVAL_FALSE | SCRIPT_ERR_OP_RETURN
  | SCRIPT_ERR_SCRIPT_SIZE | SCRIPT_ERR_PUSH_SIZE | SCRIPT_ERR_OP_COUNT | SCRIPT_ERR_STACK_SIZE
  | SCRIPT_ERR_SIG_COUNT | SCRIPT_ERR_PUBKEY_COUNT
  | SCRIPT_ERR_VERIFY | SCRIPT_ERR_EQUALVERIFY | SCRIPT_ERR_CHECKCOLDSTAKEVERIFY
  | SCRIPT_ERR_CHECKMULTISIGVERIFY | SCRIPT_ERR_CHECKSIGVERIFY | SCRIPT_ERR_NUMEQUALVERIFY
  | SCRIPT_ERR_BAD_OPCODE | SCRIPT_ERR_DISABLED_OPCODE | SCRIPT_ERR_INVALID_STACK_OPERATION
  | SCRIPT_ERR_INVALID_ALTSTACK_OPERATION | SCRIPT_ERR_UNBALANCED_CONDITIONAL
  | SCRIPT_ERR_NEGATIVE_LOCKTIME | SCRIPT_ERR_UNSATISFIED_LOCKTIME
  | SCRIPT_ERR_SIG_HASHTYPE | SCRIPT_ERR_SIG_DER | SCRIPT_ERR_MINIMALDATA | SCRIPT_ERR_SIG_PUSHONLY
  | SCRIPT_ERR_SIG_HIGH_S | SCRIPT_ERR_SIG_NULLDUMMY | SCRIPT_ERR_PUBKEYTYPE
  | SCRIPT_ERR_DISCOURAGE_UPGRADABLE_NOPS

datatype SigVersion = SIGVERSION_BASE | SIGVERSION_SAPLING

abbreviation (input) SCRIPT_VERIFY_P2SH :: uint32 where "SCRIPT_VERIFY_P2SH \<equiv> 0x1"
abbreviation (input) SCRIPT_VERIFY_STRICTENC :: uint32 where "SCRIPT_VERIFY_STRICTENC \<equiv> 0x2"
abbreviation (input) SCRIPT_VERIFY_DERSIG :: uint32 where "SCRIPT_VERIFY_DERSIG \<equiv> 0x4"
abbreviation (input) SCRIPT_VERIFY_LOW_S :: uint32 where "SCRIPT_VERIFY_LOW_S \<equiv> 0x8"
abbreviation (input) SCRIPT_VERIFY_NULLDUMMY :: uint32 where "SCRIPT_VERIFY_NULLDUMMY \<equiv> 0x10"
abbreviation (input) SCRIPT_VERIFY_SIGPUSHONLY :: uint32 where "SCRIPT_VERIFY_SIGPUSHONLY \<equiv> 0x20"
abbreviation (input) SCRIPT_VERIFY_MINIMALDATA :: uint32 where "SCRIPT_VERIFY_MINIMALDATA \<equiv> 0x40"
abbreviation (input) SCRIPT_VERIFY_DISCOURAGE_UPGRADABLE_NOPS :: uint32 where
  "SCRIPT_VERIFY_DISCOURAGE_UPGRADABLE_NOPS \<equiv> 0x80"
abbreviation (input) SCRIPT_VERIFY_CLEANSTACK :: uint32 where "SCRIPT_VERIFY_CLEANSTACK \<equiv> 0x100"
abbreviation (input) SCRIPT_VERIFY_CHECKLOCKTIMEVERIFY :: uint32 where
  "SCRIPT_VERIFY_CHECKLOCKTIMEVERIFY \<equiv> 0x200"

abbreviation (input) SIGHASH_ALL :: byte where "SIGHASH_ALL \<equiv> 1"
abbreviation (input) SIGHASH_NONE :: byte where "SIGHASH_NONE \<equiv> 2"
abbreviation (input) SIGHASH_SINGLE :: byte where "SIGHASH_SINGLE \<equiv> 3"
abbreviation (input) SIGHASH_ANYONECANPAY :: byte where "SIGHASH_ANYONECANPAY \<equiv> 0x80"

text \<open>
  \<open>CheckSig\<close> is \<open>None\<close> where the checker throws (\<^verbatim>\<open>SignatureHash\<close> on a wrong signature version).
\<close>

record sigchecker =
  CheckSig :: "valtype \<Rightarrow> valtype \<Rightarrow> CScript \<Rightarrow> SigVersion \<Rightarrow> bool option"
  CheckLockTime :: "CScriptNum \<Rightarrow> bool"
  CheckColdStake :: "CScript \<Rightarrow> bool"

record script_env =
  h_RIPEMD160 :: "valtype \<Rightarrow> valtype"
  h_SHA1 :: "valtype \<Rightarrow> valtype"
  h_SHA256 :: "valtype \<Rightarrow> valtype"
  h_Hash160 :: "valtype \<Rightarrow> valtype"
  h_Hash256 :: "valtype \<Rightarrow> valtype"
  CheckLowS :: "valtype \<Rightarrow> bool"
  flags :: uint32
  sigversion :: SigVersion
  checker :: sigchecker

record eval_state =
  stack :: "valtype list"
  altstack :: "valtype list"
  vfExec :: "bool list"
  nOpCount :: nat
  pbegincodehash :: CScript

definition has_flag :: "script_env \<Rightarrow> uint32 \<Rightarrow> bool" where
  "has_flag env f \<longleftrightarrow> flags env AND f \<noteq> 0"

abbreviation (input) vchFalse :: valtype where "vchFalse \<equiv> []"
abbreviation vchTrue :: valtype where "vchTrue \<equiv> [1]"

definition bool_vch :: "bool \<Rightarrow> valtype" where
  "bool_vch b = (if b then vchTrue else vchFalse)"

section \<open>Encodings\<close>

fun CastToBool :: "valtype \<Rightarrow> bool" where
  "CastToBool [] = False"
| "CastToBool (b # vch) =
    (if b \<noteq> 0 then \<not> (vch = [] \<and> b = 0x80) else CastToBool vch)"

definition IsCompressedOrUncompressedPubKey :: "valtype \<Rightarrow> bool" where
  "IsCompressedOrUncompressedPubKey vchPubKey =
    (if length vchPubKey < 33 then False
     else if vchPubKey ! 0 = 0x04 then \<not> length vchPubKey \<noteq> 65
     else if vchPubKey ! 0 = 0x02 \<or> vchPubKey ! 0 = 0x03 then \<not> length vchPubKey \<noteq> 33
     else False)"

definition IsValidSignatureEncoding :: "valtype \<Rightarrow> bool" where
  "IsValidSignatureEncoding sig =
    (if length sig < 9 then False
     else if length sig > 73 then False
     else if sig ! 0 \<noteq> 0x30 then False
     else if unat (sig ! 1) \<noteq> length sig - 3 then False
     else let lenR = unat (sig ! 3) in
       if 5 + lenR \<ge> length sig then False
       else let lenS = unat (sig ! (5 + lenR)) in
         if lenR + lenS + 7 \<noteq> length sig then False
         else if sig ! 2 \<noteq> 0x02 then False
         else if lenR = 0 then False
         else if sig ! 4 AND 0x80 \<noteq> 0 then False
         else if lenR > 1 \<and> sig ! 4 = 0x00 \<and> sig ! 5 AND 0x80 = 0 then False
         else if sig ! (lenR + 4) \<noteq> 0x02 then False
         else if lenS = 0 then False
         else if sig ! (lenR + 6) AND 0x80 \<noteq> 0 then False
         else if lenS > 1 \<and> sig ! (lenR + 6) = 0x00 \<and> sig ! (lenR + 7) AND 0x80 = 0 then False
         else True)"

definition IsLowDERSignature :: "script_env \<Rightarrow> valtype \<Rightarrow> ScriptError + unit" where
  "IsLowDERSignature env vchSig =
    (if \<not> IsValidSignatureEncoding vchSig then Inl SCRIPT_ERR_SIG_DER
     else if \<not> CheckLowS env (take (length vchSig - 1) vchSig) then Inl SCRIPT_ERR_SIG_HIGH_S
     else Inr ())"

definition IsDefinedHashtypeSignature :: "valtype \<Rightarrow> bool" where
  "IsDefinedHashtypeSignature vchSig =
    (if length vchSig = 0 then False
     else let nHashType = vchSig ! (length vchSig - 1) AND NOT SIGHASH_ANYONECANPAY
          in \<not> (nHashType < SIGHASH_ALL \<or> nHashType > SIGHASH_SINGLE))"

definition CheckSignatureEncoding :: "script_env \<Rightarrow> valtype \<Rightarrow> ScriptError + unit" where
  "CheckSignatureEncoding env vchSig =
    (if length vchSig = 0 then Inr ()
     else if has_flag env (SCRIPT_VERIFY_DERSIG OR SCRIPT_VERIFY_LOW_S OR SCRIPT_VERIFY_STRICTENC)
             \<and> \<not> IsValidSignatureEncoding vchSig then Inl SCRIPT_ERR_SIG_DER
     else if has_flag env SCRIPT_VERIFY_LOW_S \<and> isl (IsLowDERSignature env vchSig)
       then IsLowDERSignature env vchSig
     else if has_flag env SCRIPT_VERIFY_STRICTENC \<and> \<not> IsDefinedHashtypeSignature vchSig
       then Inl SCRIPT_ERR_SIG_HASHTYPE
     else Inr ())"

definition CheckPubKeyEncoding :: "script_env \<Rightarrow> valtype \<Rightarrow> ScriptError + unit" where
  "CheckPubKeyEncoding env vchSig =
    (if has_flag env SCRIPT_VERIFY_STRICTENC \<and> \<not> IsCompressedOrUncompressedPubKey vchSig
     then Inl SCRIPT_ERR_PUBKEYTYPE else Inr ())"

definition CheckMinimalPush :: "valtype \<Rightarrow> opcodetype \<Rightarrow> bool" where
  "CheckMinimalPush data opcode =
    (if length data = 0 then opcode = OP_0
     else if length data = 1 \<and> 1 \<le> data ! 0 \<and> data ! 0 \<le> 16 then opcode = OP_1 + (data ! 0 - 1)
     else if length data = 1 \<and> data ! 0 = 0x81 then opcode = OP_1NEGATE
     else if length data \<le> 75 then unat opcode = length data
     else if length data \<le> 255 then opcode = OP_PUSHDATA1
     else if length data \<le> 65535 then opcode = OP_PUSHDATA2
     else True)"

section \<open>Numbers on the stack\<close>

definition fRequireMinimal :: "script_env \<Rightarrow> bool" where
  "fRequireMinimal env = has_flag env SCRIPT_VERIFY_MINIMALDATA"

text \<open>A number popped from the stack; the exception of the constructor ends the evaluation.\<close>

definition stack_num :: "script_env \<Rightarrow> nat \<Rightarrow> valtype \<Rightarrow> ScriptError + CScriptNum" where
  "stack_num env nMaxNumSize vch =
    (case CScriptNum_ctor vch (fRequireMinimal env) nMaxNumSize of
       Inl _ \<Rightarrow> Inl SCRIPT_ERR_UNKNOWN_ERROR
     | Inr n \<Rightarrow> Inr n)"

definition num4 :: "script_env \<Rightarrow> valtype \<Rightarrow> ScriptError + CScriptNum" where
  "num4 env vch = stack_num env nDefaultMaxNumSize vch"

section \<open>Opcodes: control\<close>

definition op_pushnum :: "opcodetype \<Rightarrow> eval_state \<Rightarrow> eval_state" where
  "op_pushnum opcode s = s\<lparr>stack := getvch (uint opcode - (uint OP_1 - 1)) # stack s\<rparr>"

definition op_cltv :: "script_env \<Rightarrow> eval_state \<Rightarrow> ScriptError + eval_state" where
  "op_cltv env s =
    (if \<not> has_flag env SCRIPT_VERIFY_CHECKLOCKTIMEVERIFY then
       (if has_flag env SCRIPT_VERIFY_DISCOURAGE_UPGRADABLE_NOPS
        then Inl SCRIPT_ERR_DISCOURAGE_UPGRADABLE_NOPS else Inr s)
     else case stack s of
       [] \<Rightarrow> Inl SCRIPT_ERR_INVALID_STACK_OPERATION
     | vch # _ \<Rightarrow>
         (case stack_num env 5 vch of
            Inl e \<Rightarrow> Inl e
          | Inr nLockTime \<Rightarrow>
              if nLockTime < 0 then Inl SCRIPT_ERR_NEGATIVE_LOCKTIME
              else if \<not> CheckLockTime (checker env) nLockTime then Inl SCRIPT_ERR_UNSATISFIED_LOCKTIME
              else Inr s))"

definition op_nop_n :: "script_env \<Rightarrow> eval_state \<Rightarrow> ScriptError + eval_state" where
  "op_nop_n env s =
    (if has_flag env SCRIPT_VERIFY_DISCOURAGE_UPGRADABLE_NOPS
     then Inl SCRIPT_ERR_DISCOURAGE_UPGRADABLE_NOPS else Inr s)"

definition op_if :: "bool \<Rightarrow> opcodetype \<Rightarrow> eval_state \<Rightarrow> ScriptError + eval_state" where
  "op_if fExec opcode s =
    (if fExec then
       (case stack s of
          [] \<Rightarrow> Inl SCRIPT_ERR_UNBALANCED_CONDITIONAL
        | vch # st \<Rightarrow>
            let fValue = (if opcode = OP_NOTIF then \<not> CastToBool vch else CastToBool vch)
            in Inr (s\<lparr>stack := st, vfExec := fValue # vfExec s\<rparr>))
     else Inr (s\<lparr>vfExec := False # vfExec s\<rparr>))"

definition op_else :: "eval_state \<Rightarrow> ScriptError + eval_state" where
  "op_else s =
    (case vfExec s of
       [] \<Rightarrow> Inl SCRIPT_ERR_UNBALANCED_CONDITIONAL
     | b # bs \<Rightarrow> Inr (s\<lparr>vfExec := (\<not> b) # bs\<rparr>))"

definition op_endif :: "eval_state \<Rightarrow> ScriptError + eval_state" where
  "op_endif s =
    (case vfExec s of
       [] \<Rightarrow> Inl SCRIPT_ERR_UNBALANCED_CONDITIONAL
     | b # bs \<Rightarrow> Inr (s\<lparr>vfExec := bs\<rparr>))"

definition op_verify :: "eval_state \<Rightarrow> ScriptError + eval_state" where
  "op_verify s =
    (case stack s of
       [] \<Rightarrow> Inl SCRIPT_ERR_INVALID_STACK_OPERATION
     | vch # st \<Rightarrow> if CastToBool vch then Inr (s\<lparr>stack := st\<rparr>) else Inl SCRIPT_ERR_VERIFY)"

section \<open>Opcodes: stack\<close>

definition op_altstack :: "opcodetype \<Rightarrow> eval_state \<Rightarrow> ScriptError + eval_state" where
  "op_altstack opcode s =
    (if opcode = OP_TOALTSTACK then
       (case stack s of
          [] \<Rightarrow> Inl SCRIPT_ERR_INVALID_STACK_OPERATION
        | x # st \<Rightarrow> Inr (s\<lparr>stack := st, altstack := x # altstack s\<rparr>))
     else
       (case altstack s of
          [] \<Rightarrow> Inl SCRIPT_ERR_INVALID_ALTSTACK_OPERATION
        | x # alt \<Rightarrow> Inr (s\<lparr>stack := x # stack s, altstack := alt\<rparr>)))"

text \<open>The operations on several elements: \<^verbatim>\<open>OP_2DROP\<close> to \<^verbatim>\<open>OP_2SWAP\<close>.\<close>

definition op_multi :: "opcodetype \<Rightarrow> valtype list \<Rightarrow> ScriptError + valtype list" where
  "op_multi opcode st =
    (if opcode = OP_2DROP then
       (case st of x2 # x1 # r \<Rightarrow> Inr r | _ \<Rightarrow> Inl SCRIPT_ERR_INVALID_STACK_OPERATION)
     else if opcode = OP_2DUP then
       (case st of x2 # x1 # r \<Rightarrow> Inr (x2 # x1 # x2 # x1 # r)
                 | _ \<Rightarrow> Inl SCRIPT_ERR_INVALID_STACK_OPERATION)
     else if opcode = OP_3DUP then
       (case st of x3 # x2 # x1 # r \<Rightarrow> Inr (x3 # x2 # x1 # x3 # x2 # x1 # r)
                 | _ \<Rightarrow> Inl SCRIPT_ERR_INVALID_STACK_OPERATION)
     else if opcode = OP_2OVER then
       (case st of x4 # x3 # x2 # x1 # r \<Rightarrow> Inr (x2 # x1 # x4 # x3 # x2 # x1 # r)
                 | _ \<Rightarrow> Inl SCRIPT_ERR_INVALID_STACK_OPERATION)
     else if opcode = OP_2ROT then
       (case st of x6 # x5 # x4 # x3 # x2 # x1 # r \<Rightarrow> Inr (x2 # x1 # x6 # x5 # x4 # x3 # r)
                 | _ \<Rightarrow> Inl SCRIPT_ERR_INVALID_STACK_OPERATION)
     else
       (case st of x4 # x3 # x2 # x1 # r \<Rightarrow> Inr (x2 # x1 # x4 # x3 # r)
                 | _ \<Rightarrow> Inl SCRIPT_ERR_INVALID_STACK_OPERATION))"

text \<open>\<^verbatim>\<open>OP_IFDUP\<close> to \<^verbatim>\<open>OP_OVER\<close>.\<close>

definition op_single :: "opcodetype \<Rightarrow> valtype list \<Rightarrow> ScriptError + valtype list" where
  "op_single opcode st =
    (if opcode = OP_IFDUP then
       (case st of [] \<Rightarrow> Inl SCRIPT_ERR_INVALID_STACK_OPERATION
                 | x # r \<Rightarrow> if CastToBool x then Inr (x # x # r) else Inr (x # r))
     else if opcode = OP_DEPTH then Inr (getvch (int (length st)) # st)
     else if opcode = OP_DROP then
       (case st of [] \<Rightarrow> Inl SCRIPT_ERR_INVALID_STACK_OPERATION | x # r \<Rightarrow> Inr r)
     else if opcode = OP_DUP then
       (case st of [] \<Rightarrow> Inl SCRIPT_ERR_INVALID_STACK_OPERATION | x # r \<Rightarrow> Inr (x # x # r))
     else if opcode = OP_NIP then
       (case st of x2 # x1 # r \<Rightarrow> Inr (x2 # r) | _ \<Rightarrow> Inl SCRIPT_ERR_INVALID_STACK_OPERATION)
     else
       (case st of x2 # x1 # r \<Rightarrow> Inr (x1 # x2 # x1 # r)
                 | _ \<Rightarrow> Inl SCRIPT_ERR_INVALID_STACK_OPERATION))"

definition op_pick_roll :: "script_env \<Rightarrow> opcodetype \<Rightarrow> valtype list \<Rightarrow> ScriptError + valtype list" where
  "op_pick_roll env opcode st =
    (case st of
       v # x # r \<Rightarrow>
         (case num4 env v of
            Inl e \<Rightarrow> Inl e
          | Inr bn \<Rightarrow>
              let n = getint bn; st' = x # r
              in if n < 0 \<or> n \<ge> int (length st') then Inl SCRIPT_ERR_INVALID_STACK_OPERATION
                 else let vch = st' ! nat n
                      in Inr (vch # (if opcode = OP_ROLL then take (nat n) st' @ drop (Suc (nat n)) st'
                                     else st')))
     | _ \<Rightarrow> Inl SCRIPT_ERR_INVALID_STACK_OPERATION)"

text \<open>\<^verbatim>\<open>OP_ROT\<close>, \<^verbatim>\<open>OP_SWAP\<close>, \<^verbatim>\<open>OP_TUCK\<close>.\<close>

definition op_rot_swap_tuck :: "opcodetype \<Rightarrow> valtype list \<Rightarrow> ScriptError + valtype list" where
  "op_rot_swap_tuck opcode st =
    (if opcode = OP_ROT then
       (case st of x3 # x2 # x1 # r \<Rightarrow> Inr (x1 # x3 # x2 # r)
                 | _ \<Rightarrow> Inl SCRIPT_ERR_INVALID_STACK_OPERATION)
     else if opcode = OP_SWAP then
       (case st of x2 # x1 # r \<Rightarrow> Inr (x1 # x2 # r) | _ \<Rightarrow> Inl SCRIPT_ERR_INVALID_STACK_OPERATION)
     else
       (case st of x2 # x1 # r \<Rightarrow> Inr (x2 # x1 # x2 # r)
                 | _ \<Rightarrow> Inl SCRIPT_ERR_INVALID_STACK_OPERATION))"

definition op_size :: "valtype list \<Rightarrow> ScriptError + valtype list" where
  "op_size st =
    (case st of [] \<Rightarrow> Inl SCRIPT_ERR_INVALID_STACK_OPERATION
              | x # r \<Rightarrow> Inr (getvch (int (length x)) # x # r))"

definition op_equal :: "opcodetype \<Rightarrow> valtype list \<Rightarrow> ScriptError + valtype list" where
  "op_equal opcode st =
    (case st of
       vch2 # vch1 # r \<Rightarrow>
         let fEqual = (vch1 = vch2)
         in if opcode = OP_EQUALVERIFY then
              (if fEqual then Inr r else Inl SCRIPT_ERR_EQUALVERIFY)
            else Inr (bool_vch fEqual # r)
     | _ \<Rightarrow> Inl SCRIPT_ERR_INVALID_STACK_OPERATION)"

section \<open>Opcodes: numbers\<close>

definition unary_num :: "opcodetype \<Rightarrow> CScriptNum \<Rightarrow> CScriptNum" where
  "unary_num opcode bn =
    (if opcode = OP_1ADD then the (ScriptNum_add bn 1)
     else if opcode = OP_1SUB then the (ScriptNum_sub bn 1)
     else if opcode = OP_NEGATE then the (ScriptNum_neg bn)
     else if opcode = OP_ABS then (if bn < 0 then the (ScriptNum_neg bn) else bn)
     else if opcode = OP_NOT then of_bool (bn = 0)
     else of_bool (bn \<noteq> 0))"

definition op_unary :: "script_env \<Rightarrow> opcodetype \<Rightarrow> valtype list \<Rightarrow> ScriptError + valtype list" where
  "op_unary env opcode st =
    (case st of
       [] \<Rightarrow> Inl SCRIPT_ERR_INVALID_STACK_OPERATION
     | x # r \<Rightarrow> (case num4 env x of
                   Inl e \<Rightarrow> Inl e
                 | Inr bn \<Rightarrow> Inr (getvch (unary_num opcode bn) # r)))"

definition binary_num :: "opcodetype \<Rightarrow> CScriptNum \<Rightarrow> CScriptNum \<Rightarrow> CScriptNum" where
  "binary_num opcode bn1 bn2 =
    (if opcode = OP_ADD then bn1 + bn2
     else if opcode = OP_SUB then bn1 - bn2
     else if opcode = OP_BOOLAND then of_bool (bn1 \<noteq> 0 \<and> bn2 \<noteq> 0)
     else if opcode = OP_BOOLOR then of_bool (bn1 \<noteq> 0 \<or> bn2 \<noteq> 0)
     else if opcode = OP_NUMEQUAL then of_bool (bn1 = bn2)
     else if opcode = OP_NUMEQUALVERIFY then of_bool (bn1 = bn2)
     else if opcode = OP_NUMNOTEQUAL then of_bool (bn1 \<noteq> bn2)
     else if opcode = OP_LESSTHAN then of_bool (bn1 < bn2)
     else if opcode = OP_GREATERTHAN then of_bool (bn1 > bn2)
     else if opcode = OP_LESSTHANOREQUAL then of_bool (bn1 \<le> bn2)
     else if opcode = OP_GREATERTHANOREQUAL then of_bool (bn1 \<ge> bn2)
     else if opcode = OP_MIN then (if bn1 < bn2 then bn1 else bn2)
     else (if bn1 > bn2 then bn1 else bn2))"

definition op_binary :: "script_env \<Rightarrow> opcodetype \<Rightarrow> valtype list \<Rightarrow> ScriptError + valtype list" where
  "op_binary env opcode st =
    (case st of
       x2 # x1 # r \<Rightarrow>
         (case num4 env x1 of
            Inl e \<Rightarrow> Inl e
          | Inr bn1 \<Rightarrow>
              (case num4 env x2 of
                 Inl e \<Rightarrow> Inl e
               | Inr bn2 \<Rightarrow>
                   let v = getvch (binary_num opcode bn1 bn2)
                   in if opcode = OP_NUMEQUALVERIFY then
                        (if CastToBool v then Inr r else Inl SCRIPT_ERR_NUMEQUALVERIFY)
                      else Inr (v # r)))
     | _ \<Rightarrow> Inl SCRIPT_ERR_INVALID_STACK_OPERATION)"

definition op_within :: "script_env \<Rightarrow> valtype list \<Rightarrow> ScriptError + valtype list" where
  "op_within env st =
    (case st of
       x3 # x2 # x1 # r \<Rightarrow>
         (case num4 env x1 of
            Inl e \<Rightarrow> Inl e
          | Inr bn1 \<Rightarrow>
              (case num4 env x2 of
                 Inl e \<Rightarrow> Inl e
               | Inr bn2 \<Rightarrow>
                   (case num4 env x3 of
                      Inl e \<Rightarrow> Inl e
                    | Inr bn3 \<Rightarrow> Inr (bool_vch (bn2 \<le> bn1 \<and> bn1 < bn3) # r))))
     | _ \<Rightarrow> Inl SCRIPT_ERR_INVALID_STACK_OPERATION)"

section \<open>Opcodes: cryptography\<close>

definition op_hash :: "script_env \<Rightarrow> opcodetype \<Rightarrow> valtype list \<Rightarrow> ScriptError + valtype list" where
  "op_hash env opcode st =
    (case st of
       [] \<Rightarrow> Inl SCRIPT_ERR_INVALID_STACK_OPERATION
     | vch # r \<Rightarrow>
         Inr ((if opcode = OP_RIPEMD160 then h_RIPEMD160 env vch
               else if opcode = OP_SHA1 then h_SHA1 env vch
               else if opcode = OP_SHA256 then h_SHA256 env vch
               else if opcode = OP_HASH160 then h_Hash160 env vch
               else h_Hash256 env vch) # r))"

text \<open>The two encoding checks made before every signature check.\<close>

definition check_encodings :: "script_env \<Rightarrow> valtype \<Rightarrow> valtype \<Rightarrow> ScriptError + unit" where
  "check_encodings env vchSig vchPubKey =
    (case CheckSignatureEncoding env vchSig of
       Inl e \<Rightarrow> Inl e
     | Inr _ \<Rightarrow> CheckPubKeyEncoding env vchPubKey)"

definition op_checksig :: "script_env \<Rightarrow> opcodetype \<Rightarrow> eval_state \<Rightarrow> ScriptError + eval_state" where
  "op_checksig env opcode s =
    (case stack s of
       vchPubKey # vchSig # r \<Rightarrow>
         let scriptCode = fst (FindAndDelete (pbegincodehash s) (push_data vchSig))
         in (case check_encodings env vchSig vchPubKey of
               Inl e \<Rightarrow> Inl e
             | Inr _ \<Rightarrow>
                 (case CheckSig (checker env) vchSig vchPubKey scriptCode (sigversion env) of
                    None \<Rightarrow> Inl SCRIPT_ERR_UNKNOWN_ERROR
                  | Some fSuccess \<Rightarrow>
                      if opcode = OP_CHECKSIGVERIFY then
                        (if fSuccess then Inr (s\<lparr>stack := r\<rparr>) else Inl SCRIPT_ERR_CHECKSIGVERIFY)
                      else Inr (s\<lparr>stack := bool_vch fSuccess # r\<rparr>)))
     | _ \<Rightarrow> Inl SCRIPT_ERR_INVALID_STACK_OPERATION)"

text \<open>
  The signature loop of \<^verbatim>\<open>OP_CHECKMULTISIG\<close>. \<open>isig\<close> and \<open>ikey\<close> count from the top of the stack,
  from 1, as the \<^verbatim>\<open>stacktop(-i)\<close> macro does.
\<close>

function multisig_loop ::
  "script_env \<Rightarrow> CScript \<Rightarrow> valtype list \<Rightarrow> nat \<Rightarrow> nat \<Rightarrow> int \<Rightarrow> int \<Rightarrow> ScriptError + bool" where
  "multisig_loop env scriptCode st isig ikey nSigsCount nKeysCount =
    (if nSigsCount > 0 then
       let vchSig = st ! (isig - 1); vchPubKey = st ! (ikey - 1)
       in (case check_encodings env vchSig vchPubKey of
             Inl e \<Rightarrow> Inl e
           | Inr _ \<Rightarrow>
               (case CheckSig (checker env) vchSig vchPubKey scriptCode (sigversion env) of
                  None \<Rightarrow> Inl SCRIPT_ERR_UNKNOWN_ERROR
                | Some fOk \<Rightarrow>
                    let isig' = (if fOk then isig + 1 else isig);
                        nSigs' = (if fOk then nSigsCount - 1 else nSigsCount)
                    in if nSigs' > nKeysCount - 1 then Inr False
                       else multisig_loop env scriptCode st isig' (ikey + 1) nSigs' (nKeysCount - 1)))
     else Inr True)"
  by pat_completeness auto
termination
  by (relation "measure (\<lambda>(env, code, st, isig, ikey, nSigs, nKeys). nat (nKeys + 1))")
    (auto split: if_splits)

declare multisig_loop.simps [simp del]

text \<open>The signatures are removed from the script code one after the other.\<close>

definition multisig_script_code :: "CScript \<Rightarrow> valtype list \<Rightarrow> nat \<Rightarrow> nat \<Rightarrow> CScript" where
  "multisig_script_code code st isig nSigsCount =
    fold (\<lambda>k c. fst (FindAndDelete c (push_data (st ! (isig + k - 1))))) [0..<nSigsCount] code"

definition op_checkmultisig :: "script_env \<Rightarrow> opcodetype \<Rightarrow> eval_state \<Rightarrow> ScriptError + eval_state" where
  "op_checkmultisig env opcode s =
    (let st = stack s in
     if length st < 1 then Inl SCRIPT_ERR_INVALID_STACK_OPERATION
     else case num4 env (st ! 0) of Inl e \<Rightarrow> Inl e | Inr bnKeys \<Rightarrow>
       let nKeysCount = getint bnKeys in
       if nKeysCount < 0 \<or> nKeysCount > int MAX_PUBKEYS_PER_MULTISIG then Inl SCRIPT_ERR_PUBKEY_COUNT
       else let nKeys = nat nKeysCount; nOps = nOpCount s + nKeys in
       if nOps > 201 then Inl SCRIPT_ERR_OP_COUNT
       else if length st < 2 + nKeys then Inl SCRIPT_ERR_INVALID_STACK_OPERATION
       else case num4 env (st ! (1 + nKeys)) of Inl e \<Rightarrow> Inl e | Inr bnSigs \<Rightarrow>
         let nSigsCount = getint bnSigs in
         if nSigsCount < 0 \<or> nSigsCount > nKeysCount then Inl SCRIPT_ERR_SIG_COUNT
         else let nSigs = nat nSigsCount; isig = 3 + nKeys; i = isig + nSigs in
         if length st < i then Inl SCRIPT_ERR_INVALID_STACK_OPERATION
         else let scriptCode = multisig_script_code (pbegincodehash s) st isig nSigs in
         case multisig_loop env scriptCode st isig 2 nSigsCount nKeysCount of Inl e \<Rightarrow> Inl e
         | Inr fSuccess \<Rightarrow>
           (case drop (i - 1) st of
              [] \<Rightarrow> Inl SCRIPT_ERR_INVALID_STACK_OPERATION
            | dummy # r \<Rightarrow>
                if has_flag env SCRIPT_VERIFY_NULLDUMMY \<and> length dummy \<noteq> 0
                then Inl SCRIPT_ERR_SIG_NULLDUMMY
                else if opcode = OP_CHECKMULTISIGVERIFY then
                  (if fSuccess then Inr (s\<lparr>stack := r, nOpCount := nOps\<rparr>)
                   else Inl SCRIPT_ERR_CHECKMULTISIGVERIFY)
                else Inr (s\<lparr>stack := bool_vch fSuccess # r, nOpCount := nOps\<rparr>)))"

section \<open>One instruction\<close>

definition on_stack :: "eval_state \<Rightarrow> ScriptError + valtype list \<Rightarrow> ScriptError + eval_state" where
  "on_stack s r = (case r of Inl e \<Rightarrow> Inl e | Inr st \<Rightarrow> Inr (s\<lparr>stack := st\<rparr>))"

text \<open>The switch: \<open>pc\<close> is the iterator after the instruction.\<close>

definition exec_op ::
  "script_env \<Rightarrow> CScript \<Rightarrow> CScript \<Rightarrow> bool \<Rightarrow> opcodetype \<Rightarrow> eval_state \<Rightarrow> ScriptError + eval_state" where
  "exec_op env script pc fExec opcode s =
    (if opcode = OP_1NEGATE \<or> (OP_1 \<le> opcode \<and> opcode \<le> OP_16) then Inr (op_pushnum opcode s)
     else if opcode = OP_NOP then Inr s
     else if opcode = OP_CHECKLOCKTIMEVERIFY then op_cltv env s
     else if opcode = OP_NOP1 \<or> (OP_NOP3 \<le> opcode \<and> opcode \<le> OP_NOP10) then op_nop_n env s
     else if opcode = OP_IF \<or> opcode = OP_NOTIF then op_if fExec opcode s
     else if opcode = OP_ELSE then op_else s
     else if opcode = OP_ENDIF then op_endif s
     else if opcode = OP_VERIFY then op_verify s
     else if opcode = OP_RETURN then Inl SCRIPT_ERR_OP_RETURN
     else if opcode = OP_TOALTSTACK \<or> opcode = OP_FROMALTSTACK then op_altstack opcode s
     else if OP_2DROP \<le> opcode \<and> opcode \<le> OP_2SWAP then on_stack s (op_multi opcode (stack s))
     else if OP_IFDUP \<le> opcode \<and> opcode \<le> OP_OVER then on_stack s (op_single opcode (stack s))
     else if opcode = OP_PICK \<or> opcode = OP_ROLL then on_stack s (op_pick_roll env opcode (stack s))
     else if opcode = OP_ROT \<or> opcode = OP_SWAP \<or> opcode = OP_TUCK
       then on_stack s (op_rot_swap_tuck opcode (stack s))
     else if opcode = OP_SIZE then on_stack s (op_size (stack s))
     else if opcode = OP_EQUAL \<or> opcode = OP_EQUALVERIFY then on_stack s (op_equal opcode (stack s))
     else if opcode = OP_1ADD \<or> opcode = OP_1SUB \<or> opcode = OP_NEGATE \<or> opcode = OP_ABS \<or>
             opcode = OP_NOT \<or> opcode = OP_0NOTEQUAL then on_stack s (op_unary env opcode (stack s))
     else if opcode = OP_ADD \<or> opcode = OP_SUB \<or> (OP_BOOLAND \<le> opcode \<and> opcode \<le> OP_MAX)
       then on_stack s (op_binary env opcode (stack s))
     else if opcode = OP_WITHIN then on_stack s (op_within env (stack s))
     else if OP_RIPEMD160 \<le> opcode \<and> opcode \<le> OP_HASH256 then on_stack s (op_hash env opcode (stack s))
     else if opcode = OP_CODESEPARATOR then Inr (s\<lparr>pbegincodehash := pc\<rparr>)
     else if opcode = OP_CHECKSIG \<or> opcode = OP_CHECKSIGVERIFY then op_checksig env opcode s
     else if opcode = OP_CHECKMULTISIG \<or> opcode = OP_CHECKMULTISIGVERIFY then op_checkmultisig env opcode s
     else if opcode = OP_CHECKCOLDSTAKEVERIFY then
       (if \<not> CheckColdStake (checker env) script then Inl SCRIPT_ERR_CHECKCOLDSTAKEVERIFY else Inr s)
     else Inl SCRIPT_ERR_BAD_OPCODE)"

definition disabled_opcode :: "opcodetype \<Rightarrow> bool" where
  "disabled_opcode opcode \<longleftrightarrow> opcode = OP_CAT \<or> opcode = OP_SUBSTR \<or> opcode = OP_LEFT \<or>
    opcode = OP_RIGHT \<or> opcode = OP_INVERT \<or> opcode = OP_AND \<or> opcode = OP_OR \<or> opcode = OP_XOR \<or>
    opcode = OP_2MUL \<or> opcode = OP_2DIV \<or> opcode = OP_MUL \<or> opcode = OP_DIV \<or> opcode = OP_MOD \<or>
    opcode = OP_LSHIFT \<or> opcode = OP_RSHIFT"

definition fExec :: "eval_state \<Rightarrow> bool" where
  "fExec s \<longleftrightarrow> False \<notin> set (vfExec s)"

text \<open>The part of the loop body after the counters: push, execute or skip.\<close>

definition dispatch ::
  "script_env \<Rightarrow> CScript \<Rightarrow> CScript \<Rightarrow> opcodetype \<Rightarrow> valtype \<Rightarrow> eval_state \<Rightarrow> ScriptError + eval_state" where
  "dispatch env script pc opcode vchPushValue s =
    (if fExec s \<and> opcode \<le> OP_PUSHDATA4 then
       (if fRequireMinimal env \<and> \<not> CheckMinimalPush vchPushValue opcode then Inl SCRIPT_ERR_MINIMALDATA
        else Inr (s\<lparr>stack := vchPushValue # stack s\<rparr>))
     else if fExec s \<or> (OP_IF \<le> opcode \<and> opcode \<le> OP_ENDIF) then exec_op env script pc (fExec s) opcode s
     else Inr s)"

definition eval_step ::
  "script_env \<Rightarrow> CScript \<Rightarrow> CScript \<Rightarrow> opcodetype \<Rightarrow> valtype \<Rightarrow> eval_state \<Rightarrow> ScriptError + eval_state" where
  "eval_step env script pc opcode vchPushValue s =
    (if length vchPushValue > MAX_SCRIPT_ELEMENT_SIZE then Inl SCRIPT_ERR_PUSH_SIZE
     else
       let s1 = (if opcode > OP_16 then s\<lparr>nOpCount := nOpCount s + 1\<rparr> else s)
       in if opcode > OP_16 \<and> nOpCount s1 > 201 then Inl SCRIPT_ERR_OP_COUNT
          else if disabled_opcode opcode then Inl SCRIPT_ERR_DISABLED_OPCODE
          else case dispatch env script pc opcode vchPushValue s1 of
                 Inl e \<Rightarrow> Inl e
               | Inr s2 \<Rightarrow>
                   if length (stack s2) + length (altstack s2) > 1000 then Inl SCRIPT_ERR_STACK_SIZE
                   else Inr s2)"

section \<open>Evaluation\<close>

function eval_loop :: "script_env \<Rightarrow> CScript \<Rightarrow> CScript \<Rightarrow> eval_state \<Rightarrow> ScriptError + valtype list" where
  "eval_loop env script pc s =
    (if pc = [] then
       (if vfExec s \<noteq> [] then Inl SCRIPT_ERR_UNBALANCED_CONDITIONAL else Inr (stack s))
     else case GetOp2 pc of
            (_, None) \<Rightarrow> Inl SCRIPT_ERR_BAD_OPCODE
          | (pc', Some (opcode, vchPushValue)) \<Rightarrow>
              (case eval_step env script pc' opcode vchPushValue s of
                 Inl e \<Rightarrow> Inl e
               | Inr s' \<Rightarrow> eval_loop env script pc' s'))"
  by pat_completeness auto
termination
  by (relation "measure (\<lambda>(env, script, pc, s). length pc)") (auto dest: GetOp2_shrinks [OF sym])

declare eval_loop.simps [simp del]

definition EvalScript :: "script_env \<Rightarrow> valtype list \<Rightarrow> CScript \<Rightarrow> ScriptError + valtype list" where
  "EvalScript env st script =
    (if length script > MAX_SCRIPT_SIZE then Inl SCRIPT_ERR_SCRIPT_SIZE
     else eval_loop env script script
            \<lparr>stack = st, altstack = [], vfExec = [], nOpCount = 0, pbegincodehash = script\<rparr>)"

text \<open>The final test of \<^verbatim>\<open>VerifyScript\<close> on a stack.\<close>

definition stack_true :: "valtype list \<Rightarrow> bool" where
  "stack_true st \<longleftrightarrow> st \<noteq> [] \<and> CastToBool (hd st)"

definition VerifyScript :: "script_env \<Rightarrow> CScript \<Rightarrow> CScript \<Rightarrow> ScriptError" where
  "VerifyScript env scriptSig scriptPubKey =
    (if has_flag env SCRIPT_VERIFY_SIGPUSHONLY \<and> \<not> IsPushOnly scriptSig then SCRIPT_ERR_SIG_PUSHONLY
     else case EvalScript env [] scriptSig of
       Inl e \<Rightarrow> e
     | Inr stackCopy \<Rightarrow>
        (case EvalScript env stackCopy scriptPubKey of
           Inl e \<Rightarrow> e
         | Inr st \<Rightarrow>
             if \<not> stack_true st then SCRIPT_ERR_EVAL_FALSE
             else if has_flag env SCRIPT_VERIFY_P2SH \<and> IsPayToScriptHash scriptPubKey then
               (if \<not> IsPushOnly scriptSig then SCRIPT_ERR_SIG_PUSHONLY
                else case stackCopy of
                  [] \<Rightarrow> SCRIPT_ERR_UNKNOWN_ERROR
                | pubKeySerialized # stackCopy' \<Rightarrow>
                    (case EvalScript env stackCopy' pubKeySerialized of
                       Inl e \<Rightarrow> e
                     | Inr st2 \<Rightarrow> if stack_true st2 then SCRIPT_ERR_OK else SCRIPT_ERR_EVAL_FALSE))
             else SCRIPT_ERR_OK))"

end
