(* ===== verification/Interpreter_Limits.thy ===== *)
theory Interpreter_Limits
  imports Interpreter
begin

text \<open>
  What every evaluation keeps: the size limits of the stacks, the operation counter, and what a script
  that evaluates can contain. A property of one instruction is lifted to \<open>EvalScript\<close> by the locale
  \<open>eval_invariant\<close>.
\<close>

section \<open>Element sizes\<close>

lemma length_serialize_le_9 [length_simps]: "length (serialize n) \<le> 9"
proof -
  have "length (serialize_loop a) \<le> 8" for a
    using unsigned_less [of a, where 'a = nat]
    by (simp add: serialize_loop_nat_le length_nat_le)
  from this [of "word_of_int n"] this [of "NOT (word_of_int n) + 1"] show ?thesis
    by (auto simp: serialize_def Let_def)
qed

definition elems_ok :: "valtype list \<Rightarrow> bool" where
  "elems_ok st \<longleftrightarrow> (\<forall>x \<in> set st. length x \<le> MAX_SCRIPT_ELEMENT_SIZE)"

lemma elems_ok_simps [simp]:
  "elems_ok []"
  "elems_ok (x # st) \<longleftrightarrow> length x \<le> MAX_SCRIPT_ELEMENT_SIZE \<and> elems_ok st"
  "elems_ok (xs @ ys) \<longleftrightarrow> elems_ok xs \<and> elems_ok ys"
  by (auto simp: elems_ok_def)

lemma elems_ok_take_drop [simp]: "elems_ok st \<Longrightarrow> elems_ok (take n st)" "elems_ok st \<Longrightarrow> elems_ok (drop n st)"
  by (auto simp: elems_ok_def dest: in_set_takeD in_set_dropD)

lemma elems_ok_nth: "elems_ok st \<Longrightarrow> i < length st \<Longrightarrow> length (st ! i) \<le> MAX_SCRIPT_ELEMENT_SIZE"
  by (simp add: elems_ok_def)

lemma getvch_ok [simp]: "length (getvch n) \<le> MAX_SCRIPT_ELEMENT_SIZE"
  using length_serialize_le_9 [of n] by (simp add: getvch_def script_limits)

lemma bool_vch_ok [simp]: "length (bool_vch b) \<le> MAX_SCRIPT_ELEMENT_SIZE"
  by (simp add: bool_vch_def script_limits)

definition hashes_ok :: "script_env \<Rightarrow> bool" where
  "hashes_ok env \<longleftrightarrow> (\<forall>v. length (h_RIPEMD160 env v) = 20 \<and> length (h_SHA1 env v) = 20 \<and>
     length (h_SHA256 env v) = 32 \<and> length (h_Hash160 env v) = 20 \<and> length (h_Hash256 env v) = 32)"

lemma op_multi_ok [inv_intros]: "op_multi opcode st = Inr st' \<Longrightarrow> elems_ok st \<Longrightarrow> elems_ok st'"
  by (auto simp: op_multi_def split: if_splits list.splits)

lemma op_single_ok [inv_intros]: "op_single opcode st = Inr st' \<Longrightarrow> elems_ok st \<Longrightarrow> elems_ok st'"
  by (auto simp: op_single_def split: if_splits list.splits)

lemma op_pick_roll_ok [inv_intros]: "op_pick_roll env opcode st = Inr st' \<Longrightarrow> elems_ok st \<Longrightarrow> elems_ok st'"
  using elems_ok_nth [of "tl st"]
  by (auto simp: op_pick_roll_def Let_def simp del: nth_Cons_0 nth_Cons_Suc nth_Cons_numeral
      split: if_splits list.splits sum.splits)

lemma op_rot_swap_tuck_ok [inv_intros]: "op_rot_swap_tuck opcode st = Inr st' \<Longrightarrow> elems_ok st \<Longrightarrow> elems_ok st'"
  by (auto simp: op_rot_swap_tuck_def split: if_splits list.splits)

lemma op_size_ok [inv_intros]: "op_size st = Inr st' \<Longrightarrow> elems_ok st \<Longrightarrow> elems_ok st'"
  by (auto simp: op_size_def split: if_splits list.splits)

lemma op_equal_ok [inv_intros]: "op_equal opcode st = Inr st' \<Longrightarrow> elems_ok st \<Longrightarrow> elems_ok st'"
  by (auto simp: op_equal_def Let_def split: if_splits list.splits)

lemma op_unary_ok [inv_intros]: "op_unary env opcode st = Inr st' \<Longrightarrow> elems_ok st \<Longrightarrow> elems_ok st'"
  by (auto simp: op_unary_def split: if_splits list.splits sum.splits)

lemma op_binary_ok [inv_intros]: "op_binary env opcode st = Inr st' \<Longrightarrow> elems_ok st \<Longrightarrow> elems_ok st'"
  by (auto simp: op_binary_def Let_def split: if_splits list.splits sum.splits)

lemma op_within_ok [inv_intros]: "op_within env st = Inr st' \<Longrightarrow> elems_ok st \<Longrightarrow> elems_ok st'"
  by (auto simp: op_within_def split: if_splits list.splits sum.splits)

lemma op_hash_ok [inv_intros]:
  "op_hash env opcode st = Inr st' \<Longrightarrow> hashes_ok env \<Longrightarrow> elems_ok st \<Longrightarrow> elems_ok st'"
  by (auto simp: op_hash_def hashes_ok_def script_limits split: if_splits list.splits)

definition state_ok :: "eval_state \<Rightarrow> bool" where
  "state_ok s \<longleftrightarrow> elems_ok (stack s) \<and> elems_ok (altstack s)"

lemma on_stack_Inr_iff [res_simps]:
  "on_stack s r = Inr s' \<longleftrightarrow> (\<exists>st'. r = Inr st' \<and> s' = s\<lparr>stack := st'\<rparr>)"
  by (auto simp: on_stack_def res_simps)

lemma op_checksig_ok: "op_checksig env opcode s = Inr s' \<Longrightarrow> state_ok s \<Longrightarrow> state_ok s'"
  by (auto simp: op_checksig_def Let_def state_ok_def split: if_splits list.splits sum.splits option.splits)

lemma op_checkmultisig_frame:
  assumes "op_checkmultisig env opcode s = Inr s'"
  shows "\<exists>n v m. s' = s\<lparr>stack := drop n (stack s), nOpCount := m\<rparr> \<or>
    s' = s\<lparr>stack := bool_vch v # drop n (stack s), nOpCount := m\<rparr>"
proof -
  have d: "r = drop (Suc k) st" if "drop k st = d # r" for k and st r :: "valtype list" and d
    using that by (simp add: drop_Suc flip: tl_drop)
  from assms show ?thesis
    unfolding op_checkmultisig_def Let_def
    by (simp only: res_simps) (fastforce dest: d split: if_splits)
qed

lemma op_checkmultisig_ok: "op_checkmultisig env opcode s = Inr s' \<Longrightarrow> state_ok s \<Longrightarrow> state_ok s'"
  by (drule op_checkmultisig_frame) (auto simp: state_ok_def)

lemma op_control_ok:
  "op_cltv env s = Inr s' \<Longrightarrow> state_ok s \<Longrightarrow> state_ok s'"
  "op_nop_n env s = Inr s' \<Longrightarrow> state_ok s \<Longrightarrow> state_ok s'"
  "op_if f opcode s = Inr s' \<Longrightarrow> state_ok s \<Longrightarrow> state_ok s'"
  "op_else s = Inr s' \<Longrightarrow> state_ok s \<Longrightarrow> state_ok s'"
  "op_endif s = Inr s' \<Longrightarrow> state_ok s \<Longrightarrow> state_ok s'"
  "op_verify s = Inr s' \<Longrightarrow> state_ok s \<Longrightarrow> state_ok s'"
  "op_altstack opcode s = Inr s' \<Longrightarrow> state_ok s \<Longrightarrow> state_ok s'"
  "state_ok s \<Longrightarrow> state_ok (op_pushnum opcode s)"
  by (auto simp: op_cltv_def op_nop_n_def op_if_def op_else_def op_endif_def op_verify_def op_altstack_def
      op_pushnum_def state_ok_def Let_def split: if_splits list.splits sum.splits)

lemmas stack_op_ok = op_multi_ok op_single_ok op_pick_roll_ok op_rot_swap_tuck_ok op_size_ok op_equal_ok
  op_unary_ok op_binary_ok op_within_ok op_hash_ok

lemma exec_op_ok:
  assumes "exec_op env script pc f opcode s = Inr s'" and "hashes_ok env" and "state_ok s"
  shows "state_ok s'"
  using assms unfolding exec_op_def
  by (elim if_InrE)
    (auto simp: res_simps op_pushnum_def state_ok_def
      dest: stack_op_ok op_control_ok op_checksig_ok op_checkmultisig_ok)

lemma exec_op_nOpCount:
  assumes "exec_op env script pc f opcode s = Inr s'" and "nOpCount s \<le> 201"
  shows "nOpCount s' \<le> 201"
proof -
  have ms: "nOpCount s' \<le> 201" if "op_checkmultisig env opcode s = Inr s'"
    using that unfolding op_checkmultisig_def Let_def by (auto simp: res_simps split: if_splits)
  show ?thesis
    using assms unfolding exec_op_def
    by (elim if_InrE)
      (auto simp: res_simps op_pushnum_def op_cltv_def op_nop_n_def op_if_def op_else_def op_endif_def
        op_verify_def op_altstack_def op_checksig_def Let_def split: if_splits list.splits dest: ms)
qed

lemma eval_step_InrE:
  assumes "eval_step env script pc opcode v s = Inr s'"
  obtains s1 where "dispatch env script pc opcode v s1 = Inr s'"
    "s1 = (if opcode > OP_16 then s\<lparr>nOpCount := nOpCount s + 1\<rparr> else s)"
    "length v \<le> MAX_SCRIPT_ELEMENT_SIZE" "\<not> disabled_opcode opcode"
    "opcode > OP_16 \<Longrightarrow> nOpCount s1 \<le> 201" "length (stack s') + length (altstack s') \<le> 1000"
  using assms unfolding eval_step_def Let_def by (auto simp: res_simps not_less split: if_splits)

section \<open>Invariants of the evaluation loop\<close>

lemma eval_loop_Nil [simp]:
  "eval_loop env script [] s =
    (if vfExec s \<noteq> [] then Inl SCRIPT_ERR_UNBALANCED_CONDITIONAL else Inr (stack s))"
  by (simp add: eval_loop.simps)

lemma eval_loop_step:
  assumes "GetOp2 pc = (pc', Some (opcode, v))"
  shows "eval_loop env script pc s =
    (case eval_step env script pc' opcode v s of Inl e \<Rightarrow> Inl e | Inr s' \<Rightarrow> eval_loop env script pc' s')"
  using assms by (subst eval_loop.simps) auto

lemma eval_loop_InrE:
  assumes "eval_loop env script pc s = Inr st" and "pc \<noteq> []"
  obtains pc' opcode v s' where "GetOp2 pc = (pc', Some (opcode, v))"
    "eval_step env script pc' opcode v s = Inr s'" "eval_loop env script pc' s' = Inr st"
  using assms by (subst (asm) eval_loop.simps) (auto simp: res_simps split: prod.splits option.splits)

text \<open>What one instruction keeps, a whole evaluation keeps.\<close>

locale eval_invariant =
  fixes env :: script_env and P :: "eval_state \<Rightarrow> bool"
  assumes step: "eval_step env script pc opcode v s = Inr s' \<Longrightarrow> P s \<Longrightarrow> P s'"
begin

lemma loop: "eval_loop env script pc s = Inr st \<Longrightarrow> P s \<Longrightarrow> \<exists>s'. P s' \<and> vfExec s' = [] \<and> st = stack s'"
proof (induction "length pc" arbitrary: pc s rule: less_induct)
  case less
  show ?case
  proof (cases "pc = []")
    case True
    with less.prems show ?thesis by (auto split: if_splits)
  next
    case False
    with less.prems(1) obtain pc' opcode v s' where st: "GetOp2 pc = (pc', Some (opcode, v))"
      "eval_step env script pc' opcode v s = Inr s'" "eval_loop env script pc' s' = Inr st"
      by (rule eval_loop_InrE)
    from st(2) less.prems(2) have "P s'" by (rule step)
    with st(1,3) show ?thesis by (intro less.hyps) (auto dest: GetOp2_shrinks)
  qed
qed

end

lemma state_ok_update [simp]:
  "state_ok (s\<lparr>nOpCount := n\<rparr>) \<longleftrightarrow> state_ok s"
  "state_ok (s\<lparr>stack := v # stack s\<rparr>) \<longleftrightarrow> length v \<le> MAX_SCRIPT_ELEMENT_SIZE \<and> state_ok s"
  by (auto simp: state_ok_def)

lemma dispatch_ok:
  assumes "dispatch env script pc opcode v s = Inr s'" and "hashes_ok env" and "state_ok s"
    and "length v \<le> MAX_SCRIPT_ELEMENT_SIZE"
  shows "state_ok s'"
  using assms unfolding dispatch_def by (elim if_InrE) (auto intro: exec_op_ok)

lemma dispatch_nOpCount:
  assumes "dispatch env script pc opcode v s = Inr s'" and "nOpCount s \<le> 201"
  shows "nOpCount s' \<le> 201"
  using assms unfolding dispatch_def by (elim if_InrE) (auto intro: exec_op_nOpCount)

interpretation elems: eval_invariant env "\<lambda>s. hashes_ok env \<longrightarrow> state_ok s" for env
  by unfold_locales (auto elim!: eval_step_InrE intro: dispatch_ok split: if_splits)

definition limits_ok :: "eval_state \<Rightarrow> bool" where
  "limits_ok s \<longleftrightarrow> nOpCount s \<le> 201 \<and> length (stack s) + length (altstack s) \<le> 1000"

interpretation limits: eval_invariant env limits_ok for env
  by unfold_locales
    (auto simp: limits_ok_def elim!: eval_step_InrE dest: dispatch_nOpCount split: if_splits)

section \<open>A concrete environment\<close>

text \<open>Constant digests and a checker that accepts a signature equal to the key, for the examples.\<close>

definition const_env :: script_env where
  "const_env =
    \<lparr>h_RIPEMD160 = (\<lambda>_. replicate 20 0), h_SHA1 = (\<lambda>_. replicate 20 1), h_SHA256 = (\<lambda>_. replicate 32 2),
     h_Hash160 = (\<lambda>_. replicate 20 7), h_Hash256 = (\<lambda>_. replicate 32 3), CheckLowS = (\<lambda>_. True),
     flags = SCRIPT_VERIFY_P2SH, sigversion = SIGVERSION_BASE,
     checker = \<lparr>CheckSig = (\<lambda>sg k code v. Some (sg = k)), CheckLockTime = (\<lambda>_. True),
                CheckColdStake = (\<lambda>_. True)\<rparr>\<rparr>"

lemma const_env_hashes [simp]: "hashes_ok const_env"
  by (simp add: hashes_ok_def const_env_def script_limits)

text \<open>
  C20. Whatever a script does, an evaluation that succeeds on a stack within the limits leaves at most
  1000 elements, each of at most 520 bytes.
\<close>

theorem EvalScript_limits:
  assumes "EvalScript env st script = Inr st'" and "elems_ok st" and "length st \<le> 1000" and "hashes_ok env"
  shows "length st' \<le> 1000 \<and> elems_ok st'"
proof -
  let ?s = "\<lparr>stack = st, altstack = [], vfExec = [], nOpCount = 0, pbegincodehash = script\<rparr>"
  have l: "eval_loop env script script ?s = Inr st'"
    using assms(1) by (simp add: EvalScript_def split: if_splits)
  have "limits_ok ?s" and "hashes_ok env \<longrightarrow> state_ok ?s"
    using assms by (auto simp: limits_ok_def state_ok_def)
  with limits.loop [OF l] elems.loop [OF l] show ?thesis
    using assms(4) by (auto simp: limits_ok_def state_ok_def)
qed

lemma EvalScript_limits_witness:
  "EvalScript const_env [] [OP_1, OP_1, OP_ADD] = Inr [[2]] \<and> length [[2 :: byte]] \<le> 1000 \<and> elems_ok [[2]]"
proof -
  have e: "EvalScript const_env [] [OP_1, OP_1, OP_ADD] = Inr [[2]]" by code_simp
  show ?thesis using EvalScript_limits [OF e] e by simp
qed


section \<open>Scripts that cannot be satisfied\<close>

lemma GetOp2_OP_RETURN: "GetOp2 (OP_RETURN # pc) = (pc, Some (OP_RETURN, []))"
  by (simp add: GetOp2_def)

text \<open>
  C22. An output that \<open>IsUnspendable\<close> prunes can indeed never be satisfied: its script fails on every
  stack and in every environment.
\<close>

theorem IsUnspendable_fails:
  assumes "IsUnspendable script"
  shows "\<exists>e. EvalScript env st script = Inl e"
proof (cases "MAX_SCRIPT_SIZE < length script")
  case True
  then show ?thesis by (simp add: EvalScript_def)
next
  case False
  with assms obtain pc where s: "script = OP_RETURN # pc" by (cases script) (auto simp: IsUnspendable_def)
  show ?thesis using False
    by (simp add: EvalScript_def s eval_loop_step [OF GetOp2_OP_RETURN] eval_step_def dispatch_def
        exec_op_def fExec_def disabled_opcode_def script_limits)
qed

lemma IsUnspendable_fails_witness:
  "IsUnspendable [OP_RETURN, 7] \<and> (\<exists>e. EvalScript const_env [] [OP_RETURN, 7] = Inl e)"
proof -
  have u: "IsUnspendable [OP_RETURN, 7]" by (simp add: IsUnspendable_def)
  show ?thesis using IsUnspendable_fails [OF u, of const_env "[]"] u by simp
qed


section \<open>Errors\<close>

lemma if_neqI: "a \<noteq> x \<Longrightarrow> b \<noteq> x \<Longrightarrow> (if c then a else b) \<noteq> x"
  by simp

lemma check_encodings_error [simp]: "check_encodings env sg k \<noteq> Inl SCRIPT_ERR_OK"
  by (auto simp: check_encodings_def CheckSignatureEncoding_def CheckPubKeyEncoding_def IsLowDERSignature_def
      split: if_splits sum.splits)

lemma CScriptNum_ctor_error [simp]: "num4 env v \<noteq> Inl SCRIPT_ERR_OK"
  by (auto simp: num4_def stack_num_def split: sum.splits)

lemma stack_op_error [simp]:
  "op_multi opcode st \<noteq> Inl SCRIPT_ERR_OK" "op_single opcode st \<noteq> Inl SCRIPT_ERR_OK"
  "op_pick_roll env opcode st \<noteq> Inl SCRIPT_ERR_OK" "op_rot_swap_tuck opcode st \<noteq> Inl SCRIPT_ERR_OK"
  "op_size st \<noteq> Inl SCRIPT_ERR_OK" "op_equal opcode st \<noteq> Inl SCRIPT_ERR_OK"
  "op_unary env opcode st \<noteq> Inl SCRIPT_ERR_OK" "op_binary env opcode st \<noteq> Inl SCRIPT_ERR_OK"
  "op_within env st \<noteq> Inl SCRIPT_ERR_OK" "op_hash env opcode st \<noteq> Inl SCRIPT_ERR_OK"
  by (auto simp: op_multi_def op_single_def op_pick_roll_def op_rot_swap_tuck_def op_size_def op_equal_def
      op_unary_def op_binary_def op_within_def op_hash_def Let_def split: if_splits list.splits sum.splits)

lemma multisig_loop_error [simp]: "multisig_loop env code st isig ikey m n \<noteq> Inl SCRIPT_ERR_OK"
proof (induction env code st isig ikey m n rule: multisig_loop.induct)
  case (1 env code st isig ikey m n)
  then show ?case
    by (subst multisig_loop.simps) (auto simp: Let_def split: sum.splits option.splits)
qed

lemma state_op_error [simp]:
  "op_cltv env s \<noteq> Inl SCRIPT_ERR_OK" "op_nop_n env s \<noteq> Inl SCRIPT_ERR_OK"
  "op_if f opcode s \<noteq> Inl SCRIPT_ERR_OK" "op_else s \<noteq> Inl SCRIPT_ERR_OK" "op_endif s \<noteq> Inl SCRIPT_ERR_OK"
  "op_verify s \<noteq> Inl SCRIPT_ERR_OK" "op_altstack opcode s \<noteq> Inl SCRIPT_ERR_OK"
  "op_checksig env opcode s \<noteq> Inl SCRIPT_ERR_OK" "op_checkmultisig env opcode s \<noteq> Inl SCRIPT_ERR_OK"
  by (auto simp: op_cltv_def op_nop_n_def op_if_def op_else_def op_endif_def op_verify_def op_altstack_def
      op_checksig_def op_checkmultisig_def stack_num_def Let_def
      split: if_splits list.splits sum.splits option.splits)

lemma on_stack_error [simp]: "on_stack s r = Inl e \<longleftrightarrow> r = Inl e"
  by (simp add: on_stack_def split: sum.splits)

lemma exec_op_error [simp]: "exec_op env script pc f opcode s \<noteq> Inl SCRIPT_ERR_OK"
  unfolding exec_op_def by (intro if_neqI) simp_all

lemma eval_step_error [simp]: "eval_step env script pc opcode v s \<noteq> Inl SCRIPT_ERR_OK"
proof -
  have "dispatch env script pc opcode v s' \<noteq> Inl SCRIPT_ERR_OK" for s'
    unfolding dispatch_def by (intro if_neqI) simp_all
  then show ?thesis by (auto simp: eval_step_def Let_def split: sum.splits)
qed

lemma eval_loop_error [simp]: "eval_loop env script pc s \<noteq> Inl SCRIPT_ERR_OK"
proof (induction env script pc s rule: eval_loop.induct)
  case (1 env script pc s)
  then show ?case
    by (subst eval_loop.simps) (auto split: sum.splits option.splits prod.splits)
qed

lemma EvalScript_error [simp]: "EvalScript env st script \<noteq> Inl SCRIPT_ERR_OK"
  by (simp add: EvalScript_def)

section \<open>Static limits\<close>

lemma exec_op_nOpCount_mono:
  assumes "exec_op env script pc f opcode s = Inr s'"
  shows "nOpCount s \<le> nOpCount s'"
proof -
  have ms: "nOpCount s \<le> nOpCount s'" if "op_checkmultisig env opcode s = Inr s'"
    using that unfolding op_checkmultisig_def Let_def by (auto simp: res_simps split: if_splits)
  show ?thesis
    using assms unfolding exec_op_def
    by (elim if_InrE)
      (auto simp: res_simps op_pushnum_def op_cltv_def op_nop_n_def op_if_def op_else_def op_endif_def
        op_verify_def op_altstack_def op_checksig_def Let_def split: if_splits list.splits dest: ms)
qed

lemma dispatch_nOpCount_mono:
  "dispatch env script pc opcode v s = Inr s' \<Longrightarrow> nOpCount s \<le> nOpCount s'"
  unfolding dispatch_def by (elim if_InrE) (auto dest: exec_op_nOpCount_mono)

definition counted_ops :: "(opcodetype \<times> valtype) list \<Rightarrow> nat" where
  "counted_ops ops = length (filter (\<lambda>(opcode, v). opcode > OP_16) ops)"

definition op_allowed :: "opcodetype \<times> valtype \<Rightarrow> bool" where
  "op_allowed r \<longleftrightarrow> \<not> disabled_opcode (fst r) \<and> length (snd r) \<le> MAX_SCRIPT_ELEMENT_SIZE"

lemma script_ops_step:
  "GetOp2 pc = (pc', Some r) \<Longrightarrow> script_ops pc = (r # fst (script_ops pc'), snd (script_ops pc'))"
  by (subst script_ops.simps) (simp add: case_prod_beta)

lemma script_ops_Nil [simp]: "script_ops [] = ([], [])"
  by (subst script_ops.simps) (simp add: GetOp2_def)

lemma eval_loop_static:
  assumes "eval_loop env script pc s = Inr st" and "nOpCount s \<le> 201"
  shows "snd (script_ops pc) = [] \<and> list_all op_allowed (fst (script_ops pc)) \<and>
    nOpCount s + counted_ops (fst (script_ops pc)) \<le> 201"
  using assms
proof (induction "length pc" arbitrary: pc s rule: less_induct)
  case less
  show ?case
  proof (cases "pc = []")
    case True
    with less.prems show ?thesis by (simp add: counted_ops_def)
  next
    case False
    with less.prems(1) obtain pc' opcode v s' where st: "GetOp2 pc = (pc', Some (opcode, v))"
      "eval_step env script pc' opcode v s = Inr s'" "eval_loop env script pc' s' = Inr st"
      by (rule eval_loop_InrE)
    from st(2) have s': "nOpCount s' \<le> 201" "op_allowed (opcode, v)"
      "nOpCount s + of_bool (opcode > OP_16) \<le> nOpCount s'"
      using less.prems(2)
      by (auto elim!: eval_step_InrE simp: op_allowed_def dest: dispatch_nOpCount dispatch_nOpCount_mono
          split: if_splits)
    from less.hyps [OF _ st(3) s'(1)] st(1) show ?thesis using s'(2,3)
      by (auto simp: script_ops_step counted_ops_def dest: GetOp2_shrinks)
  qed
qed

text \<open>
  C21. A script that evaluates has at most 10000 bytes, parses to its end, contains no disabled opcode and no
  push of more than 520 bytes, and has at most 201 opcodes above \<open>OP_16\<close>, whether or not they lie in a
  branch that is executed.
\<close>

theorem EvalScript_static_limits:
  assumes "EvalScript env st script = Inr st'"
  shows "length script \<le> MAX_SCRIPT_SIZE \<and> snd (script_ops script) = [] \<and>
    list_all op_allowed (fst (script_ops script)) \<and> counted_ops (fst (script_ops script)) \<le> 201"
  using assms by (auto simp: EvalScript_def dest: eval_loop_static split: if_splits)

lemma EvalScript_static_limits_witness:
  "EvalScript const_env [] [OP_0, OP_IF, OP_NOP, OP_ENDIF] = Inr [] \<and>
   counted_ops (fst (script_ops [OP_0, OP_IF, OP_NOP, OP_ENDIF])) \<le> 201"
proof -
  have e: "EvalScript const_env [] [OP_0, OP_IF, OP_NOP, OP_ENDIF] = Inr []" by code_simp
  show ?thesis using EvalScript_static_limits [OF e] e by simp
qed

end
