(* ===== verification/Interpreter_Spends.thy ===== *)
theory Interpreter_Spends
  imports Interpreter_Limits "HOL-Library.Sublist"
begin

text \<open>
  What \<open>VerifyScript\<close> accepts for the standard output templates of \<^verbatim>\<open>src/script/standard.cpp\<close>
  (\<open>P2PKH\<close>, \<open>P2SH\<close> and \<open>P2CS\<close> are the scripts that file builds), the matching of signatures and keys by
  \<^verbatim>\<open>OP_CHECKMULTISIG\<close>, and the arithmetic of numbers on the stack.
\<close>

section \<open>Pushes\<close>

lemma fExec_simps [simp]:
  "fExec (s\<lparr>stack := st\<rparr>) = fExec s" "fExec (s\<lparr>nOpCount := n\<rparr>) = fExec s"
  "fExec \<lparr>stack = st, altstack = alt, vfExec = vf, nOpCount = n, pbegincodehash = code\<rparr> = (False \<notin> set vf)"
  by (simp_all add: fExec_def)

lemma CheckMinimalPush_push_opcode:
  assumes "2 \<le> length b" and "length b \<le> 65535"
  shows "CheckMinimalPush b (push_opcode b)"
  using assms by (auto simp: CheckMinimalPush_def push_opcode_def unat_small_opcode)

lemma push_opcode_range:
  "opcode \<le> OP_PUSHDATA4 \<Longrightarrow> \<not> OP_16 < opcode" "opcode \<le> OP_PUSHDATA4 \<Longrightarrow> \<not> disabled_opcode opcode"
  by (auto simp: disabled_opcode_def word_le_nat_alt word_less_nat_alt)

lemma eval_loop_push:
  assumes "2 \<le> length b" and "length b \<le> MAX_SCRIPT_ELEMENT_SIZE"
    and "fExec s" and "length (stack s) + length (altstack s) < 1000"
  shows "eval_loop env script (push_data b @ rest) s =
    eval_loop env script rest (s\<lparr>stack := b # stack s\<rparr>)"
proof -
  have le: "push_opcode b \<le> OP_PUSHDATA4" by (rule push_opcode_le)
  then have "\<not> push_opcode b > OP_16" "\<not> disabled_opcode (push_opcode b)"
    by (rule push_opcode_range)+
  moreover have "CheckMinimalPush b (push_opcode b)"
    using assms(1,2) by (intro CheckMinimalPush_push_opcode) (auto simp: script_limits)
  moreover have "length b < 2 ^ 32" using assms(2) by (simp add: script_limits)
  ultimately show ?thesis using assms le
    by (simp add: eval_loop_step [OF GetOp2_push_data] eval_step_def dispatch_def)
qed

section \<open>Pay to public key hash\<close>

definition P2PKH :: "valtype \<Rightarrow> CScript" where
  "P2PKH h = [OP_DUP, OP_HASH160] @ push_data h @ [OP_EQUALVERIFY, OP_CHECKSIG]"

lemma take_nth_segments:
  assumes "length s = a + n + 2" 
  shows "s = take a s @ take n (drop a s) @ [s ! (a + n), s ! (a + n + 1)]"
proof -
  have "drop (a + n) s = [s ! (a + n), s ! (a + n + 1)]"
    using assms by (simp add: Cons_nth_drop_Suc [symmetric])
  then show ?thesis by (metis append_take_drop_id drop_drop add.commute)
qed

lemma IsPayToPublicKeyHash_iff: "IsPayToPublicKeyHash s \<longleftrightarrow> (\<exists>h. length h = 20 \<and> s = P2PKH h)"
proof
  assume "\<exists>h. length h = 20 \<and> s = P2PKH h"
  then show "IsPayToPublicKeyHash s"
    by (auto simp: IsPayToPublicKeyHash_def P2PKH_def push_data_def nth_append)
next
  assume a: "IsPayToPublicKeyHash s"
  define h where "h = take 20 (drop 3 s)"
  have l: "length s = 3 + 20 + 2" using a by (simp add: IsPayToPublicKeyHash_def)
  then have "length h = 20" by (simp add: h_def)
  moreover have "take 3 s = [s ! 0, s ! 1, s ! 2]"
    using l by (simp add: numeral_3_eq_3 numeral_2_eq_2 take_Suc_conv_app_nth)
  ultimately have "s = P2PKH h"
    using take_nth_segments [OF l] a
    by (simp add: IsPayToPublicKeyHash_def P2PKH_def push_data_def h_def)
  with \<open>length h = 20\<close> show "\<exists>h. length h = 20 \<and> s = P2PKH h" by blast
qed

lemma eval_loop_op:
  assumes "opcode > OP_16" and "\<not> disabled_opcode opcode" and "fExec s" and "nOpCount s < 201"
  shows "eval_loop env script (opcode # pc) s =
   (case exec_op env script pc True opcode (s\<lparr>nOpCount := nOpCount s + 1\<rparr>) of
      Inl e \<Rightarrow> Inl e
    | Inr s' \<Rightarrow>
       if length (stack s') + length (altstack s') > 1000 then Inl SCRIPT_ERR_STACK_SIZE
       else eval_loop env script pc s')"
proof -
  have "\<not> opcode \<le> OP_PUSHDATA4" using assms(1) push_opcode_range(1) by blast
  moreover from this have "GetOp2 (opcode # pc) = (pc, Some (opcode, []))" by (simp add: GetOp2_def)
  ultimately show ?thesis using assms
    by (simp add: eval_loop_step eval_step_def dispatch_def Let_def script_limits split: sum.splits)
qed

lemma P2PKH_eval:
  assumes h: "length h = 20" and st: "length st \<le> 996"
  shows "EvalScript env (pk # sig # st) (P2PKH h) =
    (if h_Hash160 env pk \<noteq> h then Inl SCRIPT_ERR_EQUALVERIFY
     else case check_encodings env sig pk of
       Inl e \<Rightarrow> Inl e
     | Inr _ \<Rightarrow>
       (case CheckSig (checker env) sig pk (fst (FindAndDelete (P2PKH h) (push_data sig))) (sigversion env) of
          None \<Rightarrow> Inl SCRIPT_ERR_UNKNOWN_ERROR
        | Some b \<Rightarrow> Inr (bool_vch b # st)))"
proof -
  let ?sc = "P2PKH h"
  define s where "s st' n = \<lparr>stack = st', altstack = [], vfExec = [], nOpCount = n, pbegincodehash = ?sc\<rparr>" for st' n
  have dup: "eval_loop env ?sc (OP_DUP # pc) (s (pk # sig # st) 0) = eval_loop env ?sc pc (s (pk # pk # sig # st) (Suc 0))" for pc
    using st by (simp add: eval_loop_op disabled_opcode_def s_def exec_op_def on_stack_def op_single_def)
  have hash: "eval_loop env ?sc (OP_HASH160 # pc) (s (pk # pk # sig # st) (Suc 0)) =
      eval_loop env ?sc pc (s (h_Hash160 env pk # pk # sig # st) (Suc (Suc 0)))" for pc
    using st by (simp add: eval_loop_op disabled_opcode_def s_def exec_op_def on_stack_def op_hash_def)
  have push: "eval_loop env ?sc (push_data h @ pc) (s (h_Hash160 env pk # pk # sig # st) (Suc (Suc 0))) =
     eval_loop env ?sc pc (s (h # h_Hash160 env pk # pk # sig # st) (Suc (Suc 0)))" for pc
    using st h by (subst eval_loop_push) (auto simp: s_def script_limits)
  have eq: "eval_loop env ?sc (OP_EQUALVERIFY # pc) (s (h # h_Hash160 env pk # pk # sig # st) (Suc (Suc 0))) =
    (if h_Hash160 env pk \<noteq> h then Inl SCRIPT_ERR_EQUALVERIFY else eval_loop env ?sc pc (s (pk # sig # st) (Suc (Suc (Suc 0)))))" for pc
    using st by (simp add: eval_loop_op disabled_opcode_def s_def exec_op_def on_stack_def op_equal_def)
  have sig: "eval_loop env ?sc [OP_CHECKSIG] (s (pk # sig # st) (Suc (Suc (Suc 0)))) =
     (case check_encodings env sig pk of
       Inl e \<Rightarrow> Inl e
     | Inr _ \<Rightarrow>
       (case CheckSig (checker env) sig pk (fst (FindAndDelete (P2PKH h) (push_data sig))) (sigversion env) of
          None \<Rightarrow> Inl SCRIPT_ERR_UNKNOWN_ERROR
        | Some b \<Rightarrow> Inr (bool_vch b # st)))"
    using st by (auto simp: eval_loop_op disabled_opcode_def s_def exec_op_def op_checksig_def Let_def
       split: sum.splits option.splits)
  have "length ?sc \<le> MAX_SCRIPT_SIZE" using h by (simp add: P2PKH_def push_data_def script_limits)
  then have "EvalScript env (pk # sig # st) ?sc = eval_loop env ?sc ?sc (s (pk # sig # st) 0)"
    by (simp add: EvalScript_def s_def)
  also have "\<dots> = eval_loop env ?sc (OP_DUP # OP_HASH160 # push_data h @ [OP_EQUALVERIFY, OP_CHECKSIG]) (s (pk # sig # st) 0)"
    by (simp add: P2PKH_def)
  finally show ?thesis by (simp only: dup hash push eq sig)
qed

lemma IsPushOnly_Nil [simp]: "IsPushOnly []"
  by (subst IsPushOnly.simps) simp

lemma IsPushOnly_push_data:
  assumes "length b < 2 ^ 32"
  shows "IsPushOnly (push_data b @ rest) \<longleftrightarrow> IsPushOnly rest"
proof -
  have "push_data b \<noteq> []" by (simp add: push_data_def)
  then show ?thesis using push_opcode_range(1) [OF push_opcode_le [of b]]
    by (subst IsPushOnly.simps) (simp add: GetOp2_push_data [OF assms])
qed

lemma bool_vch_true [simp]: "CastToBool (bool_vch b) = b"
  by (simp add: bool_vch_def)

lemma EvalScript_two_pushes:
  assumes "2 \<le> length a" "length a \<le> MAX_SCRIPT_ELEMENT_SIZE"
    and "2 \<le> length b" "length b \<le> MAX_SCRIPT_ELEMENT_SIZE"
  shows "EvalScript env [] (push_data a @ push_data b) = Inr [b, a]"
proof -
  have "length (push_data x) \<le> length x + 5" for x
    by (simp add: push_data_def WriteLE16_def WriteLE32_def)
  from this [of a] this [of b] have "length (push_data a @ push_data b) \<le> MAX_SCRIPT_SIZE"
    using assms by (simp add: script_limits)
  then show ?thesis using assms eval_loop_push [of b, where rest = "[]"]
    by (simp add: EvalScript_def eval_loop_push)
qed

text \<open>
  C1. Pay to public key hash: an unlocking script of a signature and a key is accepted exactly when the key
  has the committed hash, both encodings are allowed by the flags, and the checker accepts the signature
  over the locking script.
\<close>

theorem VerifyScript_P2PKH:
  assumes "length h = 20"
    and "2 \<le> length sig" "length sig \<le> MAX_SCRIPT_ELEMENT_SIZE"
    and "2 \<le> length pk" "length pk \<le> MAX_SCRIPT_ELEMENT_SIZE"
  shows "VerifyScript env (push_data sig @ push_data pk) (P2PKH h) = SCRIPT_ERR_OK \<longleftrightarrow>
    h_Hash160 env pk = h \<and> check_encodings env sig pk = Inr () \<and>
    CheckSig (checker env) sig pk (fst (FindAndDelete (P2PKH h) (push_data sig))) (sigversion env) = Some True"
proof -
  have "length pk < 2 ^ 32" "length sig < 2 ^ 32" using assms by (auto simp: script_limits)
  then have "IsPushOnly (push_data sig @ push_data pk)"
    using IsPushOnly_push_data [of pk "[]"] by (simp add: IsPushOnly_push_data)
  moreover have "\<not> IsPayToScriptHash (P2PKH h)"
    using assms(1) by (simp add: IsPayToScriptHash_def P2PKH_def push_data_def)
  ultimately show ?thesis using assms
    by (auto simp: VerifyScript_def EvalScript_two_pushes P2PKH_eval stack_true_def
        split: sum.splits option.splits)
qed

lemma VerifyScript_P2PKH_witness:
  "VerifyScript const_env (push_data [1, 1] @ push_data [1, 1]) (P2PKH (replicate 20 7)) = SCRIPT_ERR_OK"
  using VerifyScript_P2PKH [of "replicate 20 7" "[1, 1]" "[1, 1]" const_env]
  by (simp add: const_env_def check_encodings_def CheckSignatureEncoding_def CheckPubKeyEncoding_def
      has_flag_def script_limits)


section \<open>Multiple signatures\<close>

fun multisig_match :: "(valtype \<Rightarrow> valtype \<Rightarrow> bool) \<Rightarrow> valtype list \<Rightarrow> valtype list \<Rightarrow> bool" where
  "multisig_match c [] keys = True"
| "multisig_match c (sg # sigs) [] = False"
| "multisig_match c (sg # sigs) (k # keys) =
    (if c sg k then multisig_match c sigs keys else multisig_match c (sg # sigs) keys)"

lemma multisig_match_length: "multisig_match c sigs keys \<Longrightarrow> length sigs \<le> length keys"
  by (induction c sigs keys rule: multisig_match.induct) (auto split: if_splits)

lemma multisig_match_iff:
  "multisig_match c sigs keys \<longleftrightarrow> (\<exists>ks. subseq ks keys \<and> list_all2 c sigs ks)"
proof (induction c sigs keys rule: multisig_match.induct)
  case (1 c keys)
  show ?case by (auto intro: exI [of _ "[]"])
next
  case (2 c sg sigs)
  show ?case by (auto simp: list_all2_Cons1)
next
  case (3 c sg sigs k keys)
  show ?case
  proof (cases "c sg k")
    case True
    have "(\<exists>ks. subseq ks keys \<and> list_all2 c sigs ks) \<longleftrightarrow>
      (\<exists>ks. subseq ks (k # keys) \<and> list_all2 c (sg # sigs) ks)"
    proof (intro iffI; elim exE conjE)
      fix ks assume "subseq ks keys" "list_all2 c sigs ks"
      with True show "\<exists>ks. subseq ks (k # keys) \<and> list_all2 c (sg # sigs) ks"
        by (intro exI [of _ "k # ks"]) simp
    next
      fix ks assume s: "subseq ks (k # keys)" and l: "list_all2 c (sg # sigs) ks"
      then obtain k1 ks1 where ks: "ks = k1 # ks1" "list_all2 c sigs ks1" by (auto simp: list_all2_Cons1)
      with s have "subseq ks1 keys" by (auto simp: subseq_Cons2_iff split: if_splits dest: subseq_Cons')
      with ks show "\<exists>ks. subseq ks keys \<and> list_all2 c sigs ks" by blast
    qed
    with 3 True show ?thesis by simp
  next
    case False
    have "(\<exists>ks. subseq ks keys \<and> list_all2 c (sg # sigs) ks) \<longleftrightarrow>
      (\<exists>ks. subseq ks (k # keys) \<and> list_all2 c (sg # sigs) ks)"
      using False by (auto simp: list_all2_Cons1 subseq_Cons2_iff split: if_splits)
    with 3 False show ?thesis by simp
  qed
qed

text \<open>
  The greedy loop of \<^verbatim>\<open>OP_CHECKMULTISIG\<close>, with every encoding accepted, succeeds exactly when
  the signatures can be matched with keys in order.
\<close>

lemma multisig_loop_match:
  assumes "\<And>sg k. sg \<in> set (take nSigs (drop (isig - 1) st)) \<Longrightarrow> k \<in> set (take nKeys (drop (ikey - 1) st)) \<Longrightarrow>
      check_encodings env sg k = Inr () \<and> CheckSig (checker env) sg k code (sigversion env) = Some (c sg k)"
    and "nSigs \<le> nKeys" "1 \<le> isig" "1 \<le> ikey"
    "isig - 1 + nSigs \<le> length st" "ikey - 1 + nKeys \<le> length st"
  shows "multisig_loop env code st isig ikey (int nSigs) (int nKeys) =
    Inr (multisig_match c (take nSigs (drop (isig - 1) st)) (take nKeys (drop (ikey - 1) st)))"
  using assms
proof (induction nKeys arbitrary: nSigs isig ikey)
  case 0
  then show ?case by (simp add: multisig_loop.simps)
next
  case (Suc n)
  note prems = Suc.prems(2-)
  show ?case
  proof (cases nSigs)
    case 0
    then show ?thesis by (simp add: multisig_loop.simps)
  next
    case (Suc m)
    let ?sg = "st ! (isig - Suc 0)" and ?k = "st ! (ikey - Suc 0)"
    have sg: "take (Suc m) (drop (isig - Suc 0) st) = ?sg # take m (drop isig st)"
      using prems Suc by (simp add: Cons_nth_drop_Suc [symmetric])
    have k: "take (Suc n) (drop (ikey - Suc 0) st) = ?k # take n (drop ikey st)"
      using prems by (simp add: Cons_nth_drop_Suc [symmetric])
    note ok = Suc.prems(1) [unfolded Suc One_nat_def sg k]
    have hd: "check_encodings env ?sg ?k = Inr ()" "CheckSig (checker env) ?sg ?k code (sigversion env) = Some (c ?sg ?k)"
      using ok by simp_all
    show ?thesis
    proof (cases "c ?sg ?k")
      case True
      then show ?thesis using Suc.IH [of m "isig + 1" "ikey + 1"] prems ok
        by (subst multisig_loop.simps) (simp add: hd sg k Suc)
    next
      case False
      show ?thesis
      proof (cases "Suc m \<le> n")
        case True
        then show ?thesis using Suc.IH [of "Suc m" isig "ikey + 1"] prems ok False
          by (subst multisig_loop.simps) (simp add: hd sg k Suc)
      next
        case nle: False
        have "length (take n (drop ikey st)) < length (?sg # take m (drop isig st))"
          using nle prems Suc by simp
        then have "\<not> multisig_match c (?sg # take m (drop isig st)) (take n (drop ikey st))"
          using multisig_match_length not_le by blast
        with nle False show ?thesis
          by (subst multisig_loop.simps) (simp add: hd sg k Suc)
      qed
    qed
  qed
qed

section \<open>Pay to script hash\<close>

definition P2SH :: "valtype \<Rightarrow> CScript" where
  "P2SH h = OP_HASH160 # push_data h @ [OP_EQUAL]"

lemma IsPayToScriptHash_P2SH: "length h = 20 \<Longrightarrow> IsPayToScriptHash (P2SH h)"
  by (simp add: IsPayToScriptHash_def P2SH_def push_data_def nth_append)

lemma EvalScript_P2SH:
  assumes h: "length h = 20" and st: "length st \<le> 997"
  shows "EvalScript env (v # st) (P2SH h) = Inr (bool_vch (h_Hash160 env v = h) # st)"
proof -
  let ?sc = "P2SH h"
  define s where "s st' n = \<lparr>stack = st', altstack = [], vfExec = [], nOpCount = n, pbegincodehash = ?sc\<rparr>" for st' n
  have hash: "eval_loop env ?sc (OP_HASH160 # pc) (s (v # st) 0) = eval_loop env ?sc pc (s (h_Hash160 env v # st) (Suc 0))" for pc
    using st by (simp add: eval_loop_op disabled_opcode_def s_def exec_op_def on_stack_def op_hash_def)
  have push: "eval_loop env ?sc (push_data h @ pc) (s (h_Hash160 env v # st) (Suc 0)) =
     eval_loop env ?sc pc (s (h # h_Hash160 env v # st) (Suc 0))" for pc
    using st h by (subst eval_loop_push) (auto simp: s_def script_limits)
  have eq: "eval_loop env ?sc [OP_EQUAL] (s (h # h_Hash160 env v # st) (Suc 0)) =
    Inr (bool_vch (h_Hash160 env v = h) # st)"
    using st by (simp add: eval_loop_op disabled_opcode_def s_def exec_op_def on_stack_def op_equal_def)
  have "length ?sc \<le> MAX_SCRIPT_SIZE" using h by (simp add: P2SH_def push_data_def script_limits)
  then have "EvalScript env (v # st) ?sc =
      eval_loop env ?sc (OP_HASH160 # push_data h @ [OP_EQUAL]) (s (v # st) 0)"
    by (simp add: EvalScript_def s_def) (simp add: P2SH_def)
  then show ?thesis by (simp only: hash push eq)
qed

lemma EvalScript_P2SH_empty:
  "length h = 20 \<Longrightarrow> EvalScript env [] (P2SH h) = Inl SCRIPT_ERR_INVALID_STACK_OPERATION"
  by (simp add: EvalScript_def P2SH_def push_data_def script_limits eval_loop_op disabled_opcode_def exec_op_def
      on_stack_def op_hash_def)

text \<open>
  C2. Pay to script hash: with the P2SH rule on, a spend is accepted exactly when the unlocking script is
  push-only, its last element has the committed hash, and that element, run as a script on the rest of
  the stack, leaves a true value.
\<close>

theorem VerifyScript_P2SH:
  assumes "length h = 20" and "has_flag env SCRIPT_VERIFY_P2SH"
    and "EvalScript env [] scriptSig = Inr (redeem # args)" and "length args \<le> 997"
  shows "VerifyScript env scriptSig (P2SH h) = SCRIPT_ERR_OK \<longleftrightarrow>
    IsPushOnly scriptSig \<and> h_Hash160 env redeem = h \<and>
    (\<exists>st. EvalScript env args redeem = Inr st \<and> stack_true st)"
  using assms by (auto simp: VerifyScript_def EvalScript_P2SH IsPayToScriptHash_P2SH stack_true_def split: sum.splits)

lemma VerifyScript_P2SH_witness:
  "VerifyScript const_env [1, OP_1] (P2SH (replicate 20 7)) = SCRIPT_ERR_OK"
proof -
  have e: "EvalScript const_env [] [1, OP_1] = Inr [[OP_1]]" "EvalScript const_env [] [OP_1] = Inr [[1]]"
    "IsPushOnly [1, OP_1]" "stack_true [[1]]"
    by code_simp+
  show ?thesis using VerifyScript_P2SH [of "replicate 20 7" const_env "[1, OP_1]" "[OP_1]" "[]"] e
    by (simp add: const_env_def has_flag_def)
qed


lemma VerifyScript_P2SH_empty:
  assumes "length h = 20" and "EvalScript env [] scriptSig = Inr []"
  shows "VerifyScript env scriptSig (P2SH h) \<in> {SCRIPT_ERR_SIG_PUSHONLY, SCRIPT_ERR_INVALID_STACK_OPERATION}"
  using assms by (auto simp: VerifyScript_def EvalScript_P2SH_empty)

section \<open>Numbers\<close>

lemma serialize_minimal:
  assumes "- (2 ^ 63) < n" and "n < 2 ^ 63"
  shows "CScriptNum_minimal (serialize n)"
proof (cases "n = 0")
  case True
  then show ?thesis by (simp add: serialize_def CScriptNum_minimal_def)
next
  case False
  let ?r = "nat_le (nat \<bar>n\<bar>)"
  have r: "?r \<noteq> []" "unat (last ?r) \<noteq> 0" using False last_nat_le [of "nat \<bar>n\<bar>"] by (auto simp: unat_eq_0)
  have bl: "?r = butlast ?r @ [last ?r]" using r by simp
  from assms False show ?thesis
  proof (cases rule: serialize_cases [of n])
    case extend
    then show ?thesis using r by (simp add: minimal_snoc)
  next
    case negative
    then show ?thesis using r by (simp add: minimal_snoc byte_or_80)
  next
    case positive
    then show ?thesis using r by (subst positive, subst bl) (simp only: minimal_snoc, simp)
  qed
qed

lemma CScriptNum_ctor_serialize:
  assumes "\<bar>n\<bar> < 2 ^ (8 * k - 1)" and "0 < k" and "k \<le> 8"
  shows "CScriptNum_ctor (serialize n) req k = Inr n"
proof -
  have "(2::int) ^ (8 * k - 1) \<le> 2 ^ 63" using assms by (intro power_increasing) auto
  then have "- (2 ^ 63) < n" "n < 2 ^ 63" using assms(1) by linarith+
  then show ?thesis using length_serialize [OF assms]
    by (simp add: CScriptNum_ctor_def serialize_minimal set_vch_serialize)
qed

lemma num4_getvch: "\<bar>n\<bar> < 2 ^ 31 \<Longrightarrow> num4 env (getvch n) = Inr n"
  using CScriptNum_ctor_serialize [of n 4]
  by (simp add: num4_def stack_num_def getvch_def nDefaultMaxNumSize_def)
text \<open>
  C23. Numbers on the stack: encoding a number of up to \<open>k\<close> bytes and reading it back gives the number, and
  a byte string that is read under the minimal-encoding rule is the encoding of the number read.
\<close>

theorem CScriptNum_stack_roundtrip:
  assumes "0 < k" and "k \<le> 8"
  shows "(\<bar>n\<bar> < 2 ^ (8 * k - 1) \<longrightarrow> CScriptNum_ctor (getvch n) True k = Inr n) \<and>
    (CScriptNum_ctor vch True k = Inr m \<longrightarrow> \<bar>m\<bar> < 2 ^ (8 * k - 1) \<and> getvch m = vch)"
  using assms CScriptNum_ctor_serialize [of n k True] serialize_set_vch [of vch] set_vch_range [of vch k]
  by (auto simp: getvch_def CScriptNum_ctor_def split: if_splits)

lemma CScriptNum_stack_roundtrip_witness:
  "CScriptNum_ctor (getvch (- 1000)) True 4 = Inr (- 1000) \<and> getvch (- 1000) = [0xe8, 0x83]"
proof -
  have e: "CScriptNum_ctor [0xe8, 0x83] True 4 = Inr (- 1000)" by code_simp
  show ?thesis using CScriptNum_stack_roundtrip [of 4 "- 1000" "[0xe8, 0x83]" "- 1000"] e by simp
qed


lemma num4_range: "num4 env v = Inr n \<Longrightarrow> \<bar>n\<bar> < 2 ^ 31"
  using set_vch_range [of v 4]
  by (auto simp: num4_def stack_num_def CScriptNum_ctor_def nDefaultMaxNumSize_def split: if_splits)
text \<open>
  Arithmetic on operands read from the stack never violates an assertion of \<open>CScriptNum\<close>, and the
  unary opcodes compute the exact result.
\<close>

theorem unary_num_defined:
  assumes "num4 env v = Inr bn"
  shows "ScriptNum_add bn 1 \<noteq> None \<and> ScriptNum_sub bn 1 \<noteq> None \<and> ScriptNum_neg bn \<noteq> None \<and>
    unary_num OP_1ADD bn = bn + 1 \<and> unary_num OP_1SUB bn = bn - 1 \<and>
    unary_num OP_NEGATE bn = - bn \<and> unary_num OP_ABS bn = \<bar>bn\<bar>"
  using num4_range [OF assms] by (auto simp: ScriptNum_add_def ScriptNum_sub_def ScriptNum_neg_def unary_num_def)

lemma unary_num_defined_witness:
  "num4 const_env [0xff, 0xff, 0xff, 0x7f] = Inr 2147483647 \<and> unary_num OP_1ADD 2147483647 = 2147483648"
proof -
  have e: "num4 const_env [0xff, 0xff, 0xff, 0x7f] = Inr 2147483647" by code_simp
  show ?thesis using unary_num_defined [OF e] e by simp
qed

text \<open>
  C19. \<open>OP_CHECKMULTISIG\<close> pushes true exactly when the signatures can be assigned to distinct keys in the
  order of the keys, so the greedy loop with its early exit loses no valid assignment.
\<close>

theorem op_checkmultisig_matching:
  assumes st: "stack s = getvch (int (length keys)) # keys @ getvch (int (length sigs)) # sigs @ dummy # r"
    and len: "length sigs \<le> length keys" "length keys \<le> 20" "nOpCount s + length keys \<le> 201"
    and dummy: "has_flag env SCRIPT_VERIFY_NULLDUMMY \<Longrightarrow> dummy = []"
    and code: "code = fold (\<lambda>sg c. fst (FindAndDelete c (push_data sg))) sigs (pbegincodehash s)"
    and sig: "\<And>sg k. sg \<in> set sigs \<Longrightarrow> k \<in> set keys \<Longrightarrow>
      check_encodings env sg k = Inr () \<and> CheckSig (checker env) sg k code (sigversion env) = Some (c sg k)"
  shows "op_checkmultisig env OP_CHECKMULTISIG s =
    Inr (s\<lparr>stack := bool_vch (\<exists>ks. subseq ks keys \<and> list_all2 c sigs ks) # r,
          nOpCount := nOpCount s + length keys\<rparr>)"
proof -
  let ?st = "stack s" and ?n = "length keys" and ?m = "length sigs"
  have n: "num4 env (?st ! 0) = Inr (int ?n)" "num4 env (?st ! (1 + ?n)) = Inr (int ?m)"
    using len by (simp_all add: st num4_getvch nth_append)
  have dr: "drop (3 + ?n + ?m - 1) ?st = dummy # r" by (simp add: st)
  have c: "multisig_script_code (pbegincodehash s) ?st (3 + ?n) ?m = code"
  proof -
    have "map (\<lambda>k. ?st ! (3 + ?n + k - 1)) [0..<?m] = sigs"
      by (rule nth_equalityI) (auto simp: st nth_append)
    then have "fold (\<lambda>sg c. fst (FindAndDelete c (push_data sg))) (map (\<lambda>k. ?st ! (3 + ?n + k - 1)) [0..<?m]) (pbegincodehash s) = code"
      by (simp only: code)
    then show ?thesis by (simp only: multisig_script_code_def fold_map comp_def)
  qed
  have "multisig_loop env code ?st (3 + ?n) 2 (int ?m) (int ?n) =
      Inr (multisig_match c (take ?m (drop (3 + ?n - 1) ?st)) (take ?n (drop (2 - 1) ?st)))"
    using len by (intro multisig_loop_match) (simp_all add: sig st)
  then have l: "multisig_loop env code ?st (3 + ?n) 2 (int ?m) (int ?n) =
      Inr (\<exists>ks. subseq ks keys \<and> list_all2 c sigs ks)"
    by (simp add: st multisig_match_iff)
  show ?thesis
    using len dummy n c l dr unfolding op_checkmultisig_def Let_def
    by (simp add: getint_def script_limits st)
qed

definition multisig_state :: eval_state where
  "multisig_state = \<lparr>stack = [[2], [2, 2], [3, 3], [1], [3, 3], []], altstack = [], vfExec = [],
     nOpCount = 1, pbegincodehash = [OP_CHECKMULTISIG]\<rparr>"

lemma op_checkmultisig_matching_witness:
  "op_checkmultisig const_env OP_CHECKMULTISIG multisig_state =
    Inr (multisig_state\<lparr>stack := [bool_vch (\<exists>ks. subseq ks [[2, 2], [3, 3]] \<and> list_all2 (=) [[3, 3 :: byte]] ks)],
      nOpCount := 3\<rparr>)"
proof -
  have "getvch 2 = [2]" "getvch 1 = [1]" by code_simp+
  then show ?thesis
    using op_checkmultisig_matching [of multisig_state "[[2, 2], [3, 3]]" "[[3, 3]]" "[]" "[]" const_env _ "(=)", OF _ _ _ _ _ refl]
    by (simp add: multisig_state_def const_env_def has_flag_def check_encodings_def CheckSignatureEncoding_def
        CheckPubKeyEncoding_def)
qed
section \<open>Cold staking\<close>

definition P2CS :: "valtype \<Rightarrow> valtype \<Rightarrow> CScript" where
  "P2CS stakingKey spendingKey =
    OP_DUP # OP_HASH160 # OP_ROT # OP_IF # OP_CHECKCOLDSTAKEVERIFY # push_data stakingKey @
    OP_ELSE # push_data spendingKey @ [OP_ENDIF, OP_EQUALVERIFY, OP_CHECKSIG]"

lemma IsPayToColdStaking_P2CS:
  "length k1 = 20 \<Longrightarrow> length k2 = 20 \<Longrightarrow> IsPayToColdStaking (P2CS k1 k2)"
  by (simp add: IsPayToColdStaking_def P2CS_def push_data_def nth_append)

text \<open>Outside the executed branch a push has no effect and an opcode is only counted.\<close>

lemma eval_loop_skip_push:
  assumes "length b \<le> MAX_SCRIPT_ELEMENT_SIZE"
    and "\<not> fExec s" and "length (stack s) + length (altstack s) \<le> 1000"
  shows "eval_loop env script (push_data b @ rest) s = eval_loop env script rest s"
proof -
  have le: "push_opcode b \<le> OP_PUSHDATA4" by (rule push_opcode_le)
  then have "\<not> push_opcode b > OP_16" "\<not> disabled_opcode (push_opcode b)"
    by (rule push_opcode_range)+
  moreover have "\<not> OP_IF \<le> push_opcode b" using le by (simp add: word_le_nat_alt)
  moreover have "length b < 2 ^ 32" using assms(1) by (simp add: script_limits)
  ultimately show ?thesis using assms le
    by (simp add: eval_loop_step [OF GetOp2_push_data] eval_step_def dispatch_def)
qed

lemma eval_loop_skip_op:
  assumes "opcode > OP_16" and "\<not> disabled_opcode opcode" and "\<not> fExec s" and "nOpCount s < 201"
    and "\<not> (OP_IF \<le> opcode \<and> opcode \<le> OP_ENDIF)" "length (stack s) + length (altstack s) \<le> 1000"
  shows "eval_loop env script (opcode # pc) s = eval_loop env script pc (s\<lparr>nOpCount := nOpCount s + 1\<rparr>)"
proof -
  have "\<not> opcode \<le> OP_PUSHDATA4" using assms(1) push_opcode_range(1) by blast
  moreover from this have "GetOp2 (opcode # pc) = (pc, Some (opcode, []))" by (simp add: GetOp2_def)
  ultimately show ?thesis using assms
    by (auto simp: eval_loop_step eval_step_def dispatch_def Let_def script_limits)
qed

lemma eval_loop_cond:
  assumes "OP_IF \<le> opcode \<and> opcode \<le> OP_ENDIF" and "nOpCount s < 201"
    and "\<not> disabled_opcode opcode"
  shows "eval_loop env script (opcode # pc) s =
   (case exec_op env script pc (fExec s) opcode (s\<lparr>nOpCount := nOpCount s + 1\<rparr>) of
      Inl e \<Rightarrow> Inl e
    | Inr s' \<Rightarrow>
       if length (stack s') + length (altstack s') > 1000 then Inl SCRIPT_ERR_STACK_SIZE
       else eval_loop env script pc s')"
proof -
  have "OP_16 < opcode" "\<not> opcode \<le> OP_PUSHDATA4" using assms(1) by (auto simp: word_le_nat_alt word_less_nat_alt)
  moreover from this have "GetOp2 (opcode # pc) = (pc, Some (opcode, []))" by (simp add: GetOp2_def)
  ultimately show ?thesis using assms
    by (simp add: eval_loop_step eval_step_def dispatch_def Let_def script_limits split: sum.splits)
qed

lemmas op_simps = eval_loop_op eval_loop_cond disabled_opcode_def exec_op_def on_stack_def op_single_def
  op_hash_def op_rot_swap_tuck_def op_if_def op_else_def op_endif_def op_equal_def

text \<open>The part of the script after the branches.\<close>

lemma eval_loop_equalverify_checksig:
  assumes "length st \<le> 900" "n \<le> 100"
  shows "eval_loop env sc [OP_EQUALVERIFY, OP_CHECKSIG]
      \<lparr>stack = h # h' # pk # sig # st, altstack = [], vfExec = [], nOpCount = n, pbegincodehash = code\<rparr> =
    (if h' \<noteq> h then Inl SCRIPT_ERR_EQUALVERIFY
     else case check_encodings env sig pk of
       Inl e \<Rightarrow> Inl e
     | Inr _ \<Rightarrow>
       (case CheckSig (checker env) sig pk (fst (FindAndDelete code (push_data sig))) (sigversion env) of
          None \<Rightarrow> Inl SCRIPT_ERR_UNKNOWN_ERROR
        | Some b \<Rightarrow> Inr (bool_vch b # st)))"
  using assms by (auto simp: op_simps op_checksig_def Let_def split: sum.splits option.splits)

lemma P2CS_eval:
  assumes k: "length k1 = 20" "length k2 = 20" and st: "length st \<le> 900"
  shows "EvalScript env (pk # flag # sig # st) (P2CS k1 k2) =
    (if CastToBool flag \<and> \<not> CheckColdStake (checker env) (P2CS k1 k2) then Inl SCRIPT_ERR_CHECKCOLDSTAKEVERIFY
     else if h_Hash160 env pk \<noteq> (if CastToBool flag then k1 else k2) then Inl SCRIPT_ERR_EQUALVERIFY
     else case check_encodings env sig pk of
       Inl e \<Rightarrow> Inl e
     | Inr _ \<Rightarrow>
       (case CheckSig (checker env) sig pk (fst (FindAndDelete (P2CS k1 k2) (push_data sig))) (sigversion env) of
          None \<Rightarrow> Inl SCRIPT_ERR_UNKNOWN_ERROR
        | Some b \<Rightarrow> Inr (bool_vch b # st)))"
proof -
  let ?sc = "P2CS k1 k2" and ?h = "h_Hash160 env pk"
  define s where "s st' vf n = \<lparr>stack = st', altstack = [], vfExec = vf, nOpCount = n, pbegincodehash = ?sc\<rparr>" for st' vf n
  have start: "eval_loop env ?sc (OP_DUP # OP_HASH160 # OP_ROT # OP_IF # pc) (s (pk # flag # sig # st) [] 0) =
     eval_loop env ?sc pc (s (?h # pk # sig # st) [CastToBool flag] (Suc (Suc (Suc (Suc 0)))))" for pc
    using st by (simp add: s_def op_simps Let_def)
  have else_ [simp]: "eval_loop env ?sc (OP_ELSE # pc) (s st' [b] n) = eval_loop env ?sc pc (s st' [\<not> b] (Suc n))"
    if "n < 100" "length st' \<le> 1000" for pc st' b n
    using that by (simp add: s_def op_simps)
  have endif [simp]: "eval_loop env ?sc (OP_ENDIF # pc) (s st' [b] n) = eval_loop env ?sc pc (s st' [] (Suc n))"
    if "n < 100" "length st' \<le> 1000" for pc st' b n
    using that by (simp add: s_def op_simps)
  have "length ?sc \<le> MAX_SCRIPT_SIZE" using k by (simp add: P2CS_def push_data_def script_limits)
  then have "EvalScript env (pk # flag # sig # st) ?sc =
     eval_loop env ?sc (OP_DUP # OP_HASH160 # OP_ROT # OP_IF # OP_CHECKCOLDSTAKEVERIFY # push_data k1 @
       OP_ELSE # push_data k2 @ [OP_ENDIF, OP_EQUALVERIFY, OP_CHECKSIG]) (s (pk # flag # sig # st) [] 0)"
    by (simp add: EvalScript_def s_def) (simp add: P2CS_def)
  also have "\<dots> = eval_loop env ?sc (OP_CHECKCOLDSTAKEVERIFY # push_data k1 @
       OP_ELSE # push_data k2 @ [OP_ENDIF, OP_EQUALVERIFY, OP_CHECKSIG])
       (s (?h # pk # sig # st) [CastToBool flag] (Suc (Suc (Suc (Suc 0)))))"
    by (rule start)
  finally have e: "EvalScript env (pk # flag # sig # st) ?sc = \<dots>" .
  show ?thesis
  proof (cases "CastToBool flag")
    case True
    have cold: "eval_loop env ?sc (OP_CHECKCOLDSTAKEVERIFY # pc) (s (?h # pk # sig # st) [True] n) =
      (if CheckColdStake (checker env) ?sc then eval_loop env ?sc pc (s (?h # pk # sig # st) [True] (Suc n))
       else Inl SCRIPT_ERR_CHECKCOLDSTAKEVERIFY)" if "n < 100" for pc n
      using that st by (simp add: s_def op_simps)
    have push: "eval_loop env ?sc (push_data k1 @ pc) (s (?h # pk # sig # st) [True] n) =
      eval_loop env ?sc pc (s (k1 # ?h # pk # sig # st) [True] n)" for pc n
      using st k by (subst eval_loop_push) (auto simp: s_def script_limits)
    have skip: "eval_loop env ?sc (push_data k2 @ pc) (s st' [False] n) = eval_loop env ?sc pc (s st' [False] n)"
      if "length st' \<le> 1000" for pc n st'
      using that k by (subst eval_loop_skip_push) (auto simp: s_def script_limits)
    show ?thesis unfolding e using True st k
      by (simp add: cold push skip) (simp add: s_def eval_loop_equalverify_checksig cong: if_cong)
  next
    case False
    have cold: "eval_loop env ?sc (OP_CHECKCOLDSTAKEVERIFY # pc) (s st' [False] n) =
      eval_loop env ?sc pc (s st' [False] (Suc n))" if "n < 100" "length st' \<le> 1000" for pc n st'
      using that st by (subst eval_loop_skip_op) (simp_all add: s_def disabled_opcode_def)
    have push: "eval_loop env ?sc (push_data k2 @ pc) (s (?h # pk # sig # st) [True] n) =
      eval_loop env ?sc pc (s (k2 # ?h # pk # sig # st) [True] n)" for pc n
      using st k by (subst eval_loop_push) (auto simp: s_def script_limits)
    have skip: "eval_loop env ?sc (push_data k1 @ pc) (s st' [False] n) = eval_loop env ?sc pc (s st' [False] n)"
      if "length st' \<le> 1000" for pc n st'
      using that k by (subst eval_loop_skip_push) (auto simp: s_def script_limits)
    show ?thesis unfolding e using False st k
      by (simp add: cold push skip) (simp add: s_def eval_loop_equalverify_checksig cong: if_cong)
  qed
qed
text \<open>
  C3. Cold staking: a pay-to-cold-staking output is spent either by the staking key, and then only in a
  transaction the checker accepts as a cold stake, or by the spending key, with a valid signature of the
  key chosen.
\<close>

theorem VerifyScript_P2CS:
  assumes "length k1 = 20" and "length k2 = 20"
    and "EvalScript env [] scriptSig = Inr (pk # flag # sig # st)" and "length st \<le> 900"
    and "IsPushOnly scriptSig"
  shows "VerifyScript env scriptSig (P2CS k1 k2) = SCRIPT_ERR_OK \<longleftrightarrow>
    (CastToBool flag \<longrightarrow> CheckColdStake (checker env) (P2CS k1 k2)) \<and>
    h_Hash160 env pk = (if CastToBool flag then k1 else k2) \<and> check_encodings env sig pk = Inr () \<and>
    CheckSig (checker env) sig pk (fst (FindAndDelete (P2CS k1 k2) (push_data sig))) (sigversion env) = Some True"
proof -
  have "\<not> IsPayToScriptHash (P2CS k1 k2)"
    using assms(1,2) by (simp add: IsPayToScriptHash_def P2CS_def push_data_def)
  then show ?thesis using assms
    by (auto simp: VerifyScript_def P2CS_eval stack_true_def split: sum.splits option.splits)
qed

lemma VerifyScript_P2CS_witness:
  "VerifyScript const_env (push_data [1, 1] @ [OP_1] @ push_data [1, 1]) (P2CS (replicate 20 7) (replicate 20 8))
    = SCRIPT_ERR_OK"
proof -
  let ?sig = "push_data [1, 1] @ [OP_1] @ push_data [1, 1]"
  have e: "EvalScript const_env [] ?sig = Inr [[1, 1], [1], [1, 1]]" "IsPushOnly ?sig" "CastToBool [1]"
    by code_simp+
  show ?thesis
    using VerifyScript_P2CS [of "replicate 20 7" "replicate 20 8" const_env ?sig "[1, 1]" "[1]" "[1, 1]" "[]"] e
    by (simp add: const_env_def check_encodings_def CheckSignatureEncoding_def CheckPubKeyEncoding_def has_flag_def)
qed

end
