(* ===== verification/Serialize.thy ===== *)
theory Serialize
  imports Prelude
begin

text \<open>
  The wire format of \<^verbatim>\<open>src/serialize.h\<close>. A stream that is written to is the byte list written; a
  reader takes the bytes left in the stream and gives a value with the bytes after it, or the
  exception (\<^verbatim>\<open>std::ios_base::failure\<close>) of the source. The locale \<open>codec\<close> is the contract of a
  serializable type (what is written is read back), \<open>canonical_codec\<close> adds that nothing else is read as
  that value; both are interpreted on the formats below and on those of the other theories.
\<close>

section \<open>Streams\<close>

datatype ser_error = EndOfData | NonCanonicalCompactSize | CompactSizeTooLarge | VarIntTooLarge
  | StringTooLong | IgnoreNegative | PubKeySizeAssertion | TooManyInputUndoRecords

type_synonym 'a reader = "byte list \<Rightarrow> ser_error + 'a \<times> byte list"

definition stream_read :: "nat \<Rightarrow> byte list reader" where
  "stream_read k s = (if length s < k then Inl EndOfData else Inr (take k s, drop k s))"

definition read_then :: "'a reader \<Rightarrow> ('a \<Rightarrow> 'b reader) \<Rightarrow> 'b reader" where
  "read_then r f s = (case r s of Inl e \<Rightarrow> Inl e | Inr (x, s') \<Rightarrow> f x s')"

definition read_return :: "'a \<Rightarrow> 'a reader" where
  "read_return x s = Inr (x, s)"

section \<open>Integers\<close>

definition ser_writedata8 :: "nat \<Rightarrow> byte list" where "ser_writedata8 obj = le_bytes 1 obj"
definition ser_writedata16 :: "nat \<Rightarrow> byte list" where "ser_writedata16 obj = le_bytes 2 obj"
definition ser_writedata32 :: "nat \<Rightarrow> byte list" where "ser_writedata32 obj = le_bytes 4 obj"
definition ser_writedata64 :: "nat \<Rightarrow> byte list" where "ser_writedata64 obj = le_bytes 8 obj"

definition read_le :: "nat \<Rightarrow> nat reader" where
  "read_le k = read_then (stream_read k) (\<lambda>bs. read_return (le_nat bs))"

definition ser_readdata8 :: "nat reader" where "ser_readdata8 = read_le 1"
definition ser_readdata16 :: "nat reader" where "ser_readdata16 = read_le 2"
definition ser_readdata32 :: "nat reader" where "ser_readdata32 = read_le 4"
definition ser_readdata64 :: "nat reader" where "ser_readdata64 = read_le 8"

text \<open>The signed types: the bytes of the two's complement.\<close>

definition ser_int16 :: "int \<Rightarrow> byte list" where
  "ser_int16 a = ser_writedata16 (unat (word_of_int a :: 16 word))"
definition ser_int32 :: "int \<Rightarrow> byte list" where
  "ser_int32 a = ser_writedata32 (unat (word_of_int a :: 32 word))"
definition ser_int64 :: "int \<Rightarrow> byte list" where
  "ser_int64 a = ser_writedata64 (unat (word_of_int a :: 64 word))"
definition unser_int16 :: "int reader" where
  "unser_int16 = read_then ser_readdata16 (\<lambda>x. read_return (sint (word_of_nat x :: 16 word)))"
definition unser_int32 :: "int reader" where
  "unser_int32 = read_then ser_readdata32 (\<lambda>x. read_return (sint (word_of_nat x :: 32 word)))"
definition unser_int64 :: "int reader" where
  "unser_int64 = read_then ser_readdata64 (\<lambda>x. read_return (sint (word_of_nat x :: 64 word)))"

definition ser_uint32 :: "uint32 \<Rightarrow> byte list" where "ser_uint32 a = ser_writedata32 (unat a)"
definition unser_uint32 :: "uint32 reader" where
  "unser_uint32 = read_then ser_readdata32 (\<lambda>x. read_return (word_of_nat x))"
definition ser_uint64 :: "uint64 \<Rightarrow> byte list" where "ser_uint64 a = ser_writedata64 (unat a)"
definition unser_uint64 :: "uint64 reader" where
  "unser_uint64 = read_then ser_readdata64 (\<lambda>x. read_return (word_of_nat x))"

definition ser_bool :: "bool \<Rightarrow> byte list" where "ser_bool a = ser_writedata8 (of_bool a)"
definition unser_bool :: "bool reader" where
  "unser_bool = read_then ser_readdata8 (\<lambda>x. read_return (x \<noteq> 0))"

text \<open>A 256-bit blob is its 32 bytes, the lowest first.\<close>

definition ser_uint256 :: "uint256 \<Rightarrow> byte list" where "ser_uint256 a = le_bytes 32 (unat a)"
definition unser_uint256 :: "uint256 reader" where
  "unser_uint256 = read_then (stream_read 32) (\<lambda>bs. read_return (word_of_nat (le_nat bs)))"

section \<open>Compact sizes\<close>

definition MAX_SIZE :: nat where "MAX_SIZE = 0x02000000"

definition GetSizeOfCompactSize :: "nat \<Rightarrow> nat" where
  "GetSizeOfCompactSize nSize =
    (if nSize < 253 then 1
     else if nSize \<le> 0xffff then 1 + 2
     else if nSize \<le> 0xffffffff then 1 + 4
     else 1 + 8)"

definition WriteCompactSize :: "nat \<Rightarrow> byte list" where
  "WriteCompactSize nSize =
    (if nSize < 253 then ser_writedata8 nSize
     else if nSize \<le> 0xffff then ser_writedata8 253 @ ser_writedata16 nSize
     else if nSize \<le> 0xffffffff then ser_writedata8 254 @ ser_writedata32 nSize
     else ser_writedata8 255 @ ser_writedata64 nSize)"

definition ReadCompactSize_wide :: "nat reader \<Rightarrow> nat \<Rightarrow> nat reader" where
  "ReadCompactSize_wide r least =
    read_then r (\<lambda>nSizeRet s. if nSizeRet < least then Inl NonCanonicalCompactSize else Inr (nSizeRet, s))"

definition ReadCompactSize :: "nat reader" where
  "ReadCompactSize =
    read_then
      (read_then ser_readdata8
        (\<lambda>chSize. if chSize < 253 then read_return chSize
                  else if chSize = 253 then ReadCompactSize_wide ser_readdata16 253
                  else if chSize = 254 then ReadCompactSize_wide ser_readdata32 0x10000
                  else ReadCompactSize_wide ser_readdata64 0x100000000))
      (\<lambda>nSizeRet s. if nSizeRet > MAX_SIZE then Inl CompactSizeTooLarge else Inr (nSizeRet, s))"

section \<open>Variable-length integers\<close>

function GetSizeOfVarInt :: "'a::len word \<Rightarrow> nat" where
  "GetSizeOfVarInt n = (if n \<le> 0x7f then 1 else 1 + GetSizeOfVarInt (drop_bit 7 n - 1))"
  by pat_completeness auto

text \<open>The array \<^verbatim>\<open>tmp\<close> is filled from the last byte of the output to the first.\<close>

function WriteVarInt_loop :: "'a::len word \<Rightarrow> bool \<Rightarrow> byte list \<Rightarrow> byte list" where
  "WriteVarInt_loop n more tmp =
    (let tmp' = (ucast (n AND 0x7f) OR (if more then 0x80 else 0)) # tmp
     in if n \<le> 0x7f then tmp' else WriteVarInt_loop (drop_bit 7 n - 1) True tmp')"
  by pat_completeness auto

text \<open>Both loops end: \<^verbatim>\<open>(n >> 7) - 1\<close> is smaller than \<open>n\<close> where \<open>n\<close> exceeds \<^verbatim>\<open>0x7F\<close>.\<close>

lemma unat_varint_next:
  fixes n :: "'a::len word"
  assumes "\<not> n \<le> 0x7f"
  shows "unat (drop_bit 7 n - 1) = unat n div 128 - 1" and "128 \<le> unat n" and "7 < LENGTH('a)"
proof -
  have len: "7 < LENGTH('a)"
  proof (rule ccontr)
    assume "\<not> 7 < LENGTH('a)"
    then have "(2::nat) ^ LENGTH('a) \<le> 2 ^ 7" by (intro power_increasing) auto
    then have "(2::nat) ^ LENGTH('a) \<le> 128" by simp
    with unsigned_less [of n, where 'a = nat] have "unat n \<le> 127" by linarith
    moreover have "unat (0x7f :: 'a word) = 127 mod 2 ^ LENGTH('a)" by (metis unat_numeral)
    moreover have "(127::nat) mod 2 ^ LENGTH('a) = 2 ^ LENGTH('a) - 1"
    proof -
      have "LENGTH('a) \<noteq> 0" by simp
      with \<open>\<not> 7 < LENGTH('a)\<close> have "LENGTH('a) = 1 \<or> LENGTH('a) = 2 \<or> LENGTH('a) = 3 \<or> LENGTH('a) = 4 \<or>
        LENGTH('a) = 5 \<or> LENGTH('a) = 6 \<or> LENGTH('a) = 7" by arith
      then show ?thesis by (elim disjE) simp_all
    qed
    ultimately have "unat n \<le> unat (0x7f :: 'a word)" using unsigned_less [of n, where 'a = nat] by linarith
    with assms show False by (simp add: word_le_nat_alt)
  qed
  then have "(2::nat) ^ 8 \<le> 2 ^ LENGTH('a)" by (intro power_increasing) auto
  then have "unat (0x7f :: 'a word) = 127" by (simp add: unat_numeral take_bit_nat_eq_self)
  with assms show ge: "128 \<le> unat n" by (simp add: word_le_nat_alt)
  have d: "unat (drop_bit 7 n) = unat n div 128" using unat_drop_bit_eq [of 7 n] by (simp add: drop_bit_eq_div)
  then have "1 \<le> unat (drop_bit 7 n)" using ge by (metis div_le_mono div_self zero_neq_numeral)
  then have "unat (1 :: 'a word) \<le> unat (drop_bit 7 n)" by simp
  then have "unat (drop_bit 7 n - 1) = unat (drop_bit 7 n) - 1"
    by (metis unat_1 unat_sub word_le_nat_alt)
  with d show "unat (drop_bit 7 n - 1) = unat n div 128 - 1" by simp
  show "7 < LENGTH('a)" by (rule len)
qed

lemma varint_next_less: "\<not> (n :: 'a::len word) \<le> 0x7f \<Longrightarrow> unat (drop_bit 7 n - 1) < unat n"
proof -
  assume n: "\<not> n \<le> 0x7f"
  have "unat n div 128 \<le> unat n" by (rule div_le_dividend)
  with unat_varint_next(1,2) [OF n] show ?thesis by linarith
qed

termination GetSizeOfVarInt
  by (relation "measure unat") (auto simp: varint_next_less)

termination WriteVarInt_loop
  by (relation "measure (\<lambda>(n, more, tmp). unat n)") (auto simp: varint_next_less)

declare GetSizeOfVarInt.simps [simp del] WriteVarInt_loop.simps [simp del]

definition WriteVarInt :: "'a::len word \<Rightarrow> byte list" where
  "WriteVarInt n = WriteVarInt_loop n False []"

fun ReadVarInt_loop :: "'a::len word \<Rightarrow> 'a word reader" where
  "ReadVarInt_loop n [] = Inl EndOfData"
| "ReadVarInt_loop n (chData # s) =
    (if n > drop_bit 7 (- 1) then Inl VarIntTooLarge
     else
       let n' = push_bit 7 n OR ucast (chData AND 0x7f)
       in if chData AND 0x80 \<noteq> 0 then
            (if n' = - 1 then Inl VarIntTooLarge else ReadVarInt_loop (n' + 1) s)
          else Inr (n', s))"

definition ReadVarInt :: "'a::len word reader" where
  "ReadVarInt = ReadVarInt_loop 0"

section \<open>Byte vectors and strings\<close>

definition ser_bytes :: "byte list \<Rightarrow> byte list" where
  "ser_bytes v = WriteCompactSize (length v) @ v"

text \<open>The reader asks the stream for blocks of at most 5000000 bytes.\<close>

function unser_bytes_loop :: "nat \<Rightarrow> byte list reader" where
  "unser_bytes_loop left s =
    (if left = 0 then Inr ([], s)
     else let blk = min left 5000000
          in case stream_read blk s of
               Inl e \<Rightarrow> Inl e
             | Inr (bs, s') \<Rightarrow>
                 (case unser_bytes_loop (left - blk) s' of Inl e \<Rightarrow> Inl e | Inr (v, s'') \<Rightarrow> Inr (bs @ v, s'')))"
  by pat_completeness auto
termination
  by (relation "measure fst") auto

declare unser_bytes_loop.simps [simp del]

definition unser_bytes :: "byte list reader" where
  "unser_bytes = read_then ReadCompactSize unser_bytes_loop"

definition unser_limited :: "nat \<Rightarrow> byte list reader" where
  "unser_limited limit =
    read_then ReadCompactSize (\<lambda>size s. if size > limit then Inl StringTooLong else stream_read size s)"

section \<open>Vectors, options, pairs\<close>

definition ser_vector :: "('a \<Rightarrow> byte list) \<Rightarrow> 'a list \<Rightarrow> byte list" where
  "ser_vector ser v = WriteCompactSize (length v) @ concat (map ser v)"

fun unser_vector_loop :: "'a reader \<Rightarrow> nat \<Rightarrow> 'a list reader" where
  "unser_vector_loop unser 0 s = Inr ([], s)"
| "unser_vector_loop unser (Suc k) s =
    (case unser s of
       Inl e \<Rightarrow> Inl e
     | Inr (x, s') \<Rightarrow> (case unser_vector_loop unser k s' of Inl e \<Rightarrow> Inl e | Inr (xs, s'') \<Rightarrow> Inr (x # xs, s'')))"

definition unser_vector :: "'a reader \<Rightarrow> 'a list reader" where
  "unser_vector unser = read_then ReadCompactSize (unser_vector_loop unser)"

definition ser_option :: "('a \<Rightarrow> byte list) \<Rightarrow> 'a option \<Rightarrow> byte list" where
  "ser_option ser item =
    (case item of Some x \<Rightarrow> ser_writedata8 1 @ ser x | None \<Rightarrow> ser_writedata8 0)"

definition unser_option :: "'a reader \<Rightarrow> 'a option reader" where
  "unser_option unser =
    read_then ser_readdata8
      (\<lambda>discriminant. if discriminant = 0 then read_return None
                      else read_then unser (\<lambda>x. read_return (Some x)))"

definition ser_pair :: "('a \<Rightarrow> byte list) \<Rightarrow> ('b \<Rightarrow> byte list) \<Rightarrow> 'a \<times> 'b \<Rightarrow> byte list" where
  "ser_pair ser1 ser2 item = ser1 (fst item) @ ser2 (snd item)"

definition unser_pair :: "'a reader \<Rightarrow> 'b reader \<Rightarrow> ('a \<times> 'b) reader" where
  "unser_pair unser1 unser2 =
    read_then unser1 (\<lambda>x. read_then unser2 (\<lambda>y. read_return (x, y)))"

section \<open>The contract of a serializable type\<close>

locale codec =
  fixes ser :: "'a \<Rightarrow> byte list" and unser :: "'a reader" and ok :: "'a \<Rightarrow> bool"
  assumes roundtrip: "ok x \<Longrightarrow> unser (ser x @ rest) = Inr (x, rest)"
begin

lemma read_then_ser: "ok x \<Longrightarrow> read_then unser f (ser x @ rest) = f x rest"
  by (simp add: read_then_def roundtrip)

lemma read_then_ser_nil: "ok x \<Longrightarrow> read_then unser f (ser x) = f x []"
  using read_then_ser [of x f "[]"] by simp

text \<open>No encoding is a proper prefix of another: streams of values split in one way only.\<close>

lemma prefix_free:
  assumes "ok x" and "ok y" and "ser x @ r = ser y @ r'"
  shows "x = y \<and> r = r'"
proof -
  have "unser (ser x @ r) = unser (ser y @ r')" by (simp only: assms(3))
  then show ?thesis by (simp only: roundtrip [OF assms(1)] roundtrip [OF assms(2)] sum.inject prod.inject)
qed

lemma inj: "inj_on ser {x. ok x}"
  using prefix_free [where r = "[]" and r' = "[]"] by (intro inj_onI) simp

lemma vector_loop: "list_all ok xs \<Longrightarrow> unser_vector_loop unser (length xs) (concat (map ser xs) @ rest) = Inr (xs, rest)"
  by (induction xs) (auto simp: roundtrip)

lemma option_roundtrip: "pred_option ok x \<Longrightarrow> unser_option unser (ser_option ser x @ rest) = Inr (x, rest)"
  by (cases x)
    (simp_all add: unser_option_def ser_option_def ser_readdata8_def ser_writedata8_def read_le_def read_then_def
      read_return_def stream_read_def roundtrip)

end

locale canonical_codec = codec +
  assumes ok: "unser s = Inr (x, rest) \<Longrightarrow> ok x"
    and canonical: "unser s = Inr (x, rest) \<Longrightarrow> s = ser x @ rest"
begin

lemma unser_iff: "unser s = Inr (x, rest) \<longleftrightarrow> ok x \<and> s = ser x @ rest"
  using ok canonical roundtrip by blast

lemma vector_loop_canonical:
  "unser_vector_loop unser k s = Inr (xs, rest) \<Longrightarrow> length xs = k \<and> list_all ok xs \<and> s = concat (map ser xs) @ rest"
proof (induction k arbitrary: s xs)
  case 0
  then show ?case by simp
next
  case (Suc k)
  then obtain x s' xs' where "unser s = Inr (x, s')" "unser_vector_loop unser k s' = Inr (xs', rest)" "xs = x # xs'"
    by (auto split: sum.splits)
  with Suc.IH [of s' xs'] ok canonical show ?case by fastforce
qed

end

section \<open>Integers are codecs\<close>

lemma stream_read_append [simp]: "length bs = k \<Longrightarrow> stream_read k (bs @ rest) = Inr (bs, rest)"
  by (auto simp: stream_read_def)

lemma stream_read_iff: "stream_read k s = Inr (bs, rest) \<longleftrightarrow> length bs = k \<and> s = bs @ rest"
  by (auto simp: stream_read_def append_take_drop_id split: if_splits)

lemma read_then_Inr_iff [res_simps]:
  "read_then r f s = Inr (y, rest) \<longleftrightarrow> (\<exists>x s'. r s = Inr (x, s') \<and> f x s' = Inr (y, rest))"
  by (auto simp: read_then_def split: sum.splits prod.splits)

lemma read_return_iff [simp]: "read_return x s = Inr (y, rest) \<longleftrightarrow> y = x \<and> rest = s"
  by (auto simp: read_return_def)

lemma read_le_append [codec_simps]: "n < 256 ^ k \<Longrightarrow> read_le k (le_bytes k n @ rest) = Inr (n, rest)"
  by (simp add: read_le_def read_then_def read_return_def le_nat_le_bytes)

lemma read_le_iff: "read_le k s = Inr (n, rest) \<longleftrightarrow> n < 256 ^ k \<and> s = le_bytes k n @ rest"
proof
  assume "read_le k s = Inr (n, rest)"
  then obtain bs where "length bs = k" "s = bs @ rest" "n = le_nat bs"
    by (auto simp: read_le_def res_simps stream_read_iff)
  then show "n < 256 ^ k \<and> s = le_bytes k n @ rest" using le_nat_less [of bs] by (auto simp: le_bytes_le_nat)
qed (auto simp: codec_simps)

lemma canonical_codec_word:
  fixes ser :: "'a::len word \<Rightarrow> byte list"
  assumes "LENGTH('a) = 8 * k" and "\<And>a. ser a = le_bytes k (unat a)"
    and "unser = read_then (read_le k) (\<lambda>x. read_return (word_of_nat x))"
  shows "canonical_codec ser unser (\<lambda>_. True)"
proof
  have p: "(2::nat) ^ LENGTH('a) = 256 ^ k" using assms(1) by (simp add: power_mult)
  have lt: "unat a < 256 ^ k" for a :: "'a word" using unsigned_less [of a, where 'a = nat] p by simp
  show "unser (ser x @ rest) = Inr (x, rest)" for x rest
    using lt [of x] by (simp add: assms(2,3) read_then_def read_le_append)
  show "s = ser x @ rest" if "unser s = Inr (x, rest)" for s x rest
    using that p by (auto simp: assms(2,3) res_simps read_le_iff unat_of_nat)
qed simp

text \<open>The values of a signed type of \<open>w\<close> bits.\<close>

definition int_ok :: "nat \<Rightarrow> int \<Rightarrow> bool" where
  "int_ok w a \<longleftrightarrow> - (2 ^ (w - 1)) \<le> a \<and> a < 2 ^ (w - 1)"

lemma canonical_codec_int:
  assumes "LENGTH('a::len) = 8 * k" and "\<And>a. ser a = le_bytes k (unat (word_of_int a :: 'a word))"
    and "unser = read_then (read_le k) (\<lambda>x. read_return (sint (word_of_nat x :: 'a word)))"
  shows "canonical_codec ser unser (int_ok LENGTH('a))"
proof
  have p: "(2::nat) ^ LENGTH('a) = 256 ^ k" using assms(1) by (simp add: power_mult)
  have lt: "unat a < 256 ^ k" for a :: "'a word" using unsigned_less [of a, where 'a = nat] p by simp
  show "unser (ser x @ rest) = Inr (x, rest)" if "int_ok LENGTH('a) x" for x rest
    using lt [of "word_of_int x"] that
    by (simp add: assms(2,3) read_then_def read_le_append int_ok_def sint_sbintrunc' signed_take_bit_int_eq_self)
  show "int_ok LENGTH('a) x" if "unser s = Inr (x, rest)" for s x rest
    using that sint_greater_eq sint_less by (auto simp: assms(3) res_simps int_ok_def)
  show "s = ser x @ rest" if "unser s = Inr (x, rest)" for s x rest
    using that p by (auto simp: assms(2,3) res_simps read_le_iff unat_of_nat)
qed

interpretation c_int16: canonical_codec ser_int16 unser_int16 "int_ok 16"
  using canonical_codec_int [where 'a = 16 and k = 2 and ser = ser_int16 and unser = unser_int16]
  by (simp add: ser_int16_def unser_int16_def ser_writedata16_def ser_readdata16_def)

interpretation c_int32: canonical_codec ser_int32 unser_int32 "int_ok 32"
  using canonical_codec_int [where 'a = 32 and k = 4 and ser = ser_int32 and unser = unser_int32]
  by (simp add: ser_int32_def unser_int32_def ser_writedata32_def ser_readdata32_def)

interpretation c_int64: canonical_codec ser_int64 unser_int64 "int_ok 64"
  using canonical_codec_int [where 'a = 64 and k = 8 and ser = ser_int64 and unser = unser_int64]
  by (simp add: ser_int64_def unser_int64_def ser_writedata64_def ser_readdata64_def)

interpretation c_uint32: canonical_codec ser_uint32 unser_uint32 "\<lambda>_. True"
  by (rule canonical_codec_word [where k = 4])
    (simp_all add: ser_uint32_def unser_uint32_def ser_writedata32_def ser_readdata32_def)

interpretation c_uint64: canonical_codec ser_uint64 unser_uint64 "\<lambda>_. True"
  by (rule canonical_codec_word [where k = 8])
    (simp_all add: ser_uint64_def unser_uint64_def ser_writedata64_def ser_readdata64_def)

interpretation c_uint256: canonical_codec ser_uint256 unser_uint256 "\<lambda>_. True"
  by (rule canonical_codec_word [where k = 32])
    (simp_all add: ser_uint256_def unser_uint256_def read_le_def read_then_def read_return_def fun_eq_iff split: sum.splits)

section \<open>Compact sizes are canonical\<close>

lemma ser_data_defs:
  "ser_writedata8 = le_bytes 1" "ser_writedata16 = le_bytes 2" "ser_writedata32 = le_bytes 4"
  "ser_writedata64 = le_bytes 8" "ser_readdata8 = read_le 1" "ser_readdata16 = read_le 2"
  "ser_readdata32 = read_le 4" "ser_readdata64 = read_le 8"
  by (simp_all add: fun_eq_iff ser_writedata8_def ser_writedata16_def ser_writedata32_def ser_writedata64_def
      ser_readdata8_def ser_readdata16_def ser_readdata32_def ser_readdata64_def)

lemma ReadCompactSize_wide_iff:
  "ReadCompactSize_wide (read_le k) least s = Inr (n, rest) \<longleftrightarrow>
    least \<le> n \<and> n < 256 ^ k \<and> s = le_bytes k n @ rest"
  by (auto simp: ReadCompactSize_wide_def res_simps read_le_iff)

interpretation c_size: canonical_codec WriteCompactSize ReadCompactSize "\<lambda>n. n \<le> MAX_SIZE"
proof
  fix n rest assume n: "n \<le> MAX_SIZE"
  have 1: "read_le 1 (le_bytes 1 m @ s) = Inr (m, s)" if "m < 256" for m s
    using that by (intro read_le_append) simp
  have wide: "ReadCompactSize_wide (read_le k) l (le_bytes k n @ rest) = Inr (n, rest)" if "l \<le> n" "n < 256 ^ k" for k l
    using that by (simp add: ReadCompactSize_wide_iff)
  consider "n < 253" | "253 \<le> n" "n \<le> 0xffff" | "0xffff < n" by linarith
  then show "ReadCompactSize (WriteCompactSize n @ rest) = Inr (n, rest)"
    using n
    by cases (simp_all add: ReadCompactSize_def WriteCompactSize_def ser_data_defs read_then_def 1 wide MAX_SIZE_def
        read_return_def del: le_bytes.simps One_nat_def)
next
  fix s n rest assume "ReadCompactSize s = Inr (n, rest)"
  then show "n \<le> MAX_SIZE" "s = WriteCompactSize n @ rest"
    by (auto simp: ReadCompactSize_def res_simps WriteCompactSize_def ser_data_defs read_le_iff ReadCompactSize_wide_iff
        MAX_SIZE_def simp del: le_bytes.simps One_nat_def split: if_splits)
qed

lemma length_WriteCompactSize: "length (WriteCompactSize n) = GetSizeOfCompactSize n"
  by (simp add: WriteCompactSize_def GetSizeOfCompactSize_def ser_data_defs)

section \<open>Variable-length integers are canonical\<close>

text \<open>The digits before the last one, and the whole encoding, as functions of a natural number.\<close>

fun varint_hi :: "nat \<Rightarrow> byte list" where
  "varint_hi n =
    (if n \<le> 127 then [word_of_nat (n + 128)]
     else varint_hi (n div 128 - 1) @ [word_of_nat (n mod 128 + 128)])"

declare varint_hi.simps [simp del]

definition varint_enc :: "nat \<Rightarrow> byte list" where
  "varint_enc n =
    (if n \<le> 127 then [word_of_nat n] else varint_hi (n div 128 - 1) @ [word_of_nat (n mod 128)])"

locale varint_width =
  fixes w :: "'a::len itself"
  assumes width: "8 \<le> LENGTH('a)"
begin

lemma le_7f_iff: "n \<le> (0x7f :: 'a word) \<longleftrightarrow> unat n \<le> 127"
proof -
  have "(2::nat) ^ 8 \<le> 2 ^ LENGTH('a)" using width by (intro power_increasing) auto
  then have "unat (0x7f :: 'a word) = 127" by (simp add: unat_numeral take_bit_nat_eq_self)
  then show ?thesis by (simp add: word_le_nat_alt)
qed

lemma digit: "ucast (n AND (0x7f :: 'a word)) = (word_of_nat (unat n mod 128) :: byte)"
proof -
  have "n AND 0x7f = take_bit 7 n" by (simp add: take_bit_eq_mask mask_eq_exp_minus_1)
  then have "unat (n AND 0x7f) = take_bit 7 (unat n)" by (simp only: unsigned_take_bit_eq)
  then have "unat (n AND 0x7f) = unat n mod 128" by (simp add: take_bit_eq_mod)
  moreover have "ucast (n AND 0x7f) = (word_of_nat (unat (n AND 0x7f)) :: byte)" by simp
  ultimately show ?thesis by (simp only:)
qed

lemma digit_more: "ucast (n AND (0x7f :: 'a word)) OR 0x80 = (word_of_nat (unat n mod 128 + 128) :: byte)"
proof -
  have "unat (word_of_nat (unat n mod 128) :: byte) = unat n mod 128"
    by (simp add: unat_of_nat_byte mod_mod_cancel)
  then have "unat ((word_of_nat (unat n mod 128) :: byte) OR 0x80) = unat n mod 128 + 128"
    by (simp add: byte_or_80)
  moreover have "unat (word_of_nat (unat n mod 128 + 128) :: byte) = unat n mod 128 + 128"
    unfolding unat_of_nat_byte by simp
  ultimately show ?thesis unfolding digit by (simp only: word_unat_eq_iff)
qed

lemma write_hi: "WriteVarInt_loop (n :: 'a word) True tmp = varint_hi (unat n) @ tmp"
proof (induction "unat n" arbitrary: n tmp rule: less_induct)
  case less
  show ?case
  proof (cases "n \<le> 0x7f")
    case True
    then show ?thesis
      by (subst WriteVarInt_loop.simps, subst varint_hi.simps) (simp add: digit_more le_7f_iff)
  next
    case False
    have "varint_hi (unat (drop_bit 7 n - 1)) = varint_hi (unat n div 128 - 1)"
      by (simp only: unat_varint_next(1) [OF False])
    with False less varint_next_less [OF False] show ?thesis
      by (subst WriteVarInt_loop.simps, subst varint_hi.simps) (simp add: digit_more le_7f_iff)
  qed
qed

lemma write_enc: "WriteVarInt (n :: 'a word) = varint_enc (unat n)"
proof (cases "n \<le> 0x7f")
  case True
  then show ?thesis
    by (simp add: WriteVarInt_def WriteVarInt_loop.simps [of n] varint_enc_def digit le_7f_iff)
next
  case False
  have "varint_hi (unat (drop_bit 7 n - 1)) = varint_hi (unat n div 128 - 1)"
    by (simp only: unat_varint_next(1) [OF False])
  with False show ?thesis
    by (simp add: WriteVarInt_def WriteVarInt_loop.simps [of n] varint_enc_def digit le_7f_iff write_hi)
qed

lemma pow_width: "(2::nat) ^ LENGTH('a) = 128 * 2 ^ (LENGTH('a) - 7)"
proof -
  have "LENGTH('a) = 7 + (LENGTH('a) - 7)" using width by simp
  then have "(2::nat) ^ LENGTH('a) = 2 ^ 7 * 2 ^ (LENGTH('a) - 7)" by (metis power_add)
  then show ?thesis by simp
qed

lemma too_large_iff: "drop_bit 7 (- 1) < (n :: 'a word) \<longleftrightarrow> \<not> unat n < 2 ^ (LENGTH('a) - 7)"
proof -
  have "unat (- 1 :: 'a word) = 2 ^ LENGTH('a) - 1" by (simp add: unsigned_minus_1_eq_mask mask_eq_exp_minus_1)
  then have "unat (drop_bit 7 (- 1 :: 'a word)) = (128 * 2 ^ (LENGTH('a) - 7) - 1) div 128"
    by (simp only: unat_drop_bit_eq pow_width) (simp add: drop_bit_eq_div)
  moreover have "(128 * m - 1) div 128 = m - 1" if "0 < m" for m :: nat
    using that by (intro div_nat_eqI) auto
  ultimately have "unat (drop_bit 7 (- 1 :: 'a word)) = 2 ^ (LENGTH('a) - 7) - 1" by simp
  moreover have "(0::nat) < 2 ^ (LENGTH('a) - 7)" by simp
  ultimately show ?thesis unfolding word_less_nat_alt by linarith
qed

lemma unat_step:
  assumes "unat (n :: 'a word) < 2 ^ (LENGTH('a) - 7)"
  shows "unat (push_bit 7 n OR ucast (ch AND (0x7f :: byte))) = unat n * 128 + unat ch mod 128"
proof -
  have ch: "unat (ch AND 0x7f) = unat ch mod 128"
  proof -
    have "ch AND 0x7f = take_bit 7 ch" by (simp add: take_bit_eq_mask mask_eq_exp_minus_1)
    then have "unat (ch AND 0x7f) = take_bit 7 (unat ch)" by (simp only: unsigned_take_bit_eq)
    then show ?thesis by (simp add: take_bit_eq_mod)
  qed
  have lt: "unat n * 128 + 127 < 2 ^ LENGTH('a)" using assms unfolding pow_width by linarith
  have d: "unat (ucast (ch AND 0x7f) :: 'a word) = unat ch mod 128"
    unfolding unsigned_ucast_eq ch by (rule take_bit_nat_eq_self) (use lt mod_less_divisor [of 128 "unat ch"] in linarith)
  have p: "unat (push_bit 7 n) = unat n * 128"
    unfolding unsigned_push_bit_eq using lt
    by (simp add: push_bit_eq_mult take_bit_nat_eq_self)
  have "push_bit 7 n OR ucast (ch AND 0x7f) = ucast (ch AND 0x7f) + push_bit 7 n"
    unfolding or.commute [of "push_bit 7 n"] by (rule or_push_bit_eq_add) (simp add: d)
  moreover have "unat (ucast (ch AND 0x7f) + push_bit 7 n) = unat ch mod 128 + unat n * 128"
    using lt mod_less_divisor [of 128 "unat ch"] unfolding unat_word_ariths(1) d p
    by (intro mod_less) linarith
  ultimately show ?thesis by simp
qed

lemma read_last:
  assumes "unat (n :: 'a word) < 2 ^ (LENGTH('a) - 7)" and "unat ch < 128"
  shows "ReadVarInt_loop n (ch # s) = Inr (word_of_nat (unat n * 128 + unat ch), s)"
proof -
  have "push_bit 7 n OR ucast (ch AND 0x7f) = (word_of_nat (unat n * 128 + unat ch) :: 'a word)"
    using unat_step [OF assms(1), of ch] assms(2) by (intro word_eq_of_unat) simp
  with assms show ?thesis
    by (subst ReadVarInt_loop.simps, subst too_large_iff) (simp add: byte_and_80 Let_def)
qed

lemma read_more:
  assumes "unat (n :: 'a word) < 2 ^ (LENGTH('a) - 7)" and "128 \<le> unat ch"
    and "unat n * 128 + unat ch mod 128 + 1 < 2 ^ LENGTH('a)"
  shows "ReadVarInt_loop n (ch # s) = ReadVarInt_loop (word_of_nat (unat n * 128 + unat ch mod 128 + 1)) s"
proof -
  let ?n = "push_bit 7 n OR ucast (ch AND 0x7f) :: 'a word"
  have u: "unat ?n = unat n * 128 + unat ch mod 128" by (rule unat_step [OF assms(1)])
  then have "?n = word_of_nat (unat n * 128 + unat ch mod 128)" by (rule word_eq_of_unat)
  then have "?n + 1 = word_of_nat (unat n * 128 + unat ch mod 128 + 1)" by simp
  moreover have "?n \<noteq> - 1"
  proof
    assume "?n = - 1"
    then have "unat ?n = 2 ^ LENGTH('a) - 1" by (simp only: unsigned_minus_1_eq_mask mask_eq_exp_minus_1)
    with u assms(3) show False by linarith
  qed
  moreover have "ReadVarInt_loop n (ch # s) = ReadVarInt_loop (?n + 1) s"
    using assms calculation(2)
    by (subst ReadVarInt_loop.simps, subst too_large_iff) (simp add: byte_and_80 Let_def)
  ultimately show ?thesis by (simp only:)
qed

lemma read_hi:
  "m + 1 < 2 ^ LENGTH('a) \<Longrightarrow> ReadVarInt_loop (0 :: 'a word) (varint_hi m @ rest) = ReadVarInt_loop (word_of_nat (m + 1)) rest"
proof (induction m arbitrary: rest rule: varint_hi.induct)
  case (1 m)
  have byte: "unat (word_of_nat (d + 128) :: byte) = d + 128" if "d < 128" for d
    using that by (simp only: unat_of_nat_byte) simp
  show ?case
  proof (cases "m \<le> 127")
    case True
    then show ?thesis
      using read_more [of 0 "word_of_nat (m + 128)" rest] 1(2) byte [of m]
      by (subst varint_hi.simps) (simp del: of_nat_add)
  next
    case False
    let ?q = "m div 128" and ?d = "m mod 128"
    have q: "?q < 2 ^ (LENGTH('a) - 7)"
      using 1(2) unfolding pow_width by (intro less_mult_imp_div_less) simp
    then have "?q < 2 ^ LENGTH('a)" unfolding pow_width by linarith
    then have uq: "unat (word_of_nat ?q :: 'a word) = ?q" by (simp add: unat_of_nat)
    have "1 \<le> ?q" using False div_le_mono [of 128 m 128] by simp
    then have "ReadVarInt_loop (0 :: 'a word) (varint_hi m @ rest) =
        ReadVarInt_loop (word_of_nat ?q) (word_of_nat (?d + 128) # rest)"
      using 1(1) [OF False, of "word_of_nat (?d + 128) # rest"] \<open>?q < 2 ^ LENGTH('a)\<close> False
      by (subst varint_hi.simps) simp
    also have "\<dots> = ReadVarInt_loop (word_of_nat (m + 1)) rest"
      using read_more [of "word_of_nat ?q" "word_of_nat (?d + 128)" rest] uq q byte [of ?d] 1(2)
      by (simp del: of_nat_add)
    finally show ?thesis .
  qed
qed

lemma read_write: "ReadVarInt (WriteVarInt (n :: 'a word) @ rest) = Inr (n, rest)"
proof -
  let ?m = "unat n"
  have lt: "?m < 128 * 2 ^ (LENGTH('a) - 7)" using unsigned_less [of n, where 'a = nat] unfolding pow_width by simp
  have byte: "unat (word_of_nat d :: byte) = d" if "d < 128" for d
    using that by (simp add: unat_of_nat_byte)
  show ?thesis
  proof (cases "?m \<le> 127")
    case True
    then have b: "unat (word_of_nat ?m :: byte) = ?m" by (intro byte) simp
    with True have "ReadVarInt_loop (0 :: 'a word) (word_of_nat ?m # rest) =
        Inr (word_of_nat (unat (0 :: 'a word) * 128 + unat (word_of_nat ?m :: byte)), rest)"
      by (intro read_last) (simp_all only: unat_0, simp_all)
    also have "\<dots> = Inr (n, rest)" by (simp only: b unat_0) simp
    finally show ?thesis using True by (simp only: ReadVarInt_def write_enc varint_enc_def if_True append.simps)
  next
    case False
    let ?q = "?m div 128" and ?d = "?m mod 128"
    have q: "?q < 2 ^ (LENGTH('a) - 7)" using lt by (intro less_mult_imp_div_less) simp
    then have ql: "?q < 2 ^ LENGTH('a)" unfolding pow_width by linarith
    then have uq: "unat (word_of_nat ?q :: 'a word) = ?q" by (simp add: unat_of_nat)
    have "1 \<le> ?q" using False div_le_mono [of 128 ?m 128] by simp
    then show ?thesis
      using read_hi [of "?q - 1" "word_of_nat ?d # rest"] ql False uq q
        read_last [of "word_of_nat ?q" "word_of_nat ?d" rest] byte [of ?d]
      by (simp add: ReadVarInt_def write_enc varint_enc_def del: of_nat_mod)
  qed
qed

text \<open>Whatever is read was written so: the encoding has no second form.\<close>

lemma read_canonical:
  "ReadVarInt_loop (n :: 'a word) s = Inr (x, rest) \<Longrightarrow>
    (if n = 0 then s else varint_hi (unat n - 1) @ s) = varint_enc (unat x) @ rest"
proof (induction n s rule: ReadVarInt_loop.induct)
  case (1 n)
  then show ?case by simp
next
  case (2 n ch s)
  have n: "unat n < 2 ^ (LENGTH('a) - 7)"
    using 2(2) by (subst (asm) ReadVarInt_loop.simps, subst (asm) too_large_iff) (simp split: if_splits)
  let ?n = "push_bit 7 n OR ucast (ch AND 0x7f) :: 'a word" and ?v = "unat n * 128 + unat ch mod 128"
  have u: "unat ?n = ?v" by (rule unat_step [OF n])
  have dv: "?v mod 128 = unat ch mod 128" "?v div 128 = unat n" by simp_all
  have "?v \<le> 127 \<longleftrightarrow> unat n = 0" using mod_less_divisor [of 128 "unat ch"] by (intro iffI) linarith+
  then have le: "?v \<le> 127 \<longleftrightarrow> n = 0" by (simp only: unat_eq_0)
  show ?case
  proof (cases "unat ch < 128")
    case True
    with 2(2) n u have x: "unat x = ?v" "s = rest"
      by (subst (asm) ReadVarInt_loop.simps, subst (asm) too_large_iff, simp add: byte_and_80 Let_def)+
    have "ch = word_of_nat (unat ch mod 128)" using True by (intro word_eq_of_unat) simp
    with x show ?thesis
      by (simp only: varint_enc_def le dv) (simp add: x del: of_nat_mod)
  next
    case False
    have r: "ReadVarInt_loop (?n + 1) s = Inr (x, rest)" and m1: "?n \<noteq> - 1"
      using 2(2) n False
      by (subst (asm) ReadVarInt_loop.simps, subst (asm) too_large_iff, simp add: byte_and_80 Let_def split: if_splits)+
    then have nz: "?n + 1 \<noteq> 0" by (metis add_eq_0_iff add.commute)
    then have "unat (?n + 1) - 1 = ?v" using u unatSuc [of ?n] by (simp add: add.commute)
    moreover have "\<not> drop_bit 7 (- 1) < n" using n by (simp only: too_large_iff not_not)
    moreover have "ch AND 0x80 \<noteq> 0" using False by (simp add: byte_and_80)
    ultimately have "varint_hi ?v @ s = varint_enc (unat x) @ rest"
      using 2(1) [OF _ refl _ m1 r] nz by (simp only: if_False not_False_eq_True simp_thms)
    moreover have "varint_hi ?v = (if n = 0 then [] else varint_hi (unat n - 1)) @ [ch]"
    proof -
      have "unat ch mod 128 + 128 = unat ch" using False by (simp add: nat_mod_128)
      then show ?thesis by (subst varint_hi.simps) (simp only: le dv, simp)
    qed
    ultimately show ?thesis by (cases "n = 0") simp_all
  qed
qed

lemma varint_codec: "canonical_codec (WriteVarInt :: 'a word \<Rightarrow> byte list) ReadVarInt (\<lambda>_. True)"
proof
  show "s = WriteVarInt x @ rest" if "ReadVarInt s = Inr (x, rest)" for s rest and x :: "'a word"
    using read_canonical [of 0 s x rest] that by (simp add: ReadVarInt_def write_enc)
qed (auto simp: read_write)

end

interpretation v32: varint_width "TYPE(32)"
  by unfold_locales simp

interpretation v64: varint_width "TYPE(64)"
  by unfold_locales simp

interpretation c_varint32: canonical_codec "WriteVarInt :: uint32 \<Rightarrow> byte list" ReadVarInt "\<lambda>_. True"
  by (rule v32.varint_codec)

interpretation c_varint64: canonical_codec "WriteVarInt :: uint64 \<Rightarrow> byte list" ReadVarInt "\<lambda>_. True"
  by (rule v64.varint_codec)

section \<open>Bytes, vectors, options and pairs\<close>

text \<open>Reading a byte vector in blocks is reading it at once.\<close>

lemma unser_bytes_loop_eq: "unser_bytes_loop k s = stream_read k s"
proof (induction k s rule: unser_bytes_loop.induct)
  case (1 k s)
  show ?case
  proof (cases "k = 0")
    case True
    then show ?thesis by (simp add: unser_bytes_loop.simps stream_read_def)
  next
    case False
    define b where "b = min k 5000000"
    then have b: "b \<le> k" by simp
    have IH: "unser_bytes_loop (k - b) (drop b s) = stream_read (k - b) (drop b s)" if "\<not> length s < b"
      using 1 [OF False b_def, of "(take b s, drop b s)" "take b s" "drop b s"] that by (simp add: stream_read_def)
    have "take k s = take b s @ take (k - b) (drop b s)" using take_add [of b "k - b" s] b by simp
    then show ?thesis using False IH b
      by (subst unser_bytes_loop.simps) (auto simp: stream_read_def b_def [symmetric] Let_def)
  qed
qed

interpretation c_bytes: canonical_codec ser_bytes unser_bytes "\<lambda>v. length v \<le> MAX_SIZE"
proof
  show "unser_bytes (ser_bytes x @ rest) = Inr (x, rest)" if "length x \<le> MAX_SIZE" for x rest
    using that by (simp add: unser_bytes_def ser_bytes_def c_size.read_then_ser unser_bytes_loop_eq)
next
  fix s x rest assume "unser_bytes s = Inr (x, rest)"
  then show "length x \<le> MAX_SIZE" "s = ser_bytes x @ rest"
    by (auto simp: unser_bytes_def ser_bytes_def res_simps unser_bytes_loop_eq stream_read_iff c_size.unser_iff)
qed

lemma bytes_limited: "unser_limited limit s = Inr (x, rest) \<Longrightarrow> length x \<le> limit"
  by (auto simp: unser_limited_def res_simps stream_read_iff split: if_splits)

context codec
begin

lemma vector_codec: "codec (ser_vector ser) (unser_vector unser) (\<lambda>v. length v \<le> MAX_SIZE \<and> list_all ok v)"
  by unfold_locales (simp add: ser_vector_def unser_vector_def c_size.read_then_ser vector_loop)

lemma option_codec: "codec (ser_option ser) (unser_option unser) (pred_option ok)"
  by unfold_locales (rule option_roundtrip)

end

context canonical_codec
begin

lemma vector_canonical:
  "canonical_codec (ser_vector ser) (unser_vector unser) (\<lambda>v. length v \<le> MAX_SIZE \<and> list_all ok v)"
proof -
  have v: "length x \<le> MAX_SIZE \<and> list_all ok x \<and> s = ser_vector ser x @ rest"
    if "unser_vector unser s = Inr (x, rest)" for s x rest
    using that vector_loop_canonical
    by (fastforce simp: unser_vector_def res_simps c_size.unser_iff ser_vector_def)
  show ?thesis
    by (intro canonical_codec.intro vector_codec, unfold_locales) (use v in auto)
qed

end

lemma length_WriteVarInt_loop: "length (WriteVarInt_loop n more tmp) = GetSizeOfVarInt n + length tmp"
  by (induction n more tmp rule: WriteVarInt_loop.induct)
    (subst WriteVarInt_loop.simps, subst GetSizeOfVarInt.simps, simp add: Let_def)

text \<open>
  C31. Compact sizes are canonical: the reader accepts exactly the encodings the writer produces, for sizes
  up to \<open>MAX_SIZE\<close>, so a length prefix has a single form on the wire.
\<close>

theorem ReadCompactSize_iff:
  "ReadCompactSize s = Inr (n, rest) \<longleftrightarrow> n \<le> MAX_SIZE \<and> s = WriteCompactSize n @ rest"
  by (rule c_size.unser_iff)

text \<open>
  Every 64-bit number has exactly one variable-length encoding: the reader returns a number exactly on
  the bytes the writer produces for it, and the size computed in advance is the size written.
\<close>

theorem ReadVarInt_iff:
  "(ReadVarInt s = Inr (n :: uint64, rest) \<longleftrightarrow> s = WriteVarInt n @ rest) \<and>
    length (WriteVarInt n) = GetSizeOfVarInt n"
  by (simp add: c_varint64.unser_iff WriteVarInt_def length_WriteVarInt_loop)

end
