(* ===== verification/Transaction.thy ===== *)
theory Transaction
  imports Serialize Script
begin

text \<open>
  Transactions: the records of \<^verbatim>\<open>src/primitives/transaction.h\<close> and
  \<^verbatim>\<open>src/sapling/sapling_transaction.h\<close>, their predicates and values from
  \<^verbatim>\<open>src/primitives/transaction.cpp\<close>, and their wire format. The transaction hash is a parameter
  (\<open>SerializeHash\<close>, a double SHA-256 of the serialization). The field \<^verbatim>\<open>isTransparent\<close> of an outpoint takes
  no part in its equality and is left out; \<^verbatim>\<open>nRounds\<close> of an output is constant and is kept.
\<close>

section \<open>Data\<close>

definition COIN :: CAmount where "COIN = 100000000"
definition CENT :: CAmount where "CENT = 1000000"

record COutPoint =
  out_hash :: uint256
  out_n :: uint32

definition OutPoint_null :: COutPoint where "OutPoint_null = \<lparr>out_hash = 0, out_n = - 1\<rparr>"

definition OutPoint_IsNull :: "COutPoint \<Rightarrow> bool" where
  "OutPoint_IsNull p \<longleftrightarrow> out_hash p = 0 \<and> out_n p = - 1"

record CTxIn =
  prevout :: COutPoint
  scriptSig :: CScript
  nSequence :: uint32

abbreviation (input) SEQUENCE_FINAL :: uint32 where "SEQUENCE_FINAL \<equiv> 0xffffffff"

record CTxOut =
  nValue :: CAmount
  scriptPubKey :: CScript
  nRounds :: int

definition CTxOut_new :: "CAmount \<Rightarrow> CScript \<Rightarrow> CTxOut" where
  "CTxOut_new nValueIn scriptPubKeyIn = \<lparr>nValue = nValueIn, scriptPubKey = scriptPubKeyIn, nRounds = - 10\<rparr>"

definition CTxOut_SetNull :: "CTxOut \<Rightarrow> CTxOut" where
  "CTxOut_SetNull out = \<lparr>nValue = - 1, scriptPubKey = [], nRounds = - 10\<rparr>"

definition CTxOut_IsNull :: "CTxOut \<Rightarrow> bool" where
  "CTxOut_IsNull out \<longleftrightarrow> nValue out = - 1"

definition CTxOut_SetEmpty :: "CTxOut \<Rightarrow> CTxOut" where
  "CTxOut_SetEmpty out = out\<lparr>nValue := 0, scriptPubKey := []\<rparr>"

definition CTxOut_IsEmpty :: "CTxOut \<Rightarrow> bool" where
  "CTxOut_IsEmpty out \<longleftrightarrow> nValue out = 0 \<and> scriptPubKey out = []"

record SpendDescription =
  sd_cv :: uint256
  sd_anchor :: uint256
  sd_nullifier :: uint256
  sd_rk :: uint256
  sd_zkproof :: "byte list"
  sd_spendAuthSig :: "byte list"

record OutputDescription =
  od_cv :: uint256
  od_cmu :: uint256
  od_ephemeralKey :: uint256
  od_encCiphertext :: "byte list"
  od_outCiphertext :: "byte list"
  od_zkproof :: "byte list"

record SaplingTxData =
  valueBalance :: CAmount
  vShieldedSpend :: "SpendDescription list"
  vShieldedOutput :: "OutputDescription list"
  bindingSig :: "byte list"

definition hasBindingSig :: "SaplingTxData \<Rightarrow> bool" where
  "hasBindingSig d \<longleftrightarrow> list_ex (\<lambda>c. c \<noteq> 0) (bindingSig d)"

record CTransaction =
  nVersion :: int
  nType :: int
  vin :: "CTxIn list"
  vout :: "CTxOut list"
  nLockTime :: uint32
  sapData :: "SaplingTxData option"
  extraPayload :: "byte list option"

abbreviation (input) TxVersion_LEGACY :: int where "TxVersion_LEGACY \<equiv> 1"
abbreviation (input) TxVersion_SAPLING :: int where "TxVersion_SAPLING \<equiv> 3"
abbreviation (input) TxType_NORMAL :: int where "TxType_NORMAL \<equiv> 0"

section \<open>Predicates\<close>

definition CTxIn_IsFinal :: "CTxIn \<Rightarrow> bool" where
  "CTxIn_IsFinal txin \<longleftrightarrow> nSequence txin = SEQUENCE_FINAL"

definition CTxIn_IsNull :: "CTxIn \<Rightarrow> bool" where
  "CTxIn_IsNull txin \<longleftrightarrow> OutPoint_IsNull (prevout txin) \<and> scriptSig txin = [] \<and> CTxIn_IsFinal txin"

definition CTxIn_IsZerocoinSpend :: "CTxIn \<Rightarrow> bool" where
  "CTxIn_IsZerocoinSpend txin \<longleftrightarrow> out_hash (prevout txin) = 0 \<and> IsZerocoinSpend (scriptSig txin)"

definition CTxIn_IsZerocoinPublicSpend :: "CTxIn \<Rightarrow> bool" where
  "CTxIn_IsZerocoinPublicSpend txin = IsZerocoinPublicSpend (scriptSig txin)"

definition CTxOut_IsZerocoinMint :: "CTxOut \<Rightarrow> bool" where
  "CTxOut_IsZerocoinMint out = IsZerocoinMint (scriptPubKey out)"

definition hasSaplingData :: "CTransaction \<Rightarrow> bool" where
  "hasSaplingData tx =
    (case sapData tx of
       None \<Rightarrow> False
     | Some d \<Rightarrow> vShieldedOutput d \<noteq> [] \<or> vShieldedSpend d \<noteq> [] \<or> valueBalance d \<noteq> 0 \<or> hasBindingSig d)"

definition isSaplingVersion :: "CTransaction \<Rightarrow> bool" where
  "isSaplingVersion tx \<longleftrightarrow> nVersion tx \<ge> TxVersion_SAPLING"

definition IsShieldedTx :: "CTransaction \<Rightarrow> bool" where
  "IsShieldedTx tx \<longleftrightarrow> isSaplingVersion tx \<and> hasSaplingData tx"

definition hasExtraPayload :: "CTransaction \<Rightarrow> bool" where
  "hasExtraPayload tx = (case extraPayload tx of None \<Rightarrow> False | Some p \<Rightarrow> p \<noteq> [])"

definition IsNormalType :: "CTransaction \<Rightarrow> bool" where
  "IsNormalType tx \<longleftrightarrow> nType tx = TxType_NORMAL"

definition IsSpecialTx :: "CTransaction \<Rightarrow> bool" where
  "IsSpecialTx tx \<longleftrightarrow> isSaplingVersion tx \<and> nType tx \<noteq> TxType_NORMAL \<and> hasExtraPayload tx"

definition CTransaction_IsNull :: "CTransaction \<Rightarrow> bool" where
  "CTransaction_IsNull tx \<longleftrightarrow> vin tx = [] \<and> vout tx = []"

definition HasZerocoinSpendInputs :: "CTransaction \<Rightarrow> bool" where
  "HasZerocoinSpendInputs tx =
    list_ex (\<lambda>txin. CTxIn_IsZerocoinSpend txin \<or> CTxIn_IsZerocoinPublicSpend txin) (vin tx)"

definition HasZerocoinPublicSpendInputs :: "CTransaction \<Rightarrow> bool" where
  "HasZerocoinPublicSpendInputs tx = list_ex CTxIn_IsZerocoinPublicSpend (vin tx)"

definition HasZerocoinMintOutputs :: "CTransaction \<Rightarrow> bool" where
  "HasZerocoinMintOutputs tx = list_ex CTxOut_IsZerocoinMint (vout tx)"

definition ContainsZerocoins :: "CTransaction \<Rightarrow> bool" where
  "ContainsZerocoins tx \<longleftrightarrow> HasZerocoinSpendInputs tx \<or> HasZerocoinMintOutputs tx"

definition IsCoinBase :: "CTransaction \<Rightarrow> bool" where
  "IsCoinBase tx \<longleftrightarrow>
    length (vin tx) = 1 \<and> OutPoint_IsNull (prevout (vin tx ! 0)) \<and> \<not> ContainsZerocoins tx"

definition IsCoinStake :: "CTransaction \<Rightarrow> bool" where
  "IsCoinStake tx =
    (case vin tx of
       [] \<Rightarrow> False
     | txin # _ \<Rightarrow>
         if OutPoint_IsNull (prevout txin) \<and> \<not> CTxIn_IsZerocoinSpend txin then False
         else length (vout tx) \<ge> 2 \<and> CTxOut_IsEmpty (vout tx ! 0))"

definition HasP2CSOutputs :: "CTransaction \<Rightarrow> bool" where
  "HasP2CSOutputs tx = list_ex (\<lambda>out. IsPayToColdStaking (scriptPubKey out)) (vout tx)"

section \<open>Wire format\<close>

definition ser_OutPoint :: "COutPoint \<Rightarrow> byte list" where
  "ser_OutPoint p = ser_uint256 (out_hash p) @ ser_uint32 (out_n p)"

definition unser_OutPoint :: "COutPoint reader" where
  "unser_OutPoint =
    read_then unser_uint256 (\<lambda>h. read_then unser_uint32 (\<lambda>i. read_return \<lparr>out_hash = h, out_n = i\<rparr>))"

definition ser_TxIn :: "CTxIn \<Rightarrow> byte list" where
  "ser_TxIn txin = ser_OutPoint (prevout txin) @ ser_bytes (scriptSig txin) @ ser_uint32 (nSequence txin)"

definition unser_TxIn :: "CTxIn reader" where
  "unser_TxIn =
    read_then unser_OutPoint (\<lambda>p. read_then unser_bytes (\<lambda>scr. read_then unser_uint32 (\<lambda>sq.
      read_return \<lparr>prevout = p, scriptSig = scr, nSequence = sq\<rparr>)))"

definition ser_TxOut :: "CTxOut \<Rightarrow> byte list" where
  "ser_TxOut out = ser_int64 (nValue out) @ ser_bytes (scriptPubKey out)"

text \<open>\<^verbatim>\<open>nRounds\<close> is not written; the constructor sets it.\<close>

definition unser_TxOut :: "CTxOut reader" where
  "unser_TxOut =
    read_then unser_int64 (\<lambda>v. read_then unser_bytes (\<lambda>scr. read_return (CTxOut_new v scr)))"

definition ser_SpendDescription :: "SpendDescription \<Rightarrow> byte list" where
  "ser_SpendDescription d =
    ser_uint256 (sd_cv d) @ ser_uint256 (sd_anchor d) @ ser_uint256 (sd_nullifier d) @ ser_uint256 (sd_rk d) @
    sd_zkproof d @ sd_spendAuthSig d"

abbreviation (input) GROTH_PROOF_SIZE :: nat where "GROTH_PROOF_SIZE \<equiv> 192"

definition unser_SpendDescription :: "SpendDescription reader" where
  "unser_SpendDescription =
    read_then unser_uint256 (\<lambda>cv. read_then unser_uint256 (\<lambda>anchor. read_then unser_uint256 (\<lambda>nullifier.
    read_then unser_uint256 (\<lambda>rk. read_then (stream_read GROTH_PROOF_SIZE) (\<lambda>zkproof.
    read_then (stream_read 64) (\<lambda>sig.
      read_return \<lparr>sd_cv = cv, sd_anchor = anchor, sd_nullifier = nullifier, sd_rk = rk, sd_zkproof = zkproof,
                   sd_spendAuthSig = sig\<rparr>))))))"

definition ser_OutputDescription :: "OutputDescription \<Rightarrow> byte list" where
  "ser_OutputDescription d =
    ser_uint256 (od_cv d) @ ser_uint256 (od_cmu d) @ ser_uint256 (od_ephemeralKey d) @
    od_encCiphertext d @ od_outCiphertext d @ od_zkproof d"

abbreviation (input) ZC_SAPLING_ENCCIPHERTEXT_SIZE :: nat where "ZC_SAPLING_ENCCIPHERTEXT_SIZE \<equiv> 580"
abbreviation (input) ZC_SAPLING_OUTCIPHERTEXT_SIZE :: nat where "ZC_SAPLING_OUTCIPHERTEXT_SIZE \<equiv> 80"

definition unser_OutputDescription :: "OutputDescription reader" where
  "unser_OutputDescription =
    read_then unser_uint256 (\<lambda>cv. read_then unser_uint256 (\<lambda>cmu. read_then unser_uint256 (\<lambda>ek.
    read_then (stream_read ZC_SAPLING_ENCCIPHERTEXT_SIZE) (\<lambda>enc.
    read_then (stream_read ZC_SAPLING_OUTCIPHERTEXT_SIZE) (\<lambda>outc.
    read_then (stream_read GROTH_PROOF_SIZE) (\<lambda>zkproof.
      read_return \<lparr>od_cv = cv, od_cmu = cmu, od_ephemeralKey = ek, od_encCiphertext = enc,
                   od_outCiphertext = outc, od_zkproof = zkproof\<rparr>))))))"

definition ser_SaplingTxData :: "SaplingTxData \<Rightarrow> byte list" where
  "ser_SaplingTxData d =
    ser_int64 (valueBalance d) @ ser_vector ser_SpendDescription (vShieldedSpend d) @
    ser_vector ser_OutputDescription (vShieldedOutput d) @ bindingSig d"

definition unser_SaplingTxData :: "SaplingTxData reader" where
  "unser_SaplingTxData =
    read_then unser_int64 (\<lambda>vb. read_then (unser_vector unser_SpendDescription) (\<lambda>ss.
    read_then (unser_vector unser_OutputDescription) (\<lambda>os. read_then (stream_read 64) (\<lambda>sig.
      read_return \<lparr>valueBalance = vb, vShieldedSpend = ss, vShieldedOutput = os, bindingSig = sig\<rparr>))))"

definition SaplingTxData_empty :: SaplingTxData where
  "SaplingTxData_empty =
    \<lparr>valueBalance = 0, vShieldedSpend = [], vShieldedOutput = [], bindingSig = replicate 64 0\<rparr>"

definition SerializeTransaction :: "CTransaction \<Rightarrow> byte list" where
  "SerializeTransaction tx =
    ser_int16 (nVersion tx) @ ser_int16 (nType tx) @ ser_vector ser_TxIn (vin tx) @ ser_vector ser_TxOut (vout tx) @
    ser_uint32 (nLockTime tx) @
    (if isSaplingVersion tx then
       ser_option ser_SaplingTxData (sapData tx) @
       (if \<not> IsNormalType tx then ser_option ser_bytes (extraPayload tx) else [])
     else [])"

text \<open>
  The reader fills a new \<^verbatim>\<open>CMutableTransaction\<close>, whose \<^verbatim>\<open>sapData\<close> starts as an empty value and whose
  \<^verbatim>\<open>extraPayload\<close> starts absent.
\<close>

definition UnserializeTransaction :: "CTransaction reader" where
  "UnserializeTransaction =
    read_then unser_int16 (\<lambda>v. read_then unser_int16 (\<lambda>t.
    read_then (unser_vector unser_TxIn) (\<lambda>ins. read_then (unser_vector unser_TxOut) (\<lambda>outs.
    read_then unser_uint32 (\<lambda>lt.
      let tx = \<lparr>nVersion = v, nType = t, vin = ins, vout = outs, nLockTime = lt,
                sapData = Some SaplingTxData_empty, extraPayload = None\<rparr>
      in if isSaplingVersion tx then
           read_then (unser_option unser_SaplingTxData) (\<lambda>d.
             if \<not> IsNormalType tx then
               read_then (unser_option unser_bytes) (\<lambda>p. read_return (tx\<lparr>sapData := d, extraPayload := p\<rparr>))
             else read_return (tx\<lparr>sapData := d\<rparr>))
         else read_return tx)))))"

definition GetTotalSize :: "CTransaction \<Rightarrow> nat" where
  "GetTotalSize tx = length (SerializeTransaction tx)"

section \<open>Values\<close>

text \<open>
  Signed 64-bit arithmetic, wrapping around. The test of \<^verbatim>\<open>GetValueOut\<close> for an overflow by a smaller sum
  is the test on the wrapped sum.
\<close>

definition wrap64 :: "int \<Rightarrow> int" where
  "wrap64 x = sint (word_of_int x :: 64 word)"

datatype value_error = ValueNegative | ValueWraps | InvalidTxVersion

fun GetValueOut_loop :: "CTxOut list \<Rightarrow> CAmount \<Rightarrow> value_error + CAmount" where
  "GetValueOut_loop [] nValueOut = Inr nValueOut"
| "GetValueOut_loop (out # outs) nValueOut =
    (if nValue out < 0 then Inl ValueNegative
     else if wrap64 (nValueOut + nValue out) < nValueOut then Inl ValueWraps
     else GetValueOut_loop outs (wrap64 (nValueOut + nValue out)))"

definition GetValueOut :: "CTransaction \<Rightarrow> value_error + CAmount" where
  "GetValueOut tx =
    (case GetValueOut_loop (vout tx) 0 of
       Inl e \<Rightarrow> Inl e
     | Inr nValueOut \<Rightarrow>
         (case sapData tx of
            None \<Rightarrow> Inr nValueOut
          | Some d \<Rightarrow>
              if hasSaplingData tx \<and> valueBalance d < 0 then
                (if \<not> isSaplingVersion tx then Inl InvalidTxVersion
                 else Inr (wrap64 (nValueOut + wrap64 (- valueBalance d))))
              else Inr nValueOut))"

definition GetShieldedValueIn :: "CTransaction \<Rightarrow> value_error + CAmount" where
  "GetShieldedValueIn tx =
    (case sapData tx of
       None \<Rightarrow> Inr 0
     | Some d \<Rightarrow>
         if hasSaplingData tx \<and> valueBalance d > 0 then
           (if \<not> isSaplingVersion tx then Inl InvalidTxVersion else Inr (valueBalance d))
         else Inr 0)"

definition GetZerocoinSpent :: "CTransaction \<Rightarrow> CAmount" where
  "GetZerocoinSpent tx =
    fold (\<lambda>txin nValueOut. if \<not> CTxIn_IsZerocoinSpend txin then nValueOut
                           else wrap64 (nValueOut + wrap64 (uint (nSequence txin) * COIN))) (vin tx) 0"

definition CalculateModifiedSize :: "CTransaction \<Rightarrow> nat \<Rightarrow> nat" where
  "CalculateModifiedSize tx nTxSize =
    fold (\<lambda>txin k. let offset = 41 + min 110 (length (scriptSig txin))
                   in if k > offset then k - offset else k)
      (vin tx) (if nTxSize = 0 then GetTotalSize tx else nTxSize)"

section \<open>The formats are codecs\<close>

text \<open>What the fixed-size arrays, the amounts and the vectors of a transaction satisfy.\<close>

definition txin_ok :: "CTxIn \<Rightarrow> bool" where
  "txin_ok txin \<longleftrightarrow> length (scriptSig txin) \<le> MAX_SIZE"

definition txout_ok :: "CTxOut \<Rightarrow> bool" where
  "txout_ok out \<longleftrightarrow> int_ok 64 (nValue out) \<and> length (scriptPubKey out) \<le> MAX_SIZE \<and> nRounds out = - 10"

definition spend_ok :: "SpendDescription \<Rightarrow> bool" where
  "spend_ok d \<longleftrightarrow> length (sd_zkproof d) = GROTH_PROOF_SIZE \<and> length (sd_spendAuthSig d) = 64"

definition output_ok :: "OutputDescription \<Rightarrow> bool" where
  "output_ok d \<longleftrightarrow> length (od_encCiphertext d) = ZC_SAPLING_ENCCIPHERTEXT_SIZE \<and>
    length (od_outCiphertext d) = ZC_SAPLING_OUTCIPHERTEXT_SIZE \<and> length (od_zkproof d) = GROTH_PROOF_SIZE"

definition sapling_ok :: "SaplingTxData \<Rightarrow> bool" where
  "sapling_ok d \<longleftrightarrow> int_ok 64 (valueBalance d) \<and> length (bindingSig d) = 64 \<and>
    length (vShieldedSpend d) \<le> MAX_SIZE \<and> list_all spend_ok (vShieldedSpend d) \<and>
    length (vShieldedOutput d) \<le> MAX_SIZE \<and> list_all output_ok (vShieldedOutput d)"

definition tx_ok :: "CTransaction \<Rightarrow> bool" where
  "tx_ok tx \<longleftrightarrow> int_ok 16 (nVersion tx) \<and> int_ok 16 (nType tx) \<and>
    length (vin tx) \<le> MAX_SIZE \<and> list_all txin_ok (vin tx) \<and>
    length (vout tx) \<le> MAX_SIZE \<and> list_all txout_ok (vout tx) \<and>
    (if isSaplingVersion tx then pred_option sapling_ok (sapData tx) else sapData tx = Some SaplingTxData_empty) \<and>
    (if isSaplingVersion tx \<and> \<not> IsNormalType tx
     then pred_option (\<lambda>p. length p \<le> MAX_SIZE) (extraPayload tx) else extraPayload tx = None)"

lemma read_then_array: "length bs = k \<Longrightarrow> read_then (stream_read k) f (bs @ rest) = f bs rest"
  by (simp add: read_then_def)

lemma read_return_def': "read_return x s = Inr (x, s)"
  by (simp add: read_return_def)

lemmas leaf_codecs = c_uint32.read_then_ser c_uint256.read_then_ser c_int64.read_then_ser c_int16.read_then_ser
  c_bytes.read_then_ser read_then_array read_return_def'

interpretation c_outpoint: codec ser_OutPoint unser_OutPoint "\<lambda>_. True"
  by unfold_locales (simp add: ser_OutPoint_def unser_OutPoint_def leaf_codecs)

interpretation c_txin: codec ser_TxIn unser_TxIn txin_ok
  by unfold_locales (simp add: ser_TxIn_def unser_TxIn_def txin_ok_def c_outpoint.read_then_ser leaf_codecs)

interpretation c_txout: codec ser_TxOut unser_TxOut txout_ok
  by unfold_locales (simp add: ser_TxOut_def unser_TxOut_def txout_ok_def CTxOut_new_def leaf_codecs)

interpretation c_spend: codec ser_SpendDescription unser_SpendDescription spend_ok
  by unfold_locales (simp add: ser_SpendDescription_def unser_SpendDescription_def spend_ok_def leaf_codecs)

interpretation c_output: codec ser_OutputDescription unser_OutputDescription output_ok
  by unfold_locales (simp add: ser_OutputDescription_def unser_OutputDescription_def output_ok_def leaf_codecs)

interpretation c_txins: codec "ser_vector ser_TxIn" "unser_vector unser_TxIn" "\<lambda>v. length v \<le> MAX_SIZE \<and> list_all txin_ok v"
  by (rule c_txin.vector_codec)

interpretation c_txouts: codec "ser_vector ser_TxOut" "unser_vector unser_TxOut"
    "\<lambda>v. length v \<le> MAX_SIZE \<and> list_all txout_ok v"
  by (rule c_txout.vector_codec)

interpretation c_spends: codec "ser_vector ser_SpendDescription" "unser_vector unser_SpendDescription"
    "\<lambda>v. length v \<le> MAX_SIZE \<and> list_all spend_ok v"
  by (rule c_spend.vector_codec)

interpretation c_outputs: codec "ser_vector ser_OutputDescription" "unser_vector unser_OutputDescription"
    "\<lambda>v. length v \<le> MAX_SIZE \<and> list_all output_ok v"
  by (rule c_output.vector_codec)

interpretation c_sapling: codec ser_SaplingTxData unser_SaplingTxData sapling_ok
  by unfold_locales
    (simp add: ser_SaplingTxData_def unser_SaplingTxData_def sapling_ok_def c_spends.read_then_ser
      c_outputs.read_then_ser leaf_codecs)

interpretation c_sapling_opt: codec "ser_option ser_SaplingTxData" "unser_option unser_SaplingTxData"
    "pred_option sapling_ok"
  by (rule c_sapling.option_codec)

interpretation c_payload: codec "ser_option ser_bytes" "unser_option unser_bytes"
    "pred_option (\<lambda>p. length p \<le> MAX_SIZE)"
  by (rule c_bytes.option_codec)

interpretation c_tx: codec SerializeTransaction UnserializeTransaction tx_ok
proof
  fix tx :: CTransaction and rest
  assume "tx_ok tx"
  then show "UnserializeTransaction (SerializeTransaction tx @ rest) = Inr (tx, rest)"
    unfolding UnserializeTransaction_def SerializeTransaction_def tx_ok_def
    by (cases tx) (simp add: leaf_codecs c_txins.read_then_ser c_txouts.read_then_ser c_sapling_opt.read_then_ser
        c_payload.read_then_ser c_payload.read_then_ser_nil c_sapling_opt.read_then_ser_nil Let_def
        isSaplingVersion_def IsNormalType_def split: if_splits)
qed

interpretation c_txs: codec "ser_vector SerializeTransaction" "unser_vector UnserializeTransaction"
  "\<lambda>v. length v \<le> MAX_SIZE \<and> list_all tx_ok v"
  by (rule c_tx.vector_codec)

text \<open>
  C24. A transaction survives the wire: what \<open>SerializeTransaction\<close> writes, followed by anything, is read back
  as the same transaction, with the rest of the stream left untouched.
\<close>

theorem UnserializeTransaction_roundtrip:
  assumes "tx_ok tx"
  shows "UnserializeTransaction (SerializeTransaction tx @ rest) = Inr (tx, rest)"
  using assms by (rule c_tx.roundtrip)

definition sample_tx :: CTransaction where
  "sample_tx =
    \<lparr>nVersion = 3, nType = 0,
     vin = [\<lparr>prevout = \<lparr>out_hash = 5, out_n = 1\<rparr>, scriptSig = [1, 2, 3], nSequence = SEQUENCE_FINAL\<rparr>],
     vout = [CTxOut_new 7 [OP_1], CTxOut_new 8 [OP_2]], nLockTime = 9,
     sapData = Some SaplingTxData_empty, extraPayload = None\<rparr>"

lemma UnserializeTransaction_roundtrip_witness:
  "UnserializeTransaction (SerializeTransaction sample_tx @ [4, 2]) = Inr (sample_tx, [4, 2])"
proof -
  have ok: "tx_ok sample_tx"
    by (simp add: tx_ok_def sample_tx_def txin_ok_def txout_ok_def sapling_ok_def SaplingTxData_empty_def int_ok_def
        MAX_SIZE_def CTxOut_new_def isSaplingVersion_def)
  show ?thesis by (rule UnserializeTransaction_roundtrip [OF ok])
qed

section \<open>The value of the outputs\<close>

lemma wrap64_id: "int_ok 64 x \<Longrightarrow> wrap64 x = x"
  by (simp add: wrap64_def int_ok_def sint_sbintrunc' signed_take_bit_int_eq_self)

lemma wrap64_over:
  assumes "2 ^ 63 \<le> x" and "x < 2 ^ 64"
  shows "wrap64 x = x - 2 ^ 64"
proof -
  have "(word_of_int x :: 64 word) = word_of_int (x - 2 ^ 64)" by (simp add: of_int_diff)
  then have "wrap64 x = wrap64 (x - 2 ^ 64)" by (simp only: wrap64_def)
  also have "\<dots> = x - 2 ^ 64" using assms by (intro wrap64_id) (simp add: int_ok_def)
  finally show ?thesis .
qed

lemma GetValueOut_loop_iff:
  assumes "list_all (\<lambda>out. nValue out < 2 ^ 63) outs" and "0 \<le> acc" and "acc < 2 ^ 63"
  shows "GetValueOut_loop outs acc = Inr v \<longleftrightarrow>
    list_all (\<lambda>out. 0 \<le> nValue out) outs \<and> v = acc + sum_list (map nValue outs) \<and> v < 2 ^ 63"
  using assms
proof (induction outs arbitrary: acc)
  case Nil
  then show ?case by auto
next
  case (Cons out outs)
  have pos: "0 \<le> sum_list (map nValue outs)" if "list_all (\<lambda>out. 0 \<le> nValue out) outs"
    using that by (intro sum_list_nonneg) (auto simp: list_all_iff)
  consider "nValue out < 0" | "0 \<le> nValue out" "acc + nValue out < 2 ^ 63"
    | "0 \<le> nValue out" "2 ^ 63 \<le> acc + nValue out" by linarith
  then show ?case
  proof cases
    case 1
    then show ?thesis by simp
  next
    case 2
    then have "wrap64 (acc + nValue out) = acc + nValue out"
      using Cons.prems by (intro wrap64_id) (simp add: int_ok_def)
    with 2 Cons.prems Cons.IH [of "acc + nValue out"] show ?thesis by (auto simp: add.assoc)
  next
    case 3
    then have "wrap64 (acc + nValue out) = acc + nValue out - 2 ^ 64"
      using Cons.prems by (intro wrap64_over) auto
    with 3 Cons.prems pos show ?thesis by auto
  qed
qed

text \<open>The amount a negative balance moves from the transparent to the shielded pool.\<close>

definition shielded_out :: "CTransaction \<Rightarrow> CAmount" where
  "shielded_out tx =
    (case sapData tx of None \<Rightarrow> 0 | Some d \<Rightarrow> if hasSaplingData tx \<and> valueBalance d < 0 then - valueBalance d else 0)"

lemma GetValueOut_shielded:
  "isSaplingVersion tx \<Longrightarrow> GetValueOut tx =
    (case GetValueOut_loop (vout tx) 0 of
       Inl e \<Rightarrow> Inl e
     | Inr v \<Rightarrow> Inr (if shielded_out tx = 0 then v else wrap64 (v + wrap64 (shielded_out tx))))"
  by (auto simp: GetValueOut_def shielded_out_def split: sum.splits option.splits)



text \<open>
  Without the last proviso the result is wrong: a negative balance is added with no test for a wrap around,
  and the value of the outputs comes out negative.
\<close>

definition wrapping_tx :: CTransaction where
  "wrapping_tx = sample_tx\<lparr>vout := [CTxOut_new (2 ^ 63 - 1) []],
     sapData := Some (SaplingTxData_empty\<lparr>valueBalance := - 1\<rparr>)\<rparr>"

lemma GetValueOut_shielded_wraps: "tx_ok wrapping_tx \<and> GetValueOut wrapping_tx = Inr (- (2 ^ 63))"
proof -
  have "GetValueOut wrapping_tx = Inr (- (2 ^ 63))" by code_simp
  then show ?thesis
    by (simp add: tx_ok_def wrapping_tx_def sample_tx_def txin_ok_def txout_ok_def sapling_ok_def
        SaplingTxData_empty_def int_ok_def MAX_SIZE_def CTxOut_new_def isSaplingVersion_def)
qed

end
