(* ===== verification/SigHash.thy ===== *)
theory SigHash
  imports Transaction Interpreter
begin

text \<open>
  Signature hashes and the transaction signature checker of \<^verbatim>\<open>src/script/interpreter.cpp\<close>. The hash
  functions (double SHA-256 and personalised BLAKE2b) and the verification of an ECDSA signature are
  parameters. \<open>None\<close> stands for a thrown exception or a failed assertion.
\<close>

section \<open>Parameters\<close>

record hash_env =
  HashWriter :: "byte list \<Rightarrow> uint256"
  BLAKE2bWriter :: "byte list \<Rightarrow> byte list \<Rightarrow> uint256"

text \<open>The ASCII bytes of a literal, padded with zeros to the 16 bytes of a personalization.\<close>

definition ascii :: "string \<Rightarrow> byte list" where
  "ascii cs = map (\<lambda>c. word_of_nat (of_char c)) cs"

definition personal :: "string \<Rightarrow> byte list" where
  "personal cs = take 16 (ascii cs @ replicate 16 0)"

definition NOT_AN_INPUT :: nat where "NOT_AN_INPUT = 2 ^ 32 - 1"

definition fAnyoneCanPay :: "uint32 \<Rightarrow> bool" where
  "fAnyoneCanPay nHashType \<longleftrightarrow> nHashType AND 0x80 \<noteq> 0"

definition fHashSingle :: "uint32 \<Rightarrow> bool" where
  "fHashSingle nHashType \<longleftrightarrow> nHashType AND 0x1f = 3"

definition fHashNone :: "uint32 \<Rightarrow> bool" where
  "fHashNone nHashType \<longleftrightarrow> nHashType AND 0x1f = 2"

section \<open>The signature serializer\<close>

function nCodeSeparators :: "CScript \<Rightarrow> nat" where
  "nCodeSeparators it =
    (case GetOp2 it of
       (_, None) \<Rightarrow> 0
     | (it', Some (opcode, _)) \<Rightarrow> of_bool (opcode = OP_CODESEPARATOR) + nCodeSeparators it')"
  by pat_completeness auto
termination
  by (relation "measure length") (auto dest: GetOp2_shrinks [OF sym])

declare nCodeSeparators.simps [simp del]

text \<open>
  The second pass: \<open>itBegin\<close> is where the next block to write starts. The iterator of a failed read stands
  where \<open>GetOp2\<close> left it.
\<close>

function SerializeScriptCode_loop :: "CScript \<Rightarrow> CScript \<Rightarrow> byte list" where
  "SerializeScriptCode_loop it itBegin =
    (case GetOp2 it of
       (it', None) \<Rightarrow> if itBegin \<noteq> [] then take (length itBegin - length it') itBegin else []
     | (it', Some (opcode, _)) \<Rightarrow>
         if opcode = OP_CODESEPARATOR
         then take (length itBegin - length it' - 1) itBegin @ SerializeScriptCode_loop it' it'
         else SerializeScriptCode_loop it' itBegin)"
  by pat_completeness auto
termination
  by (relation "measure (length \<circ> fst)") (auto dest: GetOp2_shrinks [OF sym])

declare SerializeScriptCode_loop.simps [simp del]

definition SerializeScriptCode :: "CScript \<Rightarrow> byte list" where
  "SerializeScriptCode scriptCode =
    WriteCompactSize (length scriptCode - nCodeSeparators scriptCode) @
    SerializeScriptCode_loop scriptCode scriptCode"

definition SerializeInput :: "CTransaction \<Rightarrow> CScript \<Rightarrow> nat \<Rightarrow> uint32 \<Rightarrow> nat \<Rightarrow> byte list" where
  "SerializeInput txTo scriptCode nIn nHashType nInput0 =
    (let nInput = (if fAnyoneCanPay nHashType then nIn else nInput0); txin = vin txTo ! nInput
     in ser_OutPoint (prevout txin) @
        (if nInput \<noteq> nIn then ser_bytes [] else SerializeScriptCode scriptCode) @
        (if nInput \<noteq> nIn \<and> (fHashSingle nHashType \<or> fHashNone nHashType) then ser_int32 0
         else ser_uint32 (nSequence txin)))"

definition SerializeOutput :: "CTransaction \<Rightarrow> nat \<Rightarrow> uint32 \<Rightarrow> nat \<Rightarrow> byte list" where
  "SerializeOutput txTo nIn nHashType nOutput =
    (if fHashSingle nHashType \<and> nOutput \<noteq> nIn then ser_TxOut (CTxOut_new (- 1) [])
     else ser_TxOut (vout txTo ! nOutput))"

definition SignatureSerialize :: "CTransaction \<Rightarrow> CScript \<Rightarrow> nat \<Rightarrow> uint32 \<Rightarrow> byte list" where
  "SignatureSerialize txTo scriptCode nIn nHashType =
    (let nInputs = (if fAnyoneCanPay nHashType then 1 else length (vin txTo));
         nOutputs = (if fHashNone nHashType then 0
                     else if fHashSingle nHashType then nIn + 1 else length (vout txTo))
     in ser_int16 (nVersion txTo) @ ser_int16 (nType txTo) @
        WriteCompactSize nInputs @ concat (map (SerializeInput txTo scriptCode nIn nHashType) [0..<nInputs]) @
        WriteCompactSize nOutputs @ concat (map (SerializeOutput txTo nIn nHashType) [0..<nOutputs]) @
        ser_uint32 (nLockTime txTo))"

section \<open>The digests of the parts\<close>

definition GetPrevoutHash :: "hash_env \<Rightarrow> CTransaction \<Rightarrow> uint256" where
  "GetPrevoutHash H txTo =
    BLAKE2bWriter H (personal ''PIVXPrevoutHash'') (concat (map (\<lambda>txin. ser_OutPoint (prevout txin)) (vin txTo)))"

definition GetSequenceHash :: "hash_env \<Rightarrow> CTransaction \<Rightarrow> uint256" where
  "GetSequenceHash H txTo =
    BLAKE2bWriter H (personal ''PIVXSequencHash'') (concat (map (\<lambda>txin. ser_uint32 (nSequence txin)) (vin txTo)))"

definition GetOutputsHash :: "hash_env \<Rightarrow> CTransaction \<Rightarrow> uint256" where
  "GetOutputsHash H txTo =
    BLAKE2bWriter H (personal ''PIVXOutputsHash'') (concat (map ser_TxOut (vout txTo)))"

definition GetShieldedSpendsHash :: "hash_env \<Rightarrow> SaplingTxData \<Rightarrow> uint256" where
  "GetShieldedSpendsHash H d =
    BLAKE2bWriter H (personal ''PIVXSSpendsHash'')
      (concat (map (\<lambda>s. ser_uint256 (sd_cv s) @ ser_uint256 (sd_anchor s) @ ser_uint256 (sd_nullifier s) @
                        ser_uint256 (sd_rk s) @ sd_zkproof s) (vShieldedSpend d)))"

definition GetShieldedOutputsHash :: "hash_env \<Rightarrow> SaplingTxData \<Rightarrow> uint256" where
  "GetShieldedOutputsHash H d =
    BLAKE2bWriter H (personal ''PIVXSOutputHash'') (concat (map ser_OutputDescription (vShieldedOutput d)))"

record PrecomputedTransactionData =
  hashPrevouts :: uint256
  hashSequence :: uint256
  hashOutputs :: uint256
  hashShieldedSpends :: uint256
  hashShieldedOutputs :: uint256

definition Precompute :: "hash_env \<Rightarrow> CTransaction \<Rightarrow> PrecomputedTransactionData" where
  "Precompute H txTo =
    \<lparr>hashPrevouts = GetPrevoutHash H txTo, hashSequence = GetSequenceHash H txTo,
     hashOutputs = GetOutputsHash H txTo,
     hashShieldedSpends = (case sapData txTo of None \<Rightarrow> 0 | Some d \<Rightarrow> GetShieldedSpendsHash H d),
     hashShieldedOutputs = (case sapData txTo of None \<Rightarrow> 0 | Some d \<Rightarrow> GetShieldedOutputsHash H d)\<rparr>"

section \<open>SignatureHash\<close>

text \<open>The digest of a part: from the cache where there is one.\<close>

definition cached :: "PrecomputedTransactionData option \<Rightarrow> (PrecomputedTransactionData \<Rightarrow> uint256) \<Rightarrow> uint256 \<Rightarrow> uint256" where
  "cached cache field h = (case cache of Some c \<Rightarrow> field c | None \<Rightarrow> h)"

definition sapling_personalization :: "byte list" where
  "sapling_personalization = take 12 (ascii ''PassionSigHash'') @ le_bytes 4 0"

definition SaplingPreimage ::
  "hash_env \<Rightarrow> CScript \<Rightarrow> CTransaction \<Rightarrow> nat \<Rightarrow> uint32 \<Rightarrow> CAmount \<Rightarrow> PrecomputedTransactionData option \<Rightarrow> byte list" where
  "SaplingPreimage H scriptCode txTo nIn nHashType amount cache =
    (let hPrevouts = (if fAnyoneCanPay nHashType then 0 else cached cache hashPrevouts (GetPrevoutHash H txTo));
         hSequence = (if fAnyoneCanPay nHashType \<or> fHashSingle nHashType \<or> fHashNone nHashType then 0
                      else cached cache hashSequence (GetSequenceHash H txTo));
         hOutputs = (if \<not> fHashSingle nHashType \<and> \<not> fHashNone nHashType
                     then cached cache hashOutputs (GetOutputsHash H txTo)
                     else if fHashSingle nHashType \<and> nIn < length (vout txTo)
                     then BLAKE2bWriter H (personal ''PIVXOutputsHash'') (ser_TxOut (vout txTo ! nIn))
                     else 0)
     in ser_int16 (nVersion txTo) @ ser_int16 (nType txTo) @ ser_uint256 hPrevouts @ ser_uint256 hSequence @
        ser_uint256 hOutputs @
        (case sapData txTo of
           None \<Rightarrow> []
         | Some d \<Rightarrow>
             if vShieldedSpend d \<noteq> [] \<or> vShieldedOutput d \<noteq> [] then
               ser_uint256 (if vShieldedSpend d \<noteq> [] then cached cache hashShieldedSpends (GetShieldedSpendsHash H d) else 0) @
               ser_uint256 (if vShieldedOutput d \<noteq> [] then cached cache hashShieldedOutputs (GetShieldedOutputsHash H d) else 0) @
               ser_int64 (valueBalance d)
             else []) @
        (if nIn \<noteq> NOT_AN_INPUT then
           ser_OutPoint (prevout (vin txTo ! nIn)) @ ser_bytes scriptCode @ ser_int64 amount @
           ser_uint32 (nSequence (vin txTo ! nIn))
         else []) @
        (if IsSpecialTx txTo then ser_bytes (the (extraPayload txTo)) else []) @
        ser_uint32 (nLockTime txTo) @ ser_uint32 nHashType)"

definition SignatureHash ::
  "hash_env \<Rightarrow> CScript \<Rightarrow> CTransaction \<Rightarrow> nat \<Rightarrow> uint32 \<Rightarrow> CAmount \<Rightarrow> SigVersion \<Rightarrow>
    PrecomputedTransactionData option \<Rightarrow> uint256 option" where
  "SignatureHash H scriptCode txTo nIn nHashType amount sigver cache =
    (if nIn \<ge> length (vin txTo) \<and> nIn \<noteq> NOT_AN_INPUT then Some 1
     else if isSaplingVersion txTo \<and> sigver \<noteq> SIGVERSION_SAPLING then None
     else if sigver = SIGVERSION_SAPLING then
       Some (BLAKE2bWriter H sapling_personalization (SaplingPreimage H scriptCode txTo nIn nHashType amount cache))
     else if fHashSingle nHashType \<and> nIn \<ge> length (vout txTo) then Some 1
     else if nIn = NOT_AN_INPUT \<and> fAnyoneCanPay nHashType then None
     else Some (HashWriter H (SignatureSerialize txTo scriptCode nIn nHashType @ ser_uint32 nHashType)))"

section \<open>The transaction signature checker\<close>

definition CPubKey_GetLen :: "byte \<Rightarrow> nat" where
  "CPubKey_GetLen chHeader =
    (if chHeader = 2 \<or> chHeader = 3 then 33
     else if chHeader = 4 \<or> chHeader = 6 \<or> chHeader = 7 then 65 else 0)"

text \<open>A key that \<^verbatim>\<open>CPubKey::Set\<close> keeps; the others are invalidated.\<close>

definition CPubKey_IsValid :: "valtype \<Rightarrow> bool" where
  "CPubKey_IsValid vch =
    (let len = (if vch = [] then 0 else CPubKey_GetLen (vch ! 0)) in len \<noteq> 0 \<and> len = length vch)"

definition TxChecker_CheckSig ::
  "hash_env \<Rightarrow> (valtype \<Rightarrow> uint256 \<Rightarrow> valtype \<Rightarrow> bool) \<Rightarrow> CTransaction \<Rightarrow> nat \<Rightarrow> CAmount \<Rightarrow>
    PrecomputedTransactionData option \<Rightarrow> valtype \<Rightarrow> valtype \<Rightarrow> CScript \<Rightarrow> SigVersion \<Rightarrow> bool option" where
  "TxChecker_CheckSig H Verify txTo nIn amount precomTxData vchSigIn vchPubKey scriptCode sigver =
    (if \<not> CPubKey_IsValid vchPubKey then Some False
     else if vchSigIn = [] then Some False
     else
       let nHashType = ucast (last vchSigIn); vchSig = butlast vchSigIn
       in case SignatureHash H scriptCode txTo nIn nHashType amount sigver precomTxData of
            None \<Rightarrow> None
          | Some sighash \<Rightarrow> Some (Verify vchPubKey sighash vchSig))"

definition TxChecker_CheckLockTime :: "CTransaction \<Rightarrow> nat \<Rightarrow> CScriptNum \<Rightarrow> bool" where
  "TxChecker_CheckLockTime txTo nIn lockTime =
    (let txLock = uint (nLockTime txTo) in
     if \<not> ((txLock < LOCKTIME_THRESHOLD \<and> lockTime < LOCKTIME_THRESHOLD) \<or>
           (txLock \<ge> LOCKTIME_THRESHOLD \<and> lockTime \<ge> LOCKTIME_THRESHOLD)) then False
     else if lockTime > txLock then False
     else if CTxIn_IsFinal (vin txTo ! nIn) then False
     else True)"

text \<open>The outputs from number \<open>i\<close> on; \<open>outs\<close> is the number of outputs.\<close>

fun CheckColdStake_loop :: "CScript \<Rightarrow> nat \<Rightarrow> nat \<Rightarrow> CTxOut list \<Rightarrow> CAmount \<Rightarrow> CAmount option" where
  "CheckColdStake_loop prevoutScript outs i [] outValue = Some outValue"
| "CheckColdStake_loop prevoutScript outs i (out # rest) outValue =
    (if scriptPubKey out \<noteq> prevoutScript then
       (if i \<noteq> outs - 1 \<or> outs < 3 then None
        else CheckColdStake_loop prevoutScript outs (i + 1) rest outValue)
     else CheckColdStake_loop prevoutScript outs (i + 1) rest (wrap64 (outValue + nValue out)))"

definition TxChecker_CheckColdStake :: "CTransaction \<Rightarrow> CAmount \<Rightarrow> CScript \<Rightarrow> bool" where
  "TxChecker_CheckColdStake txTo amount prevoutScript =
    (if \<not> IsCoinStake txTo then False
     else if length (vin txTo) \<noteq> 1 then False
     else case CheckColdStake_loop prevoutScript (length (vout txTo)) 1 (drop 1 (vout txTo)) 0 of
            None \<Rightarrow> False
          | Some outValue \<Rightarrow> outValue > amount)"

definition TransactionSignatureChecker ::
  "hash_env \<Rightarrow> (valtype \<Rightarrow> uint256 \<Rightarrow> valtype \<Rightarrow> bool) \<Rightarrow> CTransaction \<Rightarrow> nat \<Rightarrow> CAmount \<Rightarrow>
    PrecomputedTransactionData option \<Rightarrow> sigchecker" where
  "TransactionSignatureChecker H Verify txTo nIn amount precomTxData =
    \<lparr>CheckSig = TxChecker_CheckSig H Verify txTo nIn amount precomTxData,
     CheckLockTime = TxChecker_CheckLockTime txTo nIn,
     CheckColdStake = TxChecker_CheckColdStake txTo amount\<rparr>"

section \<open>The cache of digests\<close>

text \<open>
  C27. Checking a signature with the digests computed in advance for the transaction gives the same result as
  computing them again.
\<close>

theorem SignatureHash_cache:
  "SignatureHash H scriptCode txTo nIn nHashType amount sigver (Some (Precompute H txTo)) =
   SignatureHash H scriptCode txTo nIn nHashType amount sigver None"
  by (simp add: SignatureHash_def SaplingPreimage_def Precompute_def cached_def split: option.splits)

section \<open>The script code\<close>

text \<open>What an instruction occupies in the script, and the script without its code separators.\<close>

function remove_codeseparators :: "CScript \<Rightarrow> CScript" where
  "remove_codeseparators it =
    (case GetOp2 it of
       (_, None) \<Rightarrow> it
     | (it', Some (opcode, _)) \<Rightarrow>
         (if opcode = OP_CODESEPARATOR then [] else take (length it - length it') it) @ remove_codeseparators it')"
  by pat_completeness auto
termination
  by (relation "measure length") (auto dest: GetOp2_shrinks [OF sym])

declare remove_codeseparators.simps [simp del]

lemma remove_codeseparators_code [code]:
  "remove_codeseparators it =
    (if it = [] then []
     else case GetOp2 it of
       (_, None) \<Rightarrow> it
     | (it', Some (opcode, _)) \<Rightarrow>
         (if opcode = OP_CODESEPARATOR then [] else take (length it - length it') it) @ remove_codeseparators it')"
  by (subst remove_codeseparators.simps) simp

lemma GetOp2_None_end: "GetOp2 it = (it', None) \<Longrightarrow> snd (script_ops it) = it"
  by (subst script_ops.simps) simp

lemma GetOp2_Some_ops: "GetOp2 it = (it', Some r) \<Longrightarrow> snd (script_ops it) = snd (script_ops it')"
  by (subst script_ops.simps) (simp add: case_prod_beta)

lemma GetOp2_codeseparator: "GetOp2 it = (it', Some (OP_CODESEPARATOR, v)) \<Longrightarrow> it = OP_CODESEPARATOR # it'"
  by (auto simp: GetOp2_def split: list.splits if_splits prod.splits option.splits)

lemma take_before_rest: "\<exists>k. it' = drop k it \<Longrightarrow> take (length it - length it') it @ it' = it"
  by (metis append_take_drop_id diff_diff_cancel diff_is_0_eq drop_all length_drop linear list.size(3) minus_nat.diff_0)

lemma SerializeScriptCode_loop_eq:
  "snd (script_ops it) = [] \<Longrightarrow> SerializeScriptCode_loop it (pre @ it) = pre @ remove_codeseparators it"
proof (induction "length it" arbitrary: it pre rule: less_induct)
  case less
  show ?case
  proof (cases "GetOp2 it")
    case (Pair it' r)
    show ?thesis
    proof (cases r)
      case None
      with Pair less.prems have "it = []" by (simp add: GetOp2_None_end)
      then show ?thesis by (subst SerializeScriptCode_loop.simps, subst remove_codeseparators.simps) simp
    next
      case (Some op)
      obtain opcode v where op: "op = (opcode, v)" by (cases op)
      have g: "GetOp2 it = (it', Some (opcode, v))" using Pair Some op by simp
      then have lt: "length it' < length it" and p: "snd (script_ops it') = []"
        using less.prems by (auto dest: GetOp2_shrinks GetOp2_Some_ops)
      show ?thesis
      proof (cases "opcode = OP_CODESEPARATOR")
        case True
        with g have "it = OP_CODESEPARATOR # it'" by (auto dest: GetOp2_codeseparator)
        with less.hyps [OF lt p, of "[]"] g True show ?thesis
          by (subst SerializeScriptCode_loop.simps, subst remove_codeseparators.simps) simp
      next
        case False
        define seg where "seg = take (length it - length it') it"
        have seg: "it = seg @ it'" using take_before_rest [OF GetOp2_suffix [OF g]] by (simp add: seg_def)
        with less.hyps [OF lt p, of "pre @ seg"] g False show ?thesis
          by (subst SerializeScriptCode_loop.simps, subst remove_codeseparators.simps)
            (simp add: seg_def [symmetric])
      qed
    qed
  qed
qed

lemma length_remove_codeseparators: "length (remove_codeseparators it) = length it - nCodeSeparators it"
  and nCodeSeparators_le: "nCodeSeparators it \<le> length it"
proof -
  have "length (remove_codeseparators it) + nCodeSeparators it = length it"
  proof (induction it rule: remove_codeseparators.induct)
    case (1 it)
    show ?case
    proof (cases "GetOp2 it")
      case (Pair it' r)
      show ?thesis
      proof (cases r)
        case None
        with Pair show ?thesis by (subst remove_codeseparators.simps, subst nCodeSeparators.simps) simp
      next
        case (Some op)
        obtain opcode v where op: "op = (opcode, v)" by (cases op)
        have IH: "length (remove_codeseparators it') + nCodeSeparators it' = length it'"
          using 1 [OF Pair [symmetric] Some op [symmetric]] .
        have g: "GetOp2 it = (it', Some (opcode, v))" using Pair Some op by simp
        moreover have "it = OP_CODESEPARATOR # it'" if "opcode = OP_CODESEPARATOR"
          using that g by (auto dest: GetOp2_codeseparator)
        ultimately show ?thesis using IH GetOp2_shrinks [OF g]
          by (subst remove_codeseparators.simps, subst nCodeSeparators.simps) auto
      qed
    qed
  qed
  then show "length (remove_codeseparators it) = length it - nCodeSeparators it" "nCodeSeparators it \<le> length it"
    by linarith+
qed

lemma SerializeScriptCode_eq:
  "snd (script_ops code) = [] \<Longrightarrow> SerializeScriptCode code = ser_bytes (remove_codeseparators code)"
  using SerializeScriptCode_loop_eq [of code "[]"]
  by (simp add: SerializeScriptCode_def ser_bytes_def length_remove_codeseparators)

text \<open>
  The script code that is signed: for a script that parses to its end, the serializer writes exactly the
  script with its code separators removed, as one byte vector with its own length.
\<close>

theorem SerializeScriptCode_removes:
  assumes "snd (script_ops scriptCode) = []"
  shows "SerializeScriptCode scriptCode = ser_bytes (remove_codeseparators scriptCode)"
  using assms by (rule SerializeScriptCode_eq)

lemma SerializeScriptCode_removes_witness:
  "SerializeScriptCode [OP_1, OP_CODESEPARATOR, OP_2] = [2, OP_1, OP_2]"
proof -
  have p: "snd (script_ops [OP_1, OP_CODESEPARATOR, OP_2]) = []" by code_simp
  have r: "ser_bytes (remove_codeseparators [OP_1, OP_CODESEPARATOR, OP_2]) = [2, OP_1, OP_2]" by code_simp
  show ?thesis using SerializeScriptCode_removes [OF p] r by simp
qed

section \<open>What a signature commits to\<close>

text \<open>The inputs as they are signed: every script blanked, but that of the input signed replaced by the code.\<close>

definition signed_inputs :: "CTransaction \<Rightarrow> nat \<Rightarrow> CScript \<Rightarrow> CTxIn list" where
  "signed_inputs tx nIn code =
    map (\<lambda>i. (vin tx ! i)\<lparr>scriptSig := if i = nIn then code else []\<rparr>) [0..<length (vin tx)]"

definition commits_all :: "uint32 \<Rightarrow> bool" where
  "commits_all nHashType \<longleftrightarrow> \<not> fAnyoneCanPay nHashType \<and> \<not> fHashSingle nHashType \<and> \<not> fHashNone nHashType"

lemma SignatureSerialize_all:
  assumes "commits_all nHashType" and "snd (script_ops code) = []"
  shows "SignatureSerialize tx code nIn nHashType =
    ser_int16 (nVersion tx) @ ser_int16 (nType tx) @
    ser_vector ser_TxIn (signed_inputs tx nIn (remove_codeseparators code)) @
    ser_vector ser_TxOut (vout tx) @ ser_uint32 (nLockTime tx)"
proof -
  have ins: "map (SerializeInput tx code nIn nHashType) [0..<length (vin tx)] =
      map ser_TxIn (signed_inputs tx nIn (remove_codeseparators code))"
    using assms
    by (simp add: SerializeInput_def ser_TxIn_def commits_all_def signed_inputs_def SerializeScriptCode_eq Let_def)
  have outs: "map (SerializeOutput tx nIn nHashType) [0..<length (vout tx)] = map ser_TxOut (vout tx)"
    using assms by (intro nth_equalityI) (simp_all add: SerializeOutput_def commits_all_def)
  have len: "length (signed_inputs tx nIn c) = length (vin tx)" for c by (simp add: signed_inputs_def)
  show ?thesis
    using assms(1) by (simp add: SignatureSerialize_def commits_all_def ser_vector_def ins outs len Let_def)
qed

lemma signed_inputs_ok:
  assumes "length (vin tx) \<le> MAX_SIZE" and "length code \<le> MAX_SIZE"
  shows "length (signed_inputs tx nIn code) \<le> MAX_SIZE \<and> list_all txin_ok (signed_inputs tx nIn code)"
  using assms by (auto simp: signed_inputs_def list_all_iff txin_ok_def MAX_SIZE_def)


definition resigned_tx :: CTransaction where
  "resigned_tx = sample_tx\<lparr>vin := map (\<lambda>txin. txin\<lparr>scriptSig := [9, 9]\<rparr>) (vin sample_tx)\<rparr>"



definition const_hash :: hash_env where
  "const_hash = \<lparr>HashWriter = (\<lambda>s. word_of_nat (le_nat s)), BLAKE2bWriter = (\<lambda>p s. word_of_nat (le_nat s))\<rparr>"


section \<open>Cold stakes\<close>

lemma CheckColdStake_loop_eq:
  assumes "i + length rest = outs" and "0 < i"
  shows "CheckColdStake_loop scr outs i rest acc =
    (if list_all (\<lambda>out. scriptPubKey out = scr) (butlast rest) \<and>
        (rest = [] \<or> scriptPubKey (last rest) = scr \<or> 3 \<le> outs)
     then Some (fold (\<lambda>out a. wrap64 (a + nValue out)) (filter (\<lambda>out. scriptPubKey out = scr) rest) acc)
     else None)"
  using assms
proof (induction rest arbitrary: i acc)
  case Nil
  then show ?case by simp
next
  case (Cons out rest)
  then have IH: "CheckColdStake_loop scr outs (Suc i) rest acc' =
    (if list_all (\<lambda>out. scriptPubKey out = scr) (butlast rest) \<and>
        (rest = [] \<or> scriptPubKey (last rest) = scr \<or> 3 \<le> outs)
     then Some (fold (\<lambda>out a. wrap64 (a + nValue out)) (filter (\<lambda>out. scriptPubKey out = scr) rest) acc')
     else None)" for acc'
    by simp
  have "i = outs - 1 \<longleftrightarrow> rest = []" using Cons.prems by auto
  then show ?case by (auto simp: IH)
qed

lemma sum_list_map_filter_le:
  "\<forall>x \<in> set xs. (0::int) \<le> f x \<Longrightarrow> sum_list (map f (filter P xs)) \<le> sum_list (map f xs)"
  by (induction xs) auto

lemma fold_wrap64_sum:
  assumes "\<forall>out \<in> set outs. 0 \<le> nValue out" and "0 \<le> acc" and "acc + sum_list (map nValue outs) < 2 ^ 63"
  shows "fold (\<lambda>out a. wrap64 (a + nValue out)) outs acc = acc + sum_list (map nValue outs)"
  using assms
proof (induction outs arbitrary: acc)
  case Nil
  then show ?case by simp
next
  case (Cons out outs)
  have "0 \<le> sum_list (map nValue outs)" using Cons.prems(1) by (intro sum_list_nonneg) auto
  then have "wrap64 (acc + nValue out) = acc + nValue out"
    using Cons.prems by (intro wrap64_id) (auto simp: int_ok_def)
  with Cons show ?case by (simp add: add.assoc)
qed

text \<open>
  C30. A cold stake gives the coins back: the checker accepts a transaction as a cold stake of a script exactly when it
  is a coinstake with one input, every output after the empty marker pays to that same script, except for
  the last one if there are at least three, and what is paid to the script exceeds the staked amount.
\<close>

theorem CheckColdStake_iff:
  assumes "\<forall>out \<in> set (vout tx). 0 \<le> nValue out" and "sum_list (map nValue (vout tx)) < 2 ^ 63"
  shows "TxChecker_CheckColdStake tx amount scr \<longleftrightarrow>
    IsCoinStake tx \<and> length (vin tx) = 1 \<and>
    (\<forall>out \<in> set (tl (butlast (vout tx))). scriptPubKey out = scr) \<and>
    (scriptPubKey (last (vout tx)) = scr \<or> 3 \<le> length (vout tx)) \<and>
    amount < sum_list (map nValue (filter (\<lambda>out. scriptPubKey out = scr) (tl (vout tx))))"
proof (cases "IsCoinStake tx")
  case True
  then have len: "2 \<le> length (vout tx)" by (simp add: IsCoinStake_def split: list.splits if_splits)
  then obtain o1 os where o: "vout tx = o1 # os" "os \<noteq> []" by (cases "vout tx"; cases "tl (vout tx)") auto
  let ?ps = "filter (\<lambda>out. scriptPubKey out = scr) os"
  have "sum_list (map nValue ?ps) \<le> sum_list (map nValue os)"
    using assms(1) o by (intro sum_list_map_filter_le) auto
  then have "0 + sum_list (map nValue ?ps) < 2 ^ 63" using assms o by auto
  then have "fold (\<lambda>out a. wrap64 (a + nValue out)) ?ps 0 = sum_list (map nValue ?ps)"
    using assms(1) o by (subst fold_wrap64_sum) auto
  then show ?thesis using True o len
    by (simp add: TxChecker_CheckColdStake_def CheckColdStake_loop_eq list_all_iff)
qed (simp add: TxChecker_CheckColdStake_def)

definition stake_tx :: CTransaction where
  "stake_tx = sample_tx\<lparr>vout := [CTxOut_new 0 [], CTxOut_new 60 [OP_1], CTxOut_new 50 [OP_1], CTxOut_new 3 [OP_2]]\<rparr>"

lemma CheckColdStake_iff_witness:
  "TxChecker_CheckColdStake stake_tx 100 [OP_1] \<and> \<not> TxChecker_CheckColdStake stake_tx 110 [OP_1]"
  using CheckColdStake_iff [of stake_tx 100 "[OP_1]"] CheckColdStake_iff [of stake_tx 110 "[OP_1]"]
  by (simp add: stake_tx_def sample_tx_def CTxOut_new_def IsCoinStake_def OutPoint_IsNull_def CTxOut_IsEmpty_def)

end
