(* ===== verification/Write_Back.thy ===== *)
theory Write_Back
  imports Prelude
begin

text \<open>
  Write-back maps: an association list of pending entries over a lookup function. The coins, the Sapling
  anchors and the Sapling nullifiers of a \<^verbatim>\<open>CCoinsViewCache\<close> are three of them. \<open>overlay\<close> is what a
  reader sees through the entries, \<open>entries_ok\<close> the well-formedness of the entries over what is below.

  The locale \<open>write_back\<close> is the contract of writing one entry to the store below; its lemmas lift it to
  writing all of them. The locale \<open>reader\<close> is the contract of a read that may fill caches; its lemmas lift
  it to the loops that read many keys.
\<close>

section \<open>Loops that thread a state\<close>

text \<open>A loop that stops at the first exception.\<close>

fun fold_sum :: "('a \<Rightarrow> 's \<Rightarrow> 'e + 's) \<Rightarrow> 'a list \<Rightarrow> 's \<Rightarrow> 'e + 's" where
  "fold_sum f [] st = Inr st"
| "fold_sum f (x # xs) st = (case f x st of Inl e \<Rightarrow> Inl e | Inr st' \<Rightarrow> fold_sum f xs st')"

text \<open>A loop that returns false at the first key for which \<open>get\<close> does.\<close>

fun all_read :: "('v \<Rightarrow> 'k \<Rightarrow> bool \<times> 'v) \<Rightarrow> 'k list \<Rightarrow> 'v \<Rightarrow> bool \<times> 'v" where
  "all_read get [] v = (True, v)"
| "all_read get (k # ks) v = (case get v k of (b, v') \<Rightarrow> if \<not> b then (False, v') else all_read get ks v')"

text \<open>A loop that accumulates what it reads.\<close>

fun fold_read :: "('v \<Rightarrow> 'k \<Rightarrow> 'r \<times> 'v) \<Rightarrow> ('r \<Rightarrow> 'a \<Rightarrow> 'a) \<Rightarrow> 'k list \<Rightarrow> 'a \<Rightarrow> 'v \<Rightarrow> 'a \<times> 'v" where
  "fold_read get f [] acc v = (acc, v)"
| "fold_read get f (k # ks) acc v = (case get v k of (r, v') \<Rightarrow> fold_read get f ks (f r acc) v')"

lemma fold_sum_total: "fold_sum (\<lambda>x st. Inr (f x st)) xs st = Inr (fold f xs st)"
  by (induction xs arbitrary: st) auto

lemma fold_concat_map: "fold f (concat (map g xs)) s = fold (\<lambda>x. fold f (g x)) xs s"
  by (induction xs arbitrary: s) auto

lemma fold_frame: "(\<And>x s. g (f x s) = g s) \<Longrightarrow> g (fold f xs s) = g s"
  by (induction xs arbitrary: s) auto

section \<open>Entries over a lookup\<close>

definition overlay :: "('e \<Rightarrow> 'v) \<Rightarrow> ('k \<times> 'e) list \<Rightarrow> ('k \<Rightarrow> 'v) \<Rightarrow> 'k \<Rightarrow> 'v" where
  "overlay val m u k = (case map_of m k of Some e \<Rightarrow> val e | None \<Rightarrow> u k)"

definition entries_ok :: "('k \<Rightarrow> 'v \<Rightarrow> 'e \<Rightarrow> bool) \<Rightarrow> ('k \<times> 'e) list \<Rightarrow> ('k \<Rightarrow> 'v) \<Rightarrow> bool" where
  "entries_ok P m u \<longleftrightarrow> distinct (map fst m) \<and> (\<forall>k e. map_of m k = Some e \<longrightarrow> P k (u k) e)"

lemma overlay_nil [simp]: "overlay val [] u = u"
  by (auto simp: overlay_def)

lemma entries_ok_nil [simp]: "entries_ok P [] u"
  by (simp add: entries_ok_def)

lemma overlay_update: "overlay val (AList.update k e m) u = (overlay val m u)(k := val e)"
  by (auto simp: overlay_def update_conv')

lemma overlay_delete: "overlay val (AList.delete k m) u = (overlay val m u)(k := u k)"
  by (auto simp: overlay_def delete_conv')

lemma overlay_hit: "map_of m k = Some e \<Longrightarrow> overlay val m u k = val e"
  by (simp add: overlay_def)

lemma overlay_miss: "map_of m k = None \<Longrightarrow> overlay val m u k = u k"
  by (simp add: overlay_def)

lemma overlay_Cons: "map_of m k = None \<Longrightarrow> overlay val ((k, e) # m) u = overlay val m (u(k := val e))"
  by (rule ext) (auto simp: overlay_def split: option.splits)

lemma entries_ok_get: "entries_ok P m u \<Longrightarrow> map_of m k = Some e \<Longrightarrow> P k (u k) e"
  by (simp add: entries_ok_def)

lemma entries_ok_update: "entries_ok P m u \<Longrightarrow> P k (u k) e \<Longrightarrow> entries_ok P (AList.update k e m) u"
  by (auto simp: entries_ok_def update_conv' distinct_update)

lemma entries_ok_delete: "entries_ok P m u \<Longrightarrow> entries_ok P (AList.delete k m) u"
  by (auto simp: entries_ok_def delete_conv' distinct_delete)

lemma overlay_fold_update:
  "overlay val (fold (\<lambda>x. AList.update (key x) e) xs m) u = (\<lambda>k. if k \<in> key ` set xs then val e else overlay val m u k)"
proof (induction xs arbitrary: m)
  case (Cons x xs)
  then show ?case by (auto simp: overlay_update fun_eq_iff)
qed simp

lemma entries_ok_fold_update:
  "(\<And>k. P k (u k) e) \<Longrightarrow> entries_ok P m u \<Longrightarrow> entries_ok P (fold (\<lambda>x. AList.update (key x) e) xs m) u"
  by (induction xs arbitrary: m) (auto intro: entries_ok_update)

lemma overlay_refill: "map_of m k = None \<Longrightarrow> (overlay val m u)(k := u k) = overlay val m u"
  by (auto simp: overlay_miss fun_eq_iff)

text \<open>Writing some of the entries: a key has its new value or its old one.\<close>

lemma entries_ok_take: "entries_ok P m u \<Longrightarrow> entries_ok P (take n m) u"
proof -
  assume ok: "entries_ok P m u"
  then have d: "distinct (map fst m)" by (simp add: entries_ok_def)
  have "map_of m k = Some e" if "map_of (take n m) k = Some e" for k e
    using that d by (metis append_take_drop_id map_add_Some_iff map_of_SomeD map_of_append map_of_eq_Some_iff in_set_takeD)
  with ok show ?thesis by (auto simp: entries_ok_def distinct_take simp flip: take_map)
qed

section \<open>The contract of writing an entry\<close>

locale write_back =
  fixes step :: "'k \<times> 'e \<Rightarrow> 's \<Rightarrow> 'err + 's"
    and good :: "'s \<Rightarrow> bool"
    and look :: "'s \<Rightarrow> 'k \<Rightarrow> 'v"
    and ok :: "'k \<Rightarrow> 'v \<Rightarrow> 'e \<Rightarrow> bool"
    and val :: "'e \<Rightarrow> 'v"
  assumes step_law: "good st \<Longrightarrow> ok k (look st k) e \<Longrightarrow>
    \<exists>st'. step (k, e) st = Inr st' \<and> good st' \<and> look st' = (look st)(k := val e)"
begin

lemma write_all:
  assumes "good st" and "entries_ok ok m (look st)"
  shows "\<exists>st'. fold_sum step m st = Inr st' \<and> good st' \<and> look st' = overlay val m (look st)"
  using assms
proof (induction m arbitrary: st)
  case (Cons ke m)
  obtain k e where ke: "ke = (k, e)" by fastforce
  have "ok k (look st k) e"
    using Cons.prems(2) by (auto simp: entries_ok_def ke split: if_splits)
  then obtain st1 where st1: "step (k, e) st = Inr st1" "good st1" "look st1 = (look st)(k := val e)"
    using step_law [OF Cons.prems(1)] by blast
  have fresh: "map_of m k = None"
    using Cons.prems(2) by (auto simp: entries_ok_def ke map_of_eq_None_iff)
  have "entries_ok ok m (look st1)"
    using Cons.prems(2) fresh by (auto simp: entries_ok_def ke st1(3) split: if_splits)
  from Cons.IH [OF st1(2) this] show ?case
    by (simp add: ke st1(1) overlay_Cons [OF fresh] flip: st1(3))
qed auto

end

text \<open>A total step is one that never raises.\<close>

locale write_back_total =
  fixes step :: "'k \<times> 'e \<Rightarrow> 's \<Rightarrow> 's"
    and good :: "'s \<Rightarrow> bool"
    and look :: "'s \<Rightarrow> 'k \<Rightarrow> 'v"
    and ok :: "'k \<Rightarrow> 'v \<Rightarrow> 'e \<Rightarrow> bool"
    and val :: "'e \<Rightarrow> 'v"
  assumes total_step_law: "good st \<Longrightarrow> ok k (look st k) e \<Longrightarrow>
    good (step (k, e) st) \<and> look (step (k, e) st) = (look st)(k := val e)"

sublocale write_back_total \<subseteq> sum: write_back "\<lambda>x st. Inr (step x st)" good look ok val
  using total_step_law by unfold_locales auto

context write_back_total
begin

lemma write_all_total:
  assumes "good st" and "entries_ok ok m (look st)"
  shows "good (fold step m st) \<and> look (fold step m st) = overlay val m (look st)"
  using sum.write_all [OF assms] by (simp add: fold_sum_total)

end

section \<open>The contract of a read\<close>

locale reader =
  fixes get :: "'v \<Rightarrow> 'k \<Rightarrow> 'r \<times> 'v"
    and good :: "'v \<Rightarrow> bool"
    and abs :: "'v \<Rightarrow> 'a"
    and answer :: "'a \<Rightarrow> 'k \<Rightarrow> 'r"
  assumes read_law: "good v \<Longrightarrow> get v k = (r, v') \<Longrightarrow> good v' \<and> abs v' = abs v \<and> r = answer (abs v) k"
begin

lemma fold_read_law:
  assumes "good v" and "fold_read get f ks acc v = (r, v')"
  shows "good v' \<and> abs v' = abs v \<and> r = fold (\<lambda>k. f (answer (abs v) k)) ks acc"
  using assms
proof (induction ks arbitrary: acc v)
  case (Cons k ks)
  obtain x v1 where x: "get v k = (x, v1)" by fastforce
  note law = read_law [OF Cons.prems(1) x]
  with Cons.IH [of v1] Cons.prems(2) show ?case
    by (simp add: x)
qed auto

end

locale bool_reader = reader get good abs answer
  for get :: "'v \<Rightarrow> 'k \<Rightarrow> bool \<times> 'v" and good :: "'v \<Rightarrow> bool" and abs :: "'v \<Rightarrow> 'a" and answer :: "'a \<Rightarrow> 'k \<Rightarrow> bool"
begin

lemma all_read_law:
  assumes "good v" and "all_read get ks v = (r, v')"
  shows "good v' \<and> abs v' = abs v \<and> r = list_all (answer (abs v)) ks"
  using assms
proof (induction ks arbitrary: v)
  case (Cons k ks)
  obtain x v1 where x: "get v k = (x, v1)" by fastforce
  note law = read_law [OF Cons.prems(1) x]
  with Cons.IH [of v1] Cons.prems(2) show ?case
    by (auto simp: x split: if_splits)
qed auto

end

end
