(* ===== verification/Coins.thy ===== *)
theory Coins
  imports Transaction Write_Back
begin

text \<open>
  The UTXO set as \<^verbatim>\<open>src/coins.h\<close>, \<^verbatim>\<open>src/coins.cpp\<close>, \<^verbatim>\<open>src/txdb.cpp\<close> and
  \<^verbatim>\<open>src/sapling/sapling_txdb.cpp\<close> implement it: a stack of write-back caches over the coin database.

  A view (the C++ class hierarchy \<^verbatim>\<open>CCoinsView\<close>) is the datatype \<open>CCoinsView\<close>: the empty base class, the
  database view, or a cache over another view; virtual dispatch is the recursion on it. The getters of a
  cache fill the caches below them, so they return the changed view. The hash maps are association lists with
  unique keys, iterated in list order. A \<^verbatim>\<open>std::logic_error\<close> and a failed assertion are \<open>Inl\<close>.

  Memory-usage estimates, the size estimate of a database batch, and the commitment tree with its root
  are parameters, the fields of \<open>coins_env\<close>.
\<close>

section \<open>Coins and cache entries\<close>

record Coin =
  coin_fCoinBase :: bool
  coin_fCoinStake :: bool
  coin_out :: CTxOut
  coin_nHeight :: uint32

definition coinEmpty :: Coin where
  "coinEmpty = \<lparr>coin_fCoinBase = False, coin_fCoinStake = False,
     coin_out = \<lparr>nValue = - 1, scriptPubKey = [], nRounds = - 10\<rparr>, coin_nHeight = 0\<rparr>"

definition Coin_Clear :: "Coin \<Rightarrow> Coin" where
  "Coin_Clear coin = coin\<lparr>coin_out := CTxOut_SetNull (coin_out coin), coin_fCoinBase := False,
     coin_fCoinStake := False, coin_nHeight := 0\<rparr>"

definition IsSpent :: "Coin \<Rightarrow> bool" where
  "IsSpent coin = CTxOut_IsNull (coin_out coin)"

text \<open>The two bits of the field \<^verbatim>\<open>flags\<close> are two fields.\<close>

record CCoinsCacheEntry =
  ce_coin :: Coin
  ce_DIRTY :: bool
  ce_FRESH :: bool

record 't CAnchorsSaplingCacheEntry =
  ae_entered :: bool
  ae_tree :: 't
  ae_DIRTY :: bool

record CNullifiersCacheEntry =
  ne_entered :: bool
  ne_DIRTY :: bool

type_synonym CCoinsMap = "(COutPoint \<times> CCoinsCacheEntry) list"
type_synonym 't CAnchorsSaplingMap = "(uint256 \<times> 't CAnchorsSaplingCacheEntry) list"
type_synonym CNullifiersMap = "(uint256 \<times> CNullifiersCacheEntry) list"

record 't CCoinsViewCache =
  hashBlock :: uint256
  cacheCoins :: CCoinsMap
  hashSaplingAnchor :: uint256
  cacheSaplingAnchors :: "'t CAnchorsSaplingMap"
  cacheSaplingNullifiers :: CNullifiersMap
  cachedCoinsUsage :: uint64

section \<open>The coin database\<close>

datatype db_key =
    DB_COIN COutPoint | DB_BEST_BLOCK | DB_HEAD_BLOCKS
  | DB_SAPLING_ANCHOR uint256 | DB_SAPLING_NULLIFIER uint256 | DB_BEST_SAPLING_ANCHOR

datatype 't db_value = DbCoin Coin | DbHash uint256 | DbHashes "uint256 list" | DbTree 't | DbBool bool

datatype 't db_op = BatchPut db_key "'t db_value" | BatchErase db_key

type_synonym 't CoinsDB = "(db_key \<times> 't db_value) list"
type_synonym 't CDBBatch = "'t db_op list"

fun apply_op :: "'t db_op \<Rightarrow> 't CoinsDB \<Rightarrow> 't CoinsDB" where
  "apply_op (BatchPut k v) db = AList.update k v db"
| "apply_op (BatchErase k) db = AList.delete k db"

text \<open>A batch is applied atomically.\<close>

definition WriteBatch :: "'t CDBBatch \<Rightarrow> 't CoinsDB \<Rightarrow> 't CoinsDB" where
  "WriteBatch batch db = fold apply_op batch db"

record 't coins_env =
  CoinUsage :: "Coin \<Rightarrow> uint64"
  TreeUsage :: "'t \<Rightarrow> uint64"
  tree_root :: "'t \<Rightarrow> uint256"
  tree_empty :: "'t"
  SizeEstimate :: "'t CDBBatch \<Rightarrow> nat"
  batch_size :: nat

definition empty_root :: "'t coins_env \<Rightarrow> uint256" where
  "empty_root E = tree_root E (tree_empty E)"

definition DB_GetCoin :: "'t CoinsDB \<Rightarrow> COutPoint \<Rightarrow> Coin option" where
  "DB_GetCoin db outpoint = (case map_of db (DB_COIN outpoint) of Some (DbCoin coin) \<Rightarrow> Some coin | _ \<Rightarrow> None)"

definition DB_HaveCoin :: "'t CoinsDB \<Rightarrow> COutPoint \<Rightarrow> bool" where
  "DB_HaveCoin db outpoint = (map_of db (DB_COIN outpoint) \<noteq> None)"

definition DB_GetBestBlock :: "'t CoinsDB \<Rightarrow> uint256" where
  "DB_GetBestBlock db = (case map_of db DB_BEST_BLOCK of Some (DbHash h) \<Rightarrow> h | _ \<Rightarrow> 0)"

definition DB_GetHeadBlocks :: "'t CoinsDB \<Rightarrow> uint256 list" where
  "DB_GetHeadBlocks db = (case map_of db DB_HEAD_BLOCKS of Some (DbHashes hs) \<Rightarrow> hs | _ \<Rightarrow> [])"

definition DB_GetSaplingAnchorAt :: "'t coins_env \<Rightarrow> 't CoinsDB \<Rightarrow> uint256 \<Rightarrow> 't option" where
  "DB_GetSaplingAnchorAt E db rt =
    (if rt = empty_root E then Some (tree_empty E)
     else case map_of db (DB_SAPLING_ANCHOR rt) of Some (DbTree t) \<Rightarrow> Some t | _ \<Rightarrow> None)"

text \<open>The value read is discarded: the presence of the key is the answer.\<close>

definition DB_GetNullifier :: "'t CoinsDB \<Rightarrow> uint256 \<Rightarrow> bool" where
  "DB_GetNullifier db nf = (case map_of db (DB_SAPLING_NULLIFIER nf) of Some (DbBool _) \<Rightarrow> True | _ \<Rightarrow> False)"

definition DB_GetBestAnchor :: "'t coins_env \<Rightarrow> 't CoinsDB \<Rightarrow> uint256" where
  "DB_GetBestAnchor E db = (case map_of db DB_BEST_SAPLING_ANCHOR of Some (DbHash h) \<Rightarrow> h | _ \<Rightarrow> empty_root E)"

section \<open>Views\<close>

datatype 't CCoinsView =
    BaseView
  | DBView "'t CoinsDB"
  | CacheView "'t CCoinsViewCache" "'t CCoinsView"

datatype coins_error = LogicError | AssertionFailed

text \<open>A new cache has nothing.\<close>

definition CCoinsViewCache_new :: "'t CCoinsViewCache" where
  "CCoinsViewCache_new = \<lparr>hashBlock = 0, cacheCoins = [], hashSaplingAnchor = 0, cacheSaplingAnchors = [],
     cacheSaplingNullifiers = [], cachedCoinsUsage = 0\<rparr>"

definition FetchCoin_insert :: "'t coins_env \<Rightarrow> COutPoint \<Rightarrow> Coin \<Rightarrow> 't CCoinsViewCache \<Rightarrow> 't CCoinsViewCache" where
  "FetchCoin_insert E outpoint tmp c =
    c\<lparr>cacheCoins := AList.update outpoint \<lparr>ce_coin = tmp, ce_DIRTY = False, ce_FRESH = IsSpent tmp\<rparr> (cacheCoins c),
      cachedCoinsUsage := cachedCoinsUsage c + CoinUsage E tmp\<rparr>"

primrec GetCoin :: "'t coins_env \<Rightarrow> 't CCoinsView \<Rightarrow> COutPoint \<Rightarrow> Coin option \<times> 't CCoinsView" where
  "GetCoin E BaseView outpoint = (None, BaseView)"
| "GetCoin E (DBView db) outpoint = (DB_GetCoin db outpoint, DBView db)"
| "GetCoin E (CacheView c base) outpoint =
    (case map_of (cacheCoins c) outpoint of
       Some entry \<Rightarrow> (Some (ce_coin entry), CacheView c base)
     | None \<Rightarrow>
         (case GetCoin E base outpoint of
            (None, base') \<Rightarrow> (None, CacheView c base')
          | (Some tmp, base') \<Rightarrow> (Some tmp, CacheView (FetchCoin_insert E outpoint tmp c) base')))"

text \<open>The iterator that \<^verbatim>\<open>FetchCoin\<close> returns is the entry it points to.\<close>

definition FetchCoin ::
  "'t coins_env \<Rightarrow> COutPoint \<Rightarrow> 't CCoinsViewCache \<Rightarrow> 't CCoinsView \<Rightarrow>
    CCoinsCacheEntry option \<times> 't CCoinsViewCache \<times> 't CCoinsView" where
  "FetchCoin E outpoint c base =
    (case map_of (cacheCoins c) outpoint of
       Some entry \<Rightarrow> (Some entry, c, base)
     | None \<Rightarrow>
         (case GetCoin E base outpoint of
            (None, base') \<Rightarrow> (None, c, base')
          | (Some tmp, base') \<Rightarrow>
              let c' = FetchCoin_insert E outpoint tmp c
              in (map_of (cacheCoins c') outpoint, c', base')))"

definition Cache_HaveCoin ::
  "'t coins_env \<Rightarrow> COutPoint \<Rightarrow> 't CCoinsViewCache \<Rightarrow> 't CCoinsView \<Rightarrow> bool \<times> 't CCoinsViewCache \<times> 't CCoinsView" where
  "Cache_HaveCoin E outpoint c base =
    (case FetchCoin E outpoint c base of
       (it, c', base') \<Rightarrow> (case it of None \<Rightarrow> False | Some entry \<Rightarrow> \<not> IsSpent (ce_coin entry), c', base'))"

primrec HaveCoin :: "'t coins_env \<Rightarrow> 't CCoinsView \<Rightarrow> COutPoint \<Rightarrow> bool \<times> 't CCoinsView" where
  "HaveCoin E BaseView outpoint = (False, BaseView)"
| "HaveCoin E (DBView db) outpoint = (DB_HaveCoin db outpoint, DBView db)"
| "HaveCoin E (CacheView c base) outpoint =
    (case Cache_HaveCoin E outpoint c base of (r, c', base') \<Rightarrow> (r, CacheView c' base'))"

primrec GetBestBlock :: "'t CCoinsView \<Rightarrow> uint256 \<times> 't CCoinsView" where
  "GetBestBlock BaseView = (0, BaseView)"
| "GetBestBlock (DBView db) = (DB_GetBestBlock db, DBView db)"
| "GetBestBlock (CacheView c base) =
    (if hashBlock c = 0 then
       (case GetBestBlock base of (h, base') \<Rightarrow> (h, CacheView (c\<lparr>hashBlock := h\<rparr>) base'))
     else (hashBlock c, CacheView c base))"

primrec GetHeadBlocks :: "'t CCoinsView \<Rightarrow> uint256 list" where
  "GetHeadBlocks BaseView = []"
| "GetHeadBlocks (DBView db) = DB_GetHeadBlocks db"
| "GetHeadBlocks (CacheView c base) = GetHeadBlocks base"

primrec GetNullifier :: "'t CCoinsView \<Rightarrow> uint256 \<Rightarrow> bool \<times> 't CCoinsView" where
  "GetNullifier BaseView nf = (False, BaseView)"
| "GetNullifier (DBView db) nf = (DB_GetNullifier db nf, DBView db)"
| "GetNullifier (CacheView c base) nf =
    (case map_of (cacheSaplingNullifiers c) nf of
       Some entry \<Rightarrow> (ne_entered entry, CacheView c base)
     | None \<Rightarrow>
         (case GetNullifier base nf of
            (tmp, base') \<Rightarrow>
              (tmp, CacheView (c\<lparr>cacheSaplingNullifiers :=
                 AList.update nf \<lparr>ne_entered = tmp, ne_DIRTY = False\<rparr> (cacheSaplingNullifiers c)\<rparr>) base')))"

primrec GetSaplingAnchorAt :: "'t coins_env \<Rightarrow> 't CCoinsView \<Rightarrow> uint256 \<Rightarrow> 't option \<times> 't CCoinsView" where
  "GetSaplingAnchorAt E BaseView rt = (None, BaseView)"
| "GetSaplingAnchorAt E (DBView db) rt = (DB_GetSaplingAnchorAt E db rt, DBView db)"
| "GetSaplingAnchorAt E (CacheView c base) rt =
    (case map_of (cacheSaplingAnchors c) rt of
       Some entry \<Rightarrow> (if ae_entered entry then Some (ae_tree entry) else None, CacheView c base)
     | None \<Rightarrow>
         (case GetSaplingAnchorAt E base rt of
            (None, base') \<Rightarrow> (None, CacheView c base')
          | (Some tree, base') \<Rightarrow>
              (Some tree, CacheView (c\<lparr>cacheSaplingAnchors :=
                   AList.update rt \<lparr>ae_entered = True, ae_tree = tree, ae_DIRTY = False\<rparr> (cacheSaplingAnchors c),
                 cachedCoinsUsage := cachedCoinsUsage c + TreeUsage E tree\<rparr>) base')))"

primrec GetBestAnchor :: "'t coins_env \<Rightarrow> 't CCoinsView \<Rightarrow> uint256 \<times> 't CCoinsView" where
  "GetBestAnchor E BaseView = (0, BaseView)"
| "GetBestAnchor E (DBView db) = (DB_GetBestAnchor E db, DBView db)"
| "GetBestAnchor E (CacheView c base) =
    (if hashSaplingAnchor c = 0 then
       (case GetBestAnchor E base of (h, base') \<Rightarrow> (h, CacheView (c\<lparr>hashSaplingAnchor := h\<rparr>) base'))
     else (hashSaplingAnchor c, CacheView c base))"

section \<open>Changing a cache\<close>

definition HaveCoinInCache :: "'t CCoinsViewCache \<Rightarrow> COutPoint \<Rightarrow> bool" where
  "HaveCoinInCache c outpoint = (map_of (cacheCoins c) outpoint \<noteq> None)"

definition AccessCoin :: "'t coins_env \<Rightarrow> 't CCoinsView \<Rightarrow> COutPoint \<Rightarrow> Coin \<times> 't CCoinsView" where
  "AccessCoin E v outpoint = (case GetCoin E v outpoint of (None, v') \<Rightarrow> (coinEmpty, v') | (Some coin, v') \<Rightarrow> (coin, v'))"

definition AddCoin ::
  "'t coins_env \<Rightarrow> COutPoint \<Rightarrow> Coin \<Rightarrow> bool \<Rightarrow> 't CCoinsViewCache \<Rightarrow> coins_error + 't CCoinsViewCache" where
  "AddCoin E outpoint coin possible_overwrite c =
    (if IsSpent coin then Inl AssertionFailed
     else if IsUnspendable (scriptPubKey (coin_out coin)) then Inr c
     else if CTxOut_IsZerocoinMint (coin_out coin) then Inr c
     else
       let it = (case map_of (cacheCoins c) outpoint of
                   None \<Rightarrow> \<lparr>ce_coin = coinEmpty, ce_DIRTY = False, ce_FRESH = False\<rparr>
                 | Some entry \<Rightarrow> entry);
           inserted = (map_of (cacheCoins c) outpoint = None);
           usage = (if \<not> inserted then cachedCoinsUsage c - CoinUsage E (ce_coin it) else cachedCoinsUsage c)
       in if \<not> possible_overwrite \<and> \<not> IsSpent (ce_coin it) then Inl LogicError
          else
            let fresh = (\<not> possible_overwrite \<and> \<not> ce_DIRTY it);
                entry = \<lparr>ce_coin = coin, ce_DIRTY = True, ce_FRESH = ce_FRESH it \<or> fresh\<rparr>
            in Inr (c\<lparr>cacheCoins := AList.update outpoint entry (cacheCoins c),
                      cachedCoinsUsage := usage + CoinUsage E coin\<rparr>))"

definition SpendCoin ::
  "'t coins_env \<Rightarrow> COutPoint \<Rightarrow> 't CCoinsViewCache \<Rightarrow> 't CCoinsView \<Rightarrow>
    Coin option \<times> 't CCoinsViewCache \<times> 't CCoinsView" where
  "SpendCoin E outpoint c base =
    (case FetchCoin E outpoint c base of
       (None, c', base') \<Rightarrow> (None, c', base')
     | (Some it, c', base') \<Rightarrow>
         let usage = cachedCoinsUsage c' - CoinUsage E (ce_coin it)
         in (Some (ce_coin it),
             (if ce_FRESH it then c'\<lparr>cacheCoins := AList.delete outpoint (cacheCoins c'), cachedCoinsUsage := usage\<rparr>
              else c'\<lparr>cacheCoins := AList.update outpoint (it\<lparr>ce_DIRTY := True, ce_coin := Coin_Clear (ce_coin it)\<rparr>) (cacheCoins c'),
                      cachedCoinsUsage := usage\<rparr>),
             base'))"

definition Uncache :: "'t coins_env \<Rightarrow> COutPoint \<Rightarrow> 't CCoinsViewCache \<Rightarrow> 't CCoinsViewCache" where
  "Uncache E outpoint c =
    (case map_of (cacheCoins c) outpoint of
       None \<Rightarrow> c
     | Some it \<Rightarrow>
         if \<not> ce_DIRTY it \<and> \<not> ce_FRESH it
         then c\<lparr>cacheCoins := AList.delete outpoint (cacheCoins c),
                cachedCoinsUsage := cachedCoinsUsage c - CoinUsage E (ce_coin it)\<rparr>
         else c)"

definition SetBestBlock :: "uint256 \<Rightarrow> 't CCoinsViewCache \<Rightarrow> 't CCoinsViewCache" where
  "SetBestBlock hashBlockIn c = c\<lparr>hashBlock := hashBlockIn\<rparr>"

definition GetCacheSize :: "'t CCoinsViewCache \<Rightarrow> nat" where
  "GetCacheSize c = length (cacheCoins c)"

definition SetNullifiers :: "CTransaction \<Rightarrow> bool \<Rightarrow> 't CCoinsViewCache \<Rightarrow> 't CCoinsViewCache" where
  "SetNullifiers tx spent c =
    (case sapData tx of
       None \<Rightarrow> c
     | Some d \<Rightarrow>
         c\<lparr>cacheSaplingNullifiers :=
             fold (\<lambda>sd. AList.update (sd_nullifier sd) \<lparr>ne_entered = spent, ne_DIRTY = True\<rparr>)
               (vShieldedSpend d) (cacheSaplingNullifiers c)\<rparr>)"

text \<open>The best anchor of the cache \<open>c\<close> over \<open>base\<close>, with the changed pair.\<close>

definition BestAnchor ::
  "'t coins_env \<Rightarrow> 't CCoinsViewCache \<Rightarrow> 't CCoinsView \<Rightarrow> uint256 \<times> 't CCoinsViewCache \<times> 't CCoinsView" where
  "BestAnchor E c base =
    (if hashSaplingAnchor c = 0 then
       (case GetBestAnchor E base of (h, base') \<Rightarrow> (h, c\<lparr>hashSaplingAnchor := h\<rparr>, base'))
     else (hashSaplingAnchor c, c, base))"

definition PushAnchor ::
  "'t coins_env \<Rightarrow> 't \<Rightarrow> 't CCoinsViewCache \<Rightarrow> 't CCoinsView \<Rightarrow> 't CCoinsViewCache \<times> 't CCoinsView" where
  "PushAnchor E tree c base =
    (case BestAnchor E c base of
       (currentRoot, c', base') \<Rightarrow>
         let newrt = tree_root E tree
         in if currentRoot \<noteq> newrt then
              (c'\<lparr>cacheSaplingAnchors :=
                   AList.update newrt \<lparr>ae_entered = True, ae_tree = tree, ae_DIRTY = True\<rparr> (cacheSaplingAnchors c'),
                 cachedCoinsUsage :=
                   (if map_of (cacheSaplingAnchors c') newrt = None
                    then cachedCoinsUsage c' + TreeUsage E tree else cachedCoinsUsage c'),
                 hashSaplingAnchor := newrt\<rparr>, base')
            else (c', base'))"

text \<open>
  \<^verbatim>\<open>PopAnchor\<close>: the assertion of \<^verbatim>\<open>BringBestAnchorIntoCache\<close> is that the tree of the current root is found; it is
  in the cache afterwards.
\<close>

definition PopAnchor ::
  "'t coins_env \<Rightarrow> uint256 \<Rightarrow> 't CCoinsViewCache \<Rightarrow> 't CCoinsView \<Rightarrow>
    coins_error + 't CCoinsViewCache \<times> 't CCoinsView" where
  "PopAnchor E newrt c base =
    (case BestAnchor E c base of
       (currentRoot, c1, base1) \<Rightarrow>
         if currentRoot \<noteq> newrt then
           (case GetSaplingAnchorAt E (CacheView c1 base1) currentRoot of
              (Some _, CacheView c2 base2) \<Rightarrow>
                (case map_of (cacheSaplingAnchors c2) currentRoot of
                   Some entry \<Rightarrow>
                     Inr (c2\<lparr>cacheSaplingAnchors :=
                               AList.update currentRoot (entry\<lparr>ae_entered := False, ae_DIRTY := True\<rparr>) (cacheSaplingAnchors c2),
                             hashSaplingAnchor := newrt\<rparr>, base2)
                 | None \<Rightarrow> Inl AssertionFailed)
            | _ \<Rightarrow> Inl AssertionFailed)
         else Inr (c1, base1))"

section \<open>Writing a cache to its base\<close>

definition BatchWriteAnchors_entry ::
  "'t coins_env \<Rightarrow> uint256 \<times> 't CAnchorsSaplingCacheEntry \<Rightarrow> 't CAnchorsSaplingMap \<times> uint64 \<Rightarrow>
    't CAnchorsSaplingMap \<times> uint64" where
  "BatchWriteAnchors_entry E child st =
    (case (child, st) of
       ((rt, e), (cacheAnchors, usage)) \<Rightarrow>
         if ae_DIRTY e then
           (case map_of cacheAnchors rt of
              None \<Rightarrow> (AList.update rt \<lparr>ae_entered = ae_entered e, ae_tree = ae_tree e, ae_DIRTY = True\<rparr> cacheAnchors,
                      usage + TreeUsage E (ae_tree e))
            | Some parent \<Rightarrow>
                if ae_entered parent \<noteq> ae_entered e
                then (AList.update rt (parent\<lparr>ae_entered := ae_entered e, ae_DIRTY := True\<rparr>) cacheAnchors, usage)
                else (cacheAnchors, usage))
         else (cacheAnchors, usage))"

definition BatchWriteNullifiers_entry ::
  "uint256 \<times> CNullifiersCacheEntry \<Rightarrow> CNullifiersMap \<Rightarrow> CNullifiersMap" where
  "BatchWriteNullifiers_entry child cacheNullifiers =
    (case child of
       (nf, e) \<Rightarrow>
         if ne_DIRTY e then
           (case map_of cacheNullifiers nf of
              None \<Rightarrow> AList.update nf \<lparr>ne_entered = ne_entered e, ne_DIRTY = True\<rparr> cacheNullifiers
            | Some parent \<Rightarrow>
                if ne_entered parent \<noteq> ne_entered e
                then AList.update nf \<lparr>ne_entered = ne_entered e, ne_DIRTY = True\<rparr> cacheNullifiers
                else cacheNullifiers)
         else cacheNullifiers)"

text \<open>One entry of the child's coins, written to the parent's cache.\<close>

definition BatchWrite_entry ::
  "'t coins_env \<Rightarrow> COutPoint \<times> CCoinsCacheEntry \<Rightarrow> CCoinsMap \<times> uint64 \<Rightarrow> coins_error + CCoinsMap \<times> uint64" where
  "BatchWrite_entry E child st =
    (case (child, st) of
       ((p, it), (coins, usage)) \<Rightarrow>
         if ce_DIRTY it then
           (case map_of coins p of
              None \<Rightarrow>
                if \<not> (ce_FRESH it \<and> IsSpent (ce_coin it)) then
                  Inr (AList.update p \<lparr>ce_coin = ce_coin it, ce_DIRTY = True, ce_FRESH = ce_FRESH it\<rparr> coins,
                       usage + CoinUsage E (ce_coin it))
                else Inr (coins, usage)
            | Some itUs \<Rightarrow>
                if ce_FRESH it \<and> \<not> IsSpent (ce_coin itUs) then Inl LogicError
                else if ce_FRESH itUs \<and> IsSpent (ce_coin it) then
                  Inr (AList.delete p coins, usage - CoinUsage E (ce_coin itUs))
                else
                  Inr (AList.update p (itUs\<lparr>ce_coin := ce_coin it, ce_DIRTY := True\<rparr>) coins,
                       usage - CoinUsage E (ce_coin itUs) + CoinUsage E (ce_coin it)))
         else Inr (coins, usage))"

definition Cache_BatchWrite ::
  "'t coins_env \<Rightarrow> CCoinsMap \<Rightarrow> uint256 \<Rightarrow> uint256 \<Rightarrow> 't CAnchorsSaplingMap \<Rightarrow> CNullifiersMap \<Rightarrow>
    't CCoinsViewCache \<Rightarrow> coins_error + 't CCoinsViewCache" where
  "Cache_BatchWrite E mapCoins hashBlockIn hashSaplingAnchorIn mapSaplingAnchors mapSaplingNullifiers c =
    (case fold_sum (BatchWrite_entry E) mapCoins (cacheCoins c, cachedCoinsUsage c) of
       Inl e \<Rightarrow> Inl e
     | Inr (coins, usage) \<Rightarrow>
         (case fold (BatchWriteAnchors_entry E) mapSaplingAnchors (cacheSaplingAnchors c, usage) of
            (anchors, usage') \<Rightarrow>
              Inr (c\<lparr>cacheCoins := coins, cachedCoinsUsage := usage', cacheSaplingAnchors := anchors,
                     cacheSaplingNullifiers := fold BatchWriteNullifiers_entry mapSaplingNullifiers (cacheSaplingNullifiers c),
                     hashSaplingAnchor := hashSaplingAnchorIn, hashBlock := hashBlockIn\<rparr>)))"

subsection \<open>The database\<close>

definition coin_op :: "COutPoint \<times> CCoinsCacheEntry \<Rightarrow> 't CDBBatch" where
  "coin_op child =
    (case child of
       (p, it) \<Rightarrow>
         if ce_DIRTY it then
           (if IsSpent (ce_coin it) then [BatchErase (DB_COIN p)] else [BatchPut (DB_COIN p) (DbCoin (ce_coin it))])
         else [])"

definition anchor_op :: "'t coins_env \<Rightarrow> uint256 \<times> 't CAnchorsSaplingCacheEntry \<Rightarrow> 't CDBBatch" where
  "anchor_op E child =
    (case child of
       (rt, e) \<Rightarrow>
         if ae_DIRTY e then
           (if \<not> ae_entered e then [BatchErase (DB_SAPLING_ANCHOR rt)]
            else if rt \<noteq> empty_root E then [BatchPut (DB_SAPLING_ANCHOR rt) (DbTree (ae_tree e))] else [])
         else [])"

definition nullifier_op :: "uint256 \<times> CNullifiersCacheEntry \<Rightarrow> 't CDBBatch" where
  "nullifier_op child =
    (case child of
       (nf, e) \<Rightarrow>
         if ne_DIRTY e then
           (if \<not> ne_entered e then [BatchErase (DB_SAPLING_NULLIFIER nf)]
            else [BatchPut (DB_SAPLING_NULLIFIER nf) (DbBool True)])
         else [])"

definition BatchWriteSapling ::
  "'t coins_env \<Rightarrow> uint256 \<Rightarrow> 't CAnchorsSaplingMap \<Rightarrow> CNullifiersMap \<Rightarrow> 't CDBBatch \<Rightarrow> 't CDBBatch" where
  "BatchWriteSapling E hashAnchor mapSaplingAnchors mapSaplingNullifiers batch =
    batch @ concat (map (anchor_op E) mapSaplingAnchors) @ concat (map nullifier_op mapSaplingNullifiers) @
    (if hashAnchor \<noteq> 0 then [BatchPut DB_BEST_SAPLING_ANCHOR (DbHash hashAnchor)] else [])"

text \<open>The coins loop: the batches written so far, in order, and the batch being filled.\<close>

fun coin_batches :: "'t coins_env \<Rightarrow> CCoinsMap \<Rightarrow> 't CDBBatch \<Rightarrow> 't CDBBatch list \<times> 't CDBBatch" where
  "coin_batches E [] batch = ([], batch)"
| "coin_batches E (child # rest) batch =
    (let batch' = batch @ coin_op child
     in if SizeEstimate E batch' > batch_size E
        then (case coin_batches E rest [] of (written, last_batch) \<Rightarrow> (batch' # written, last_batch))
        else coin_batches E rest batch')"

text \<open>All the batches of a \<^verbatim>\<open>BatchWrite\<close>, in the order they reach the disk.\<close>

definition DB_batches ::
  "'t coins_env \<Rightarrow> CCoinsMap \<Rightarrow> uint256 \<Rightarrow> uint256 \<Rightarrow> 't CAnchorsSaplingMap \<Rightarrow> CNullifiersMap \<Rightarrow>
    't CoinsDB \<Rightarrow> coins_error + 't CDBBatch list" where
  "DB_batches E mapCoins hashBlockIn hashAnchor mapSaplingAnchors mapSaplingNullifiers db =
    (if hashBlockIn = 0 then Inl AssertionFailed
     else
       let tip = DB_GetBestBlock db; old_heads = DB_GetHeadBlocks db
       in if tip = 0 \<and> length old_heads = 2 \<and> old_heads ! 0 \<noteq> hashBlockIn then Inl AssertionFailed
          else
            let old_tip = (if tip = 0 \<and> length old_heads = 2 then old_heads ! 1 else tip);
                first = [BatchErase DB_BEST_BLOCK, BatchPut DB_HEAD_BLOCKS (DbHashes [hashBlockIn, old_tip])]
            in (case coin_batches E mapCoins first of
                  (written, batch) \<Rightarrow>
                    Inr (written @
                      [BatchWriteSapling E hashAnchor mapSaplingAnchors mapSaplingNullifiers batch @
                       [BatchErase DB_HEAD_BLOCKS, BatchPut DB_BEST_BLOCK (DbHash hashBlockIn)]])))"

definition DB_BatchWrite ::
  "'t coins_env \<Rightarrow> CCoinsMap \<Rightarrow> uint256 \<Rightarrow> uint256 \<Rightarrow> 't CAnchorsSaplingMap \<Rightarrow> CNullifiersMap \<Rightarrow>
    't CoinsDB \<Rightarrow> coins_error + 't CoinsDB" where
  "DB_BatchWrite E mapCoins hashBlockIn hashAnchor mapSaplingAnchors mapSaplingNullifiers db =
    (case DB_batches E mapCoins hashBlockIn hashAnchor mapSaplingAnchors mapSaplingNullifiers db of
       Inl e \<Rightarrow> Inl e
     | Inr batches \<Rightarrow> Inr (fold WriteBatch batches db))"

definition BatchWrite ::
  "'t coins_env \<Rightarrow> CCoinsMap \<Rightarrow> uint256 \<Rightarrow> uint256 \<Rightarrow> 't CAnchorsSaplingMap \<Rightarrow> CNullifiersMap \<Rightarrow>
    't CCoinsView \<Rightarrow> coins_error + bool \<times> 't CCoinsView" where
  "BatchWrite E mapCoins hashBlockIn hashAnchor mapSaplingAnchors mapSaplingNullifiers v =
    (case v of
       BaseView \<Rightarrow> Inr (False, BaseView)
     | DBView db \<Rightarrow>
         (case DB_BatchWrite E mapCoins hashBlockIn hashAnchor mapSaplingAnchors mapSaplingNullifiers db of
            Inl e \<Rightarrow> Inl e | Inr db' \<Rightarrow> Inr (True, DBView db'))
     | CacheView c base \<Rightarrow>
         (case Cache_BatchWrite E mapCoins hashBlockIn hashAnchor mapSaplingAnchors mapSaplingNullifiers c of
            Inl e \<Rightarrow> Inl e | Inr c' \<Rightarrow> Inr (True, CacheView c' base)))"

definition Flush ::
  "'t coins_env \<Rightarrow> 't CCoinsViewCache \<Rightarrow> 't CCoinsView \<Rightarrow> coins_error + bool \<times> 't CCoinsViewCache \<times> 't CCoinsView" where
  "Flush E c base =
    (case BatchWrite E (cacheCoins c) (hashBlock c) (hashSaplingAnchor c) (cacheSaplingAnchors c)
            (cacheSaplingNullifiers c) base of
       Inl e \<Rightarrow> Inl e
     | Inr (fOk, base') \<Rightarrow>
         Inr (fOk, c\<lparr>cacheCoins := [], cacheSaplingAnchors := [], cacheSaplingNullifiers := [],
                     cachedCoinsUsage := 0\<rparr>, base'))"

section \<open>Operations on whole transactions\<close>

definition Coin_new :: "CTxOut \<Rightarrow> uint32 \<Rightarrow> bool \<Rightarrow> bool \<Rightarrow> Coin" where
  "Coin_new outIn nHeightIn fCoinBaseIn fCoinStakeIn =
    \<lparr>coin_fCoinBase = fCoinBaseIn, coin_fCoinStake = fCoinStakeIn, coin_out = outIn, coin_nHeight = nHeightIn\<rparr>"

text \<open>
  The loop of \<^verbatim>\<open>AddCoins\<close> over the outputs from index \<open>i\<close>; \<open>invalid\<close> is the set of banned outpoints
  that \<^verbatim>\<open>invalid_out\<close> loads.
\<close>

fun AddCoins_loop ::
  "'t coins_env \<Rightarrow> COutPoint list \<Rightarrow> bool \<Rightarrow> bool \<Rightarrow> uint256 \<Rightarrow> (CTxOut \<Rightarrow> Coin) \<Rightarrow> nat \<Rightarrow> CTxOut list \<Rightarrow>
    't CCoinsViewCache \<Rightarrow> 't CCoinsView \<Rightarrow> coins_error + 't CCoinsViewCache \<times> 't CCoinsView" where
  "AddCoins_loop E invalid check fSkipInvalid txid mk i [] c base = Inr (c, base)"
| "AddCoins_loop E invalid check fSkipInvalid txid mk i (txout # rest) c base =
    (let out = \<lparr>out_hash = txid, out_n = word_of_nat i\<rparr>
     in if fSkipInvalid \<and> out \<in> set invalid then
          (case SpendCoin E out c base of
             (_, c', base') \<Rightarrow> AddCoins_loop E invalid check fSkipInvalid txid mk (i + 1) rest c' base')
        else
          (case (if check then Cache_HaveCoin E out c base else (False, c, base)) of
             (overwrite, c1, base1) \<Rightarrow>
               (case AddCoin E out (mk txout) overwrite c1 of
                  Inl e \<Rightarrow> Inl e
                | Inr c2 \<Rightarrow> AddCoins_loop E invalid check fSkipInvalid txid mk (i + 1) rest c2 base1)))"

definition AddCoins ::
  "'t coins_env \<Rightarrow> (CTransaction \<Rightarrow> uint256) \<Rightarrow> COutPoint list \<Rightarrow> CTransaction \<Rightarrow> uint32 \<Rightarrow> bool \<Rightarrow> bool \<Rightarrow>
    't CCoinsViewCache \<Rightarrow> 't CCoinsView \<Rightarrow> coins_error + 't CCoinsViewCache \<times> 't CCoinsView" where
  "AddCoins E GetHash invalid tx nHeight check fSkipInvalid c base =
    AddCoins_loop E invalid check fSkipInvalid (GetHash tx)
      (\<lambda>txout. Coin_new txout nHeight (IsCoinBase tx) (IsCoinStake tx)) 0 (vout tx) c base"

definition HaveInputs :: "'t coins_env \<Rightarrow> 't CCoinsView \<Rightarrow> CTransaction \<Rightarrow> bool \<times> 't CCoinsView" where
  "HaveInputs E v tx =
    (if \<not> IsCoinBase tx \<and> \<not> HasZerocoinSpendInputs tx then all_read (HaveCoin E) (map prevout (vin tx)) v else (True, v))"

definition GetValueIn :: "'t coins_env \<Rightarrow> 't CCoinsView \<Rightarrow> CTransaction \<Rightarrow> (value_error + CAmount) \<times> 't CCoinsView" where
  "GetValueIn E v tx =
    (if IsCoinBase tx then (Inr 0, v)
     else if HasZerocoinSpendInputs tx then (Inr (GetZerocoinSpent tx), v)
     else
       (case fold_read (AccessCoin E) (\<lambda>coin nResult. wrap64 (nResult + nValue (coin_out coin))) (map prevout (vin tx)) 0 v of
          (nResult, v') \<Rightarrow>
            (case GetShieldedValueIn tx of Inl e \<Rightarrow> Inl e | Inr x \<Rightarrow> Inr (wrap64 (nResult + x)), v')))"

text \<open>The subtraction mixes \<^verbatim>\<open>int\<close> and \<^verbatim>\<open>uint32_t\<close>: it is done modulo \<open>2 ^ 32\<close> and converted back.\<close>

definition GetCoinDepthAtHeight :: "'t coins_env \<Rightarrow> 't CCoinsView \<Rightarrow> COutPoint \<Rightarrow> int \<Rightarrow> int \<times> 't CCoinsView" where
  "GetCoinDepthAtHeight E v outpoint nHeight =
    (case AccessCoin E v outpoint of
       (coin, v') \<Rightarrow>
         (if \<not> IsSpent coin then sint (word_of_int nHeight - coin_nHeight coin + 1 :: uint32) else - 1, v'))"

text \<open>A cursor walks the coin records of the database; the base class has none (a null pointer).\<close>

definition DB_Cursor :: "'t CoinsDB \<Rightarrow> Coin list" where
  "DB_Cursor db = concat (map (\<lambda>(k, x). case (k, x) of (DB_COIN _, DbCoin coin) \<Rightarrow> [coin] | _ \<Rightarrow> []) db)"

primrec Cursor :: "'t CCoinsView \<Rightarrow> Coin list option" where
  "Cursor BaseView = None"
| "Cursor (DBView db) = Some (DB_Cursor db)"
| "Cursor (CacheView c base) = Cursor base"

definition GetTotalAmount :: "'t CCoinsView \<Rightarrow> CAmount option" where
  "GetTotalAmount v =
    map_option (\<lambda>coins. fold (\<lambda>coin nTotal. if \<not> IsSpent coin then wrap64 (nTotal + nValue (coin_out coin)) else nTotal)
                             coins 0) (Cursor v)"

fun PruneInvalidEntries_loop ::
  "'t coins_env \<Rightarrow> COutPoint list \<Rightarrow> 't CCoinsViewCache \<Rightarrow> 't CCoinsView \<Rightarrow> 't CCoinsViewCache \<times> 't CCoinsView" where
  "PruneInvalidEntries_loop E [] c base = (c, base)"
| "PruneInvalidEntries_loop E (out # rest) c base =
    (case Cache_HaveCoin E out c base of
       (have_coin, c1, base1) \<Rightarrow>
         if have_coin then
           (case SpendCoin E out c1 base1 of (_, c2, base2) \<Rightarrow> PruneInvalidEntries_loop E rest c2 base2)
         else PruneInvalidEntries_loop E rest c1 base1)"

definition PruneInvalidEntries ::
  "'t coins_env \<Rightarrow> COutPoint list \<Rightarrow> 't CCoinsViewCache \<Rightarrow> 't CCoinsView \<Rightarrow>
    coins_error + bool \<times> 't CCoinsViewCache \<times> 't CCoinsView" where
  "PruneInvalidEntries E invalid c base =
    (case PruneInvalidEntries_loop E invalid c base of (c', base') \<Rightarrow> Flush E c' base')"

definition MAX_OUTPUTS_PER_BLOCK :: nat where
  "MAX_OUTPUTS_PER_BLOCK = 2000000 div length (ser_TxOut \<lparr>nValue = - 1, scriptPubKey = [], nRounds = - 10\<rparr>)"

text \<open>The search from output \<open>n\<close>, with \<open>k\<close> outputs left before the bound.\<close>

fun AccessByTxid_loop :: "'t coins_env \<Rightarrow> uint256 \<Rightarrow> nat \<Rightarrow> nat \<Rightarrow> 't CCoinsView \<Rightarrow> Coin \<times> 't CCoinsView" where
  "AccessByTxid_loop E txid n 0 v = (coinEmpty, v)"
| "AccessByTxid_loop E txid n (Suc k) v =
    (case AccessCoin E v \<lparr>out_hash = txid, out_n = word_of_nat n\<rparr> of
       (alternate, v') \<Rightarrow> if \<not> IsSpent alternate then (alternate, v') else AccessByTxid_loop E txid (n + 1) k v')"

definition AccessByTxid :: "'t coins_env \<Rightarrow> 't CCoinsView \<Rightarrow> uint256 \<Rightarrow> Coin \<times> 't CCoinsView" where
  "AccessByTxid E v txid = AccessByTxid_loop E txid 0 MAX_OUTPUTS_PER_BLOCK v"

definition SpendRequirement :: "'t coins_env \<Rightarrow> 't CCoinsView \<Rightarrow> SpendDescription \<Rightarrow> bool \<times> 't CCoinsView" where
  "SpendRequirement E v sd =
    (case GetNullifier v (sd_nullifier sd) of
       (spent, v1) \<Rightarrow>
         if spent then (False, v1)
         else (case GetSaplingAnchorAt E v1 (sd_anchor sd) of (tree, v2) \<Rightarrow> (tree \<noteq> None, v2)))"

definition HaveShieldedRequirements :: "'t coins_env \<Rightarrow> 't CCoinsView \<Rightarrow> CTransaction \<Rightarrow> bool \<times> 't CCoinsView" where
  "HaveShieldedRequirements E v tx =
    (if IsShieldedTx tx then
       (case sapData tx of Some d \<Rightarrow> all_read (SpendRequirement E) (vShieldedSpend d) v | None \<Rightarrow> (True, v))
     else (True, v))"

end
