(* ===== verification/Coins_Correct.thy ===== *)
theory Coins_Correct
  imports Coins
begin

text \<open>
  The contract of the coin views. \<open>abs_view\<close> reads the chain state a view stands for: the unspent coins, the
  spent nullifiers, the known anchors, the best block and the best anchor. \<open>view_ok\<close> is the invariant of the
  stack of caches: an entry that is not dirty repeats what is below it, and a fresh entry hides nothing.
  Every operation is refined to its effect on \<open>abs_view\<close>.
\<close>

section \<open>What a view stands for\<close>

record chainstate =
  cs_utxo :: "COutPoint \<Rightarrow> Coin option"
  cs_nullifiers :: "uint256 \<Rightarrow> bool"
  cs_anchors :: "uint256 \<Rightarrow> bool"
  cs_best_block :: uint256
  cs_best_anchor :: uint256

definition unspent :: "Coin \<Rightarrow> Coin option" where
  "unspent coin = (if IsSpent coin then None else Some coin)"

abbreviation entry_coin :: "CCoinsCacheEntry \<Rightarrow> Coin option" where
  "entry_coin e \<equiv> unspent (ce_coin e)"

definition db_utxo :: "'t CoinsDB \<Rightarrow> COutPoint \<Rightarrow> Coin option" where
  "db_utxo db p = Option.bind (DB_GetCoin db p) unspent"

definition db_anchor :: "'t coins_env \<Rightarrow> 't CoinsDB \<Rightarrow> uint256 \<Rightarrow> bool" where
  "db_anchor E db rt \<longleftrightarrow> DB_GetSaplingAnchorAt E db rt \<noteq> None"

primrec utxo :: "'t CCoinsView \<Rightarrow> COutPoint \<Rightarrow> Coin option" where
  "utxo BaseView = (\<lambda>_. None)"
| "utxo (DBView db) = db_utxo db"
| "utxo (CacheView c base) = overlay entry_coin (cacheCoins c) (utxo base)"

primrec nullifiers :: "'t CCoinsView \<Rightarrow> uint256 \<Rightarrow> bool" where
  "nullifiers BaseView = (\<lambda>_. False)"
| "nullifiers (DBView db) = DB_GetNullifier db"
| "nullifiers (CacheView c base) = overlay ne_entered (cacheSaplingNullifiers c) (nullifiers base)"

primrec anchors :: "'t coins_env \<Rightarrow> 't CCoinsView \<Rightarrow> uint256 \<Rightarrow> bool" where
  "anchors E BaseView = (\<lambda>_. False)"
| "anchors E (DBView db) = db_anchor E db"
| "anchors E (CacheView c base) = overlay ae_entered (cacheSaplingAnchors c) (anchors E base)"

primrec best_block :: "'t CCoinsView \<Rightarrow> uint256" where
  "best_block BaseView = 0"
| "best_block (DBView db) = DB_GetBestBlock db"
| "best_block (CacheView c base) = (if hashBlock c = 0 then best_block base else hashBlock c)"

primrec best_anchor :: "'t coins_env \<Rightarrow> 't CCoinsView \<Rightarrow> uint256" where
  "best_anchor E BaseView = 0"
| "best_anchor E (DBView db) = DB_GetBestAnchor E db"
| "best_anchor E (CacheView c base) = (if hashSaplingAnchor c = 0 then best_anchor E base else hashSaplingAnchor c)"

definition abs_view :: "'t coins_env \<Rightarrow> 't CCoinsView \<Rightarrow> chainstate" where
  "abs_view E v = \<lparr>cs_utxo = utxo v, cs_nullifiers = nullifiers v, cs_anchors = anchors E v,
     cs_best_block = best_block v, cs_best_anchor = best_anchor E v\<rparr>"

section \<open>The invariant\<close>

definition coin_ok :: "COutPoint \<Rightarrow> Coin option \<Rightarrow> CCoinsCacheEntry \<Rightarrow> bool" where
  "coin_ok p below e \<longleftrightarrow> (ce_FRESH e \<longrightarrow> below = None) \<and> (\<not> ce_DIRTY e \<longrightarrow> entry_coin e = below) \<and>
    (IsSpent (ce_coin e) \<longrightarrow> ce_coin e = coinEmpty)"

definition nullifier_ok :: "uint256 \<Rightarrow> bool \<Rightarrow> CNullifiersCacheEntry \<Rightarrow> bool" where
  "nullifier_ok nf below e \<longleftrightarrow> (\<not> ne_DIRTY e \<longrightarrow> ne_entered e = below)"

definition anchor_ok :: "'t coins_env \<Rightarrow> uint256 \<Rightarrow> bool \<Rightarrow> 't CAnchorsSaplingCacheEntry \<Rightarrow> bool" where
  "anchor_ok E rt below e \<longleftrightarrow> tree_root E (ae_tree e) = rt \<and> (\<not> ae_DIRTY e \<longrightarrow> ae_entered e = below) \<and>
    (rt = empty_root E \<longrightarrow> ae_entered e)"

definition cache_ok ::
  "'t coins_env \<Rightarrow> (COutPoint \<Rightarrow> Coin option) \<Rightarrow> (uint256 \<Rightarrow> bool) \<Rightarrow> (uint256 \<Rightarrow> bool) \<Rightarrow> 't CCoinsViewCache \<Rightarrow> bool" where
  "cache_ok E u nfs ans c \<longleftrightarrow> entries_ok coin_ok (cacheCoins c) u \<and>
    entries_ok nullifier_ok (cacheSaplingNullifiers c) nfs \<and> entries_ok (anchor_ok E) (cacheSaplingAnchors c) ans"

text \<open>The database holds unspent coins, each anchor under its root, and values of the type of their key.\<close>

fun record_ok :: "'t coins_env \<Rightarrow> db_key \<Rightarrow> 't db_value \<Rightarrow> bool" where
  "record_ok E (DB_COIN p) (DbCoin coin) = (\<not> IsSpent coin)"
| "record_ok E (DB_SAPLING_ANCHOR rt) (DbTree t) = (tree_root E t = rt)"
| "record_ok E (DB_SAPLING_NULLIFIER nf) (DbBool b) = True"
| "record_ok E DB_BEST_BLOCK (DbHash h) = True"
| "record_ok E DB_HEAD_BLOCKS (DbHashes hs) = True"
| "record_ok E DB_BEST_SAPLING_ANCHOR (DbHash h) = True"
| "record_ok E _ _ = False"

definition db_ok :: "'t coins_env \<Rightarrow> 't CoinsDB \<Rightarrow> bool" where
  "db_ok E db \<longleftrightarrow> entries_ok (\<lambda>k _. record_ok E k) db (\<lambda>_. ())"

primrec view_ok :: "'t coins_env \<Rightarrow> 't CCoinsView \<Rightarrow> bool" where
  "view_ok E BaseView = True"
| "view_ok E (DBView db) = db_ok E db"
| "view_ok E (CacheView c base) = (cache_ok E (utxo base) (nullifiers base) (anchors E base) c \<and> view_ok E base)"

section \<open>Reading\<close>

lemma coinEmpty_spent [simp]: "IsSpent coinEmpty"
  by (simp add: coinEmpty_def IsSpent_def CTxOut_IsNull_def)

lemma Coin_Clear_eq [simp]: "Coin_Clear coin = coinEmpty"
  by (cases coin) (simp add: Coin_Clear_def coinEmpty_def CTxOut_SetNull_def)

lemma unspent_empty [simp]: "unspent coinEmpty = None"
  by (simp add: unspent_def)

definition coin_or_empty :: "Coin option \<Rightarrow> Coin" where
  "coin_or_empty r = (case r of None \<Rightarrow> coinEmpty | Some coin \<Rightarrow> coin)"

text \<open>A coin of a well-formed view is unspent or the empty coin.\<close>

definition proper :: "Coin \<Rightarrow> bool" where
  "proper coin \<longleftrightarrow> (IsSpent coin \<longrightarrow> coin = coinEmpty)"

lemma proper_coin: "proper coin \<Longrightarrow> coin_or_empty (unspent coin) = coin"
  by (auto simp: proper_def unspent_def coin_or_empty_def)

lemma abs_view_eq_iff:
  "abs_view E v = abs_view E w \<longleftrightarrow> utxo v = utxo w \<and> nullifiers v = nullifiers w \<and> anchors E v = anchors E w \<and>
    best_block v = best_block w \<and> best_anchor E v = best_anchor E w"
  by (auto simp: abs_view_def)

text \<open>A view whose base was refilled stands for the same state.\<close>

lemma abs_CacheView_cong:
  assumes "abs_view E base' = abs_view E base"
  shows "abs_view E (CacheView c base') = abs_view E (CacheView c base)"
    and "view_ok E (CacheView c base') \<longleftrightarrow> view_ok E base' \<and> cache_ok E (utxo base) (nullifiers base) (anchors E base) c"
  using assms by (auto simp: abs_view_eq_iff)

lemma GetCoin_law:
  "view_ok E v \<Longrightarrow> GetCoin E v p = (r, v') \<Longrightarrow> view_ok E v' \<and> abs_view E v' = abs_view E v \<and> Option.bind r unspent = utxo v p \<and>
    pred_option proper r"
proof (induction v arbitrary: r v')
  case (DBView db)
  then have "record_ok E (DB_COIN p) x" if "map_of db (DB_COIN p) = Some x" for x
    using that by (auto simp: db_ok_def dest: entries_ok_get)
  with DBView show ?case
    by (auto simp: db_utxo_def DB_GetCoin_def proper_def split: option.splits db_value.splits)
next
  case (CacheView c base)
  show ?case
  proof (cases "map_of (cacheCoins c) p")
    case (Some e)
    then have "coin_ok p (utxo base p) e" using CacheView.prems(1) by (auto simp: cache_ok_def dest: entries_ok_get)
    with Some CacheView.prems show ?thesis by (auto simp: overlay_hit coin_ok_def proper_def)
  next
    case miss: None
    obtain r1 b1 where g: "GetCoin E base p = (r1, b1)" by fastforce
    with CacheView have ih: "view_ok E b1" "abs_view E b1 = abs_view E base" "Option.bind r1 unspent = utxo base p"
      "pred_option proper r1" by auto
    have same: "abs_view E (CacheView c b1) = abs_view E (CacheView c base)" using ih(2) by (rule abs_CacheView_cong)
    have ok: "cache_ok E (utxo base) (nullifiers base) (anchors E base) c" using CacheView.prems by simp
    show ?thesis
    proof (cases r1)
      case None
      with CacheView.prems g miss ih same ok show ?thesis
        by (auto simp: overlay_miss abs_view_eq_iff)
    next
      case (Some tmp)
      let ?c = "FetchCoin_insert E p tmp c"
      have below: "utxo b1 = utxo base" using ih(2) by (simp add: abs_view_eq_iff)
      have u: "utxo base p = unspent tmp" using ih(3) Some by simp
      have "utxo (CacheView ?c b1) = utxo (CacheView c base)"
        using overlay_refill [OF miss, of entry_coin "utxo base"]
        by (simp add: FetchCoin_insert_def overlay_update below u)
      moreover have "cache_ok E (utxo base) (nullifiers base) (anchors E base) ?c"
        using ok u ih(4) Some
        by (auto simp: cache_ok_def FetchCoin_insert_def coin_ok_def unspent_def proper_def intro!: entries_ok_update)
      moreover have "v' = CacheView ?c b1" "r = Some tmp"
        using CacheView.prems g Some miss by auto
      ultimately show ?thesis
        using ih u miss Some
        by (simp add: FetchCoin_insert_def overlay_miss abs_view_eq_iff)
    qed
  qed
qed auto

lemma GetNullifier_law:
  "view_ok E v \<Longrightarrow> GetNullifier v nf = (r, v') \<Longrightarrow> view_ok E v' \<and> abs_view E v' = abs_view E v \<and> r = nullifiers v nf"
proof (induction v arbitrary: r v')
  case (CacheView c base)
  show ?case
  proof (cases "map_of (cacheSaplingNullifiers c) nf")
    case (Some e)
    with CacheView.prems show ?thesis by (auto simp: overlay_hit)
  next
    case None
    obtain r1 b1 where g: "GetNullifier base nf = (r1, b1)" by fastforce
    with CacheView have ih: "view_ok E b1" "abs_view E b1 = abs_view E base" "r1 = nullifiers base nf" by auto
    have "entries_ok nullifier_ok (AList.update nf \<lparr>ne_entered = r1, ne_DIRTY = False\<rparr> (cacheSaplingNullifiers c))
        (nullifiers base)"
      using CacheView.prems(1) ih(3) by (intro entries_ok_update) (auto simp: cache_ok_def nullifier_ok_def)
    then show ?thesis
      using CacheView.prems g ih None overlay_refill [OF None, of ne_entered "nullifiers base"]
      by (auto simp: overlay_update overlay_miss abs_view_eq_iff cache_ok_def fun_upd_idem_iff)
  qed
qed auto

lemma GetSaplingAnchorAt_law:
  "view_ok E v \<Longrightarrow> GetSaplingAnchorAt E v rt = (r, v') \<Longrightarrow>
    view_ok E v' \<and> abs_view E v' = abs_view E v \<and> (r \<noteq> None \<longleftrightarrow> anchors E v rt) \<and> (\<forall>t. r = Some t \<longrightarrow> tree_root E t = rt)"
proof (induction v arbitrary: r v')
  case (DBView db)
  then have "record_ok E (DB_SAPLING_ANCHOR rt) x" if "map_of db (DB_SAPLING_ANCHOR rt) = Some x" for x
    using that by (auto simp: db_ok_def dest: entries_ok_get)
  with DBView show ?case
    by (auto simp: db_anchor_def DB_GetSaplingAnchorAt_def empty_root_def split: option.splits db_value.splits if_splits)
next
  case (CacheView c base)
  show ?case
  proof (cases "map_of (cacheSaplingAnchors c) rt")
    case (Some e)
    then have "anchor_ok E rt (anchors E base rt) e"
      using CacheView.prems(1) by (auto simp: cache_ok_def dest: entries_ok_get)
    with Some CacheView.prems show ?thesis by (auto simp: overlay_hit anchor_ok_def split: if_splits)
  next
    case None
    obtain r1 b1 where g: "GetSaplingAnchorAt E base rt = (r1, b1)" by fastforce
    with CacheView have ih: "view_ok E b1" "abs_view E b1 = abs_view E base" "r1 \<noteq> None \<longleftrightarrow> anchors E base rt"
      "\<forall>t. r1 = Some t \<longrightarrow> tree_root E t = rt" by auto
    show ?thesis
    proof (cases r1)
      case (Some t)
      then have below: "anchors E base rt" "tree_root E t = rt" using ih by auto
      then have "entries_ok (anchor_ok E) (AList.update rt \<lparr>ae_entered = True, ae_tree = t, ae_DIRTY = False\<rparr>
          (cacheSaplingAnchors c)) (anchors E base)"
        using CacheView.prems(1) by (intro entries_ok_update) (auto simp: cache_ok_def anchor_ok_def)
      moreover have "(overlay ae_entered (cacheSaplingAnchors c) (anchors E base))(rt := True) =
          overlay ae_entered (cacheSaplingAnchors c) (anchors E base)"
        using overlay_refill [OF None, of ae_entered "anchors E base"] below by simp
      ultimately show ?thesis
        using CacheView.prems g ih None Some below
        by (auto simp: overlay_update overlay_miss abs_view_eq_iff cache_ok_def)
    qed (use CacheView.prems g ih None in \<open>auto simp: overlay_miss abs_view_eq_iff cache_ok_def\<close>)
  qed
qed auto

lemma GetBestBlock_law:
  "view_ok E v \<Longrightarrow> GetBestBlock v = (r, v') \<Longrightarrow> view_ok E v' \<and> abs_view E v' = abs_view E v \<and> r = best_block v"
  by (induction v arbitrary: r v') (fastforce simp: abs_view_eq_iff cache_ok_def split: if_splits prod.splits)+

lemma GetBestAnchor_law:
  "view_ok E v \<Longrightarrow> GetBestAnchor E v = (r, v') \<Longrightarrow> view_ok E v' \<and> abs_view E v' = abs_view E v \<and> r = best_anchor E v"
  by (induction v arbitrary: r v') (fastforce simp: abs_view_eq_iff cache_ok_def split: if_splits prod.splits)+

lemma AccessCoin_law:
  assumes "view_ok E v" and "AccessCoin E v p = (r, v')"
  shows "view_ok E v' \<and> abs_view E v' = abs_view E v \<and> r = coin_or_empty (cs_utxo (abs_view E v) p)"
proof -
  obtain r1 v1 where g: "GetCoin E v p = (r1, v1)" by fastforce
  with assms(2) GetCoin_law [OF assms(1) g] show ?thesis
    by (cases r1) (auto simp: AccessCoin_def abs_view_def coin_or_empty_def proper_def unspent_def split: if_splits option.splits)
qed

lemma FetchCoin_GetCoin:
  assumes "FetchCoin E p c base = (it, c', base')"
  shows "GetCoin E (CacheView c base) p = (map_option ce_coin it, CacheView c' base') \<and> map_of (cacheCoins c') p = it"
proof (cases "map_of (cacheCoins c) p")
  case None
  with assms show ?thesis
    by (auto simp: FetchCoin_def FetchCoin_insert_def update_conv' Let_def split: option.splits prod.splits)
next
  case (Some e)
  then have "it = Some e" "c' = c" "base' = base" using assms by (auto simp: FetchCoin_def)
  with Some show ?thesis by simp
qed

lemma FetchCoin_law:
  assumes "view_ok E (CacheView c base)" and "FetchCoin E p c base = (it, c', base')"
  shows "view_ok E (CacheView c' base') \<and> abs_view E (CacheView c' base') = abs_view E (CacheView c base) \<and>
    map_of (cacheCoins c') p = it \<and> Option.bind it entry_coin = utxo (CacheView c base) p"
proof -
  note F = FetchCoin_GetCoin [OF assms(2)]
  show ?thesis
    using GetCoin_law [OF assms(1) F [THEN conjunct1]] F by (cases it) auto
qed

lemma Cache_HaveCoin_law:
  assumes "view_ok E (CacheView c base)" and "Cache_HaveCoin E p c base = (r, c', base')"
  shows "view_ok E (CacheView c' base') \<and> abs_view E (CacheView c' base') = abs_view E (CacheView c base) \<and>
    r = (utxo (CacheView c base) p \<noteq> None)"
proof -
  obtain it c1 b1 where f: "FetchCoin E p c base = (it, c1, b1)" by (cases "FetchCoin E p c base") auto
  have "r = (Option.bind it entry_coin \<noteq> None)" "c1 = c'" "b1 = base'"
    using assms(2) f by (auto simp: Cache_HaveCoin_def unspent_def split: option.splits if_splits)
  with FetchCoin_law [OF assms(1) f] show ?thesis by simp
qed

lemma HaveCoin_law:
  assumes "view_ok E v" and "HaveCoin E v p = (r, v')"
  shows "view_ok E v' \<and> abs_view E v' = abs_view E v \<and> r = (cs_utxo (abs_view E v) p \<noteq> None)"
proof (cases v)
  case (DBView db)
  then have "record_ok E (DB_COIN p) x" if "map_of db (DB_COIN p) = Some x" for x
    using that assms(1) by (auto simp: db_ok_def dest: entries_ok_get)
  with DBView assms show ?thesis
    by (auto simp: abs_view_def db_utxo_def DB_HaveCoin_def DB_GetCoin_def unspent_def
        split: option.splits db_value.splits)
next
  case (CacheView c base)
  obtain h c1 b1 where h: "Cache_HaveCoin E p c base = (h, c1, b1)" by (cases "Cache_HaveCoin E p c base") auto
  with CacheView assms Cache_HaveCoin_law [OF _ h] show ?thesis by (auto simp: abs_view_def)
qed (use assms in \<open>auto simp: abs_view_def\<close>)

lemma SpendRequirement_law:
  assumes "view_ok E v" and "SpendRequirement E v sd = (r, v')"
  shows "view_ok E v' \<and> abs_view E v' = abs_view E v \<and>
    r = (\<not> cs_nullifiers (abs_view E v) (sd_nullifier sd) \<and> cs_anchors (abs_view E v) (sd_anchor sd))"
proof -
  obtain b v1 where n: "GetNullifier v (sd_nullifier sd) = (b, v1)" by fastforce
  obtain t v2 where a: "GetSaplingAnchorAt E v1 (sd_anchor sd) = (t, v2)" by fastforce
  note N = GetNullifier_law [OF assms(1) n]
  note A = GetSaplingAnchorAt_law [OF N [THEN conjunct1] a]
  from assms(2) N A show ?thesis
    by (auto simp: SpendRequirement_def n a abs_view_eq_iff abs_view_def split: if_splits)
qed

text \<open>The four reads keep the contract of a reader; the loops over many keys inherit it.\<close>

interpretation have_coin: bool_reader "HaveCoin E" "view_ok E" "abs_view E" "\<lambda>s p. cs_utxo s p \<noteq> None" for E
  using HaveCoin_law by unfold_locales fastforce

interpretation access_coin: reader "AccessCoin E" "view_ok E" "abs_view E" "\<lambda>s p. coin_or_empty (cs_utxo s p)" for E
  using AccessCoin_law by unfold_locales fastforce

interpretation spend_requirement: bool_reader "SpendRequirement E" "view_ok E" "abs_view E"
  "\<lambda>s sd. \<not> cs_nullifiers s (sd_nullifier sd) \<and> cs_anchors s (sd_anchor sd)" for E
  using SpendRequirement_law by unfold_locales fastforce

section \<open>Updates\<close>

text \<open>One entry of a cache over \<open>base\<close> is replaced or dropped.\<close>

lemma put_coin:
  assumes "view_ok E (CacheView c base)" and "coin_ok p (utxo base p) e"
  shows "view_ok E (CacheView (c\<lparr>cacheCoins := AList.update p e (cacheCoins c), cachedCoinsUsage := n\<rparr>) base)"
    and "abs_view E (CacheView (c\<lparr>cacheCoins := AList.update p e (cacheCoins c), cachedCoinsUsage := n\<rparr>) base) =
      (abs_view E (CacheView c base))\<lparr>cs_utxo := (utxo (CacheView c base))(p := entry_coin e)\<rparr>"
  using assms by (auto simp: cache_ok_def abs_view_def overlay_update intro: entries_ok_update)

lemma drop_coin:
  assumes "view_ok E (CacheView c base)"
  shows "view_ok E (CacheView (c\<lparr>cacheCoins := AList.delete p (cacheCoins c), cachedCoinsUsage := n\<rparr>) base)"
    and "abs_view E (CacheView (c\<lparr>cacheCoins := AList.delete p (cacheCoins c), cachedCoinsUsage := n\<rparr>) base) =
      (abs_view E (CacheView c base))\<lparr>cs_utxo := (utxo (CacheView c base))(p := utxo base p)\<rparr>"
  using assms by (auto simp: cache_ok_def abs_view_def overlay_delete intro: entries_ok_delete)

lemma cached_coin_ok:
  "view_ok E (CacheView c base) \<Longrightarrow> map_of (cacheCoins c) p = Some e \<Longrightarrow>
    coin_ok p (utxo base p) e \<and> utxo (CacheView c base) p = entry_coin e"
  by (auto simp: cache_ok_def overlay_hit dest: entries_ok_get)

definition spendable :: "CTxOut \<Rightarrow> bool" where
  "spendable out \<longleftrightarrow> \<not> IsUnspendable (scriptPubKey out) \<and> \<not> CTxOut_IsZerocoinMint out"

lemma AddCoin_law:
  assumes ok: "view_ok E (CacheView c base)" and coin: "\<not> IsSpent coin" "spendable (coin_out coin)"
    and new: "possible_overwrite \<or> utxo (CacheView c base) p = None"
  shows "\<exists>c'. AddCoin E p coin possible_overwrite c = Inr c' \<and> view_ok E (CacheView c' base) \<and>
    abs_view E (CacheView c' base) = (abs_view E (CacheView c base))\<lparr>cs_utxo := (utxo (CacheView c base))(p \<mapsto> coin)\<rparr>"
proof (cases "map_of (cacheCoins c) p")
  case None
  then have "coin_ok p (utxo base p) \<lparr>ce_coin = coin, ce_DIRTY = True, ce_FRESH = \<not> possible_overwrite\<rparr>"
    using new coin by (auto simp: coin_ok_def overlay_miss)
  from put_coin [OF ok this] show ?thesis
    using None coin by (simp add: AddCoin_def spendable_def unspent_def Let_def)
next
  case (Some it)
  let ?e = "\<lparr>ce_coin = coin, ce_DIRTY = True, ce_FRESH = ce_FRESH it \<or> (\<not> possible_overwrite \<and> \<not> ce_DIRTY it)\<rparr>"
  note C = cached_coin_ok [OF ok Some]
  then have "coin_ok p (utxo base p) ?e" using new coin by (auto simp: coin_ok_def)
  moreover have "possible_overwrite \<or> IsSpent (ce_coin it)" using new C by (auto simp: unspent_def split: if_splits)
  ultimately show ?thesis
    using put_coin [OF ok, of p ?e] Some coin by (auto simp: AddCoin_def spendable_def unspent_def Let_def)
qed

text \<open>An output that can never be spent is not stored.\<close>

lemma AddCoin_skip: "\<not> IsSpent coin \<Longrightarrow> \<not> spendable (coin_out coin) \<Longrightarrow> AddCoin E p coin possible_overwrite c = Inr c"
  by (auto simp: AddCoin_def spendable_def)

lemma SpendCoin_law:
  assumes ok: "view_ok E (CacheView c base)" and s: "SpendCoin E p c base = (r, c', base')"
  shows "view_ok E (CacheView c' base') \<and>
    abs_view E (CacheView c' base') = (abs_view E (CacheView c base))\<lparr>cs_utxo := (utxo (CacheView c base))(p := None)\<rparr> \<and>
    coin_or_empty r = coin_or_empty (utxo (CacheView c base) p)"
proof -
  obtain it c1 b1 where f: "FetchCoin E p c base = (it, c1, b1)" by (cases "FetchCoin E p c base") auto
  have F: "view_ok E (CacheView c1 b1)" "abs_view E (CacheView c1 b1) = abs_view E (CacheView c base)"
    "map_of (cacheCoins c1) p = it" "Option.bind it entry_coin = utxo (CacheView c base) p"
    using FetchCoin_law [OF ok f] by auto
  have u: "utxo (CacheView c1 b1) = utxo (CacheView c base)" using F(2) by (simp only: abs_view_eq_iff)
  show ?thesis
  proof (cases it)
    case None
    then have "(abs_view E (CacheView c base))\<lparr>cs_utxo := (utxo (CacheView c base))(p := None)\<rparr> = abs_view E (CacheView c base)"
      using F(4) by (simp add: abs_view_def fun_upd_idem)
    with None s f F show ?thesis by (auto simp: SpendCoin_def coin_or_empty_def)
  next
    case (Some e)
    note C = cached_coin_ok [OF F(1) F(3) [unfolded Some]]
    have r: "r = Some (ce_coin e)" using s f Some by (simp add: SpendCoin_def Let_def)
    have "utxo (CacheView c base) p = entry_coin e" using F(4) Some by simp
    then have "coin_or_empty r = coin_or_empty (utxo (CacheView c base) p)"
      using proper_coin [of "ce_coin e"] C r by (simp add: coin_ok_def proper_def coin_or_empty_def del: utxo.simps)
    moreover have "coin_ok p (utxo b1 p) (e\<lparr>ce_DIRTY := True, ce_coin := Coin_Clear (ce_coin e)\<rparr>)"
      using C by (auto simp: coin_ok_def)
    note put_coin [OF F(1) this] drop_coin [OF F(1), where p = p]
    ultimately show ?thesis
      using s f Some C F(2) by (auto simp: SpendCoin_def Let_def coin_ok_def u simp del: utxo.simps view_ok.simps)
  qed
qed

lemma Uncache_law:
  assumes ok: "view_ok E (CacheView c base)"
  shows "view_ok E (CacheView (Uncache E p c) base) \<and> abs_view E (CacheView (Uncache E p c) base) = abs_view E (CacheView c base)"
proof (cases "map_of (cacheCoins c) p")
  case (Some e)
  note C = cached_coin_ok [OF ok Some]
  show ?thesis
  proof (cases "ce_DIRTY e \<or> ce_FRESH e")
    case False
    then have "(utxo (CacheView c base))(p := utxo base p) = utxo (CacheView c base)"
      using C by (simp add: coin_ok_def fun_upd_idem)
    then show ?thesis
      using drop_coin [OF ok, where p = p] False Some by (simp add: Uncache_def abs_view_def del: utxo.simps view_ok.simps)
  qed (use ok Some in \<open>auto simp: Uncache_def\<close>)
qed (use ok in \<open>simp add: Uncache_def\<close>)

lemma SetBestBlock_law:
  assumes "view_ok E (CacheView c base)" and "h \<noteq> 0"
  shows "view_ok E (CacheView (SetBestBlock h c) base) \<and>
    abs_view E (CacheView (SetBestBlock h c) base) = (abs_view E (CacheView c base))\<lparr>cs_best_block := h\<rparr>"
  using assms by (auto simp: SetBestBlock_def abs_view_def cache_ok_def)

definition tx_nullifiers :: "CTransaction \<Rightarrow> uint256 set" where
  "tx_nullifiers tx = (case sapData tx of None \<Rightarrow> {} | Some d \<Rightarrow> sd_nullifier ` set (vShieldedSpend d))"

lemma SetNullifiers_law:
  assumes "view_ok E (CacheView c base)"
  shows "view_ok E (CacheView (SetNullifiers tx spent c) base) \<and>
    abs_view E (CacheView (SetNullifiers tx spent c) base) = (abs_view E (CacheView c base))
      \<lparr>cs_nullifiers := \<lambda>nf. if nf \<in> tx_nullifiers tx then spent else nullifiers (CacheView c base) nf\<rparr>"
  using assms
  by (auto simp: SetNullifiers_def tx_nullifiers_def abs_view_def cache_ok_def overlay_fold_update nullifier_ok_def
      intro!: entries_ok_fold_update split: option.splits)

lemma BestAnchor_law:
  assumes "view_ok E (CacheView c base)" and "BestAnchor E c base = (r, c', base')"
  shows "view_ok E (CacheView c' base') \<and> abs_view E (CacheView c' base') = abs_view E (CacheView c base) \<and>
    r = best_anchor E (CacheView c base)"
  using GetBestAnchor_law [OF assms(1), of r "CacheView c' base'"] assms(2)
  by (auto simp: BestAnchor_def split: if_splits prod.splits)

lemma put_anchor:
  assumes "view_ok E (CacheView c base)" and "anchor_ok E rt (anchors E base rt) e" and "h \<noteq> 0"
  shows "view_ok E (CacheView (c\<lparr>cacheSaplingAnchors := AList.update rt e (cacheSaplingAnchors c),
      cachedCoinsUsage := n, hashSaplingAnchor := h\<rparr>) base)"
    and "abs_view E (CacheView (c\<lparr>cacheSaplingAnchors := AList.update rt e (cacheSaplingAnchors c),
      cachedCoinsUsage := n, hashSaplingAnchor := h\<rparr>) base) = (abs_view E (CacheView c base))
      \<lparr>cs_anchors := (anchors E (CacheView c base))(rt := ae_entered e), cs_best_anchor := h\<rparr>"
  using assms by (auto simp: cache_ok_def abs_view_def overlay_update intro: entries_ok_update)

lemma PushAnchor_law:
  assumes ok: "view_ok E (CacheView c base)" and rt: "tree_root E tree \<noteq> 0"
    and push: "PushAnchor E tree c base = (c', base')"
    and known: "anchors E (CacheView c base) (best_anchor E (CacheView c base))"
  shows "view_ok E (CacheView c' base') \<and>
    abs_view E (CacheView c' base') = (abs_view E (CacheView c base))
      \<lparr>cs_anchors := (anchors E (CacheView c base))(tree_root E tree := True), cs_best_anchor := tree_root E tree\<rparr>"
proof -
  obtain r c1 b1 where b: "BestAnchor E c base = (r, c1, b1)" by (cases "BestAnchor E c base") auto
  have B: "view_ok E (CacheView c1 b1)" "abs_view E (CacheView c1 b1) = abs_view E (CacheView c base)"
    "r = best_anchor E (CacheView c base)"
    using BestAnchor_law [OF ok b] by auto
  have "anchor_ok E (tree_root E tree) (anchors E b1 (tree_root E tree)) \<lparr>ae_entered = True, ae_tree = tree, ae_DIRTY = True\<rparr>"
    by (simp add: anchor_ok_def)
  note P = put_anchor [OF B(1) this rt]
  show ?thesis
  proof (cases "r = tree_root E tree")
    case True
    then show ?thesis
      using push b B known by (auto simp: PushAnchor_def Let_def abs_view_def fun_upd_idem simp del: anchors.simps best_anchor.simps view_ok.simps)
  next
    case False
    have "anchors E (CacheView c1 b1) = anchors E (CacheView c base)" using B(2) by (simp only: abs_view_eq_iff)
    with False P B(2) push b show ?thesis
      by (auto simp: PushAnchor_def Let_def simp del: anchors.simps view_ok.simps)
  qed
qed

lemma PopAnchor_law:
  assumes ok: "view_ok E (CacheView c base)" and rt: "newrt \<noteq> 0"
    and known: "anchors E (CacheView c base) (best_anchor E (CacheView c base))"
    and old: "best_anchor E (CacheView c base) \<noteq> empty_root E" "newrt \<noteq> best_anchor E (CacheView c base)"
  shows "\<exists>c' base'. PopAnchor E newrt c base = Inr (c', base') \<and> view_ok E (CacheView c' base') \<and>
    abs_view E (CacheView c' base') = (abs_view E (CacheView c base))
      \<lparr>cs_anchors := (anchors E (CacheView c base))(best_anchor E (CacheView c base) := False), cs_best_anchor := newrt\<rparr>"
proof -
  let ?r = "best_anchor E (CacheView c base)"
  obtain r c1 b1 where b: "BestAnchor E c base = (r, c1, b1)" by (cases "BestAnchor E c base") auto
  have B: "view_ok E (CacheView c1 b1)" "abs_view E (CacheView c1 b1) = abs_view E (CacheView c base)" "r = ?r"
    using BestAnchor_law [OF ok b] by auto
  obtain t v2 where g: "GetSaplingAnchorAt E (CacheView c1 b1) ?r = (t, v2)" by fastforce
  note G = GetSaplingAnchorAt_law [OF B(1) g]
  have "anchors E (CacheView c1 b1) = anchors E (CacheView c base)" using B(2) by (simp only: abs_view_eq_iff)
  with G known obtain tree where t: "t = Some tree" by auto
  obtain c2 b2 e where v2: "v2 = CacheView c2 b2" "map_of (cacheSaplingAnchors c2) ?r = Some e"
    using g t by (auto simp: update_conv' split: option.splits prod.splits if_splits)
  have A: "abs_view E (CacheView c2 b2) = abs_view E (CacheView c base)" "view_ok E (CacheView c2 b2)"
    using G B(2) v2(1) by auto
  then have "anchor_ok E ?r (anchors E b2 ?r) e" using v2(2) by (auto simp: cache_ok_def dest: entries_ok_get)
  then have "anchor_ok E ?r (anchors E b2 ?r) (e\<lparr>ae_entered := False, ae_DIRTY := True\<rparr>)"
    using old(1) by (simp add: anchor_ok_def)
  note P = put_anchor [OF A(2) this rt, of "cachedCoinsUsage c2"]
  moreover have "anchors E (CacheView c2 b2) = anchors E (CacheView c base)" using A(1) by (simp only: abs_view_eq_iff)
  moreover have "PopAnchor E newrt c base = Inr (c2\<lparr>cacheSaplingAnchors :=
      AList.update ?r (e\<lparr>ae_entered := False, ae_DIRTY := True\<rparr>) (cacheSaplingAnchors c2), hashSaplingAnchor := newrt\<rparr>, b2)"
    using b B(3) g t v2 old(2) by (simp add: PopAnchor_def del: best_anchor.simps GetSaplingAnchorAt.simps)
  ultimately show ?thesis using A(1) by simp
qed

end
