(* ===== verification/Coins_Flush.thy ===== *)
theory Coins_Flush
  imports Coins_Correct
begin

text \<open>
  Writing a cache back: the six interpretations of the \<open>write_back\<close> contract (coins, nullifiers and anchors,
  each into a parent cache and into the database), the refinement of \<open>Flush\<close>, and what the database holds when
  the process stops between two batches.
\<close>

section \<open>Into a parent cache\<close>

lemma BatchWrite_entry_law:
  assumes good: "entries_ok coin_ok (fst st) u" and ok: "coin_ok p (overlay entry_coin (fst st) u p) e"
  shows "\<exists>st'. BatchWrite_entry E (p, e) st = Inr st' \<and> entries_ok coin_ok (fst st') u \<and>
    overlay entry_coin (fst st') u = (overlay entry_coin (fst st) u)(p := entry_coin e)"
proof -
  obtain coins usage where st: "st = (coins, usage)" by fastforce
  show ?thesis
  proof (cases "ce_DIRTY e")
    case False
    then show ?thesis using assms by (auto simp: BatchWrite_entry_def coin_ok_def fun_upd_idem)
  next
    case dirty: True
    show ?thesis
    proof (cases "map_of coins p")
      case None
      then have "coin_ok p (u p) \<lparr>ce_coin = ce_coin e, ce_DIRTY = True, ce_FRESH = ce_FRESH e\<rparr>"
        using ok by (simp add: st coin_ok_def overlay_miss)
      then show ?thesis
        using None dirty ok good
        by (auto simp: BatchWrite_entry_def st overlay_update overlay_miss coin_ok_def unspent_def fun_upd_idem
            intro!: entries_ok_update)
    next
      case (Some itUs)
      have us: "coin_ok p (u p) itUs" using entries_ok_get [OF good] Some by (simp add: st)
      have new: "coin_ok p (u p) (itUs\<lparr>ce_coin := ce_coin e, ce_DIRTY := True\<rparr>)"
        using us ok by (simp add: coin_ok_def)
      have "\<not> (ce_FRESH e \<and> \<not> IsSpent (ce_coin itUs))"
        using ok Some by (auto simp: st coin_ok_def overlay_hit unspent_def split: if_splits)
      then show ?thesis
        using Some dirty good us new
        by (auto simp: BatchWrite_entry_def st overlay_update overlay_delete coin_ok_def unspent_def
            intro!: entries_ok_update entries_ok_delete)
    qed
  qed
qed

interpretation cache_coins: write_back "BatchWrite_entry E" "\<lambda>st. entries_ok coin_ok (fst st) u"
  "\<lambda>st. overlay entry_coin (fst st) u" coin_ok entry_coin for E u
  by unfold_locales (rule BatchWrite_entry_law)

lemma BatchWriteNullifiers_entry_law:
  assumes "entries_ok nullifier_ok m u" and "nullifier_ok nf (overlay ne_entered m u nf) e"
  shows "entries_ok nullifier_ok (BatchWriteNullifiers_entry (nf, e) m) u \<and>
    overlay ne_entered (BatchWriteNullifiers_entry (nf, e) m) u = (overlay ne_entered m u)(nf := ne_entered e)"
proof (cases "map_of m nf")
  case None
  with assms show ?thesis
    by (auto simp: BatchWriteNullifiers_entry_def overlay_update nullifier_ok_def fun_upd_idem intro!: entries_ok_update)
next
  case (Some parent)
  with assms entries_ok_get [OF assms(1) Some] show ?thesis
    by (auto simp: BatchWriteNullifiers_entry_def overlay_update overlay_hit nullifier_ok_def fun_upd_idem
        intro!: entries_ok_update)
qed

interpretation cache_nullifiers: write_back_total BatchWriteNullifiers_entry "\<lambda>m. entries_ok nullifier_ok m u"
  "\<lambda>m. overlay ne_entered m u" nullifier_ok ne_entered for u
  by unfold_locales (rule BatchWriteNullifiers_entry_law)

lemma BatchWriteAnchors_entry_law:
  assumes "entries_ok (anchor_ok E) (fst st) u" and "anchor_ok E rt (overlay ae_entered (fst st) u rt) e"
  shows "entries_ok (anchor_ok E) (fst (BatchWriteAnchors_entry E (rt, e) st)) u \<and>
    overlay ae_entered (fst (BatchWriteAnchors_entry E (rt, e) st)) u = (overlay ae_entered (fst st) u)(rt := ae_entered e)"
proof -
  obtain m usage where st: "st = (m, usage)" by fastforce
  show ?thesis
  proof (cases "map_of m rt")
    case None
    with assms show ?thesis
      by (auto simp: BatchWriteAnchors_entry_def st overlay_update anchor_ok_def fun_upd_idem intro!: entries_ok_update)
  next
    case (Some parent)
    then have "anchor_ok E rt (u rt) parent" using assms(1) by (auto simp: st dest: entries_ok_get)
    with Some assms show ?thesis
      by (auto simp: BatchWriteAnchors_entry_def st overlay_update overlay_hit anchor_ok_def fun_upd_idem
          intro!: entries_ok_update)
  qed
qed

interpretation cache_anchors: write_back_total "BatchWriteAnchors_entry E" "\<lambda>st. entries_ok (anchor_ok E) (fst st) u"
  "\<lambda>st. overlay ae_entered (fst st) u" "anchor_ok E" ae_entered for E :: "'t coins_env" and u
  by unfold_locales (rule BatchWriteAnchors_entry_law)

text \<open>The entries of a cache, over a view.\<close>

abbreviation child_ok :: "'t coins_env \<Rightarrow> 't CCoinsView \<Rightarrow> 't CCoinsViewCache \<Rightarrow> bool" where
  "child_ok E v c \<equiv> cache_ok E (utxo v) (nullifiers v) (anchors E v) c"

lemma Cache_BatchWrite_law:
  assumes ok: "view_ok E (CacheView p base)" and child: "child_ok E (CacheView p base) c"
  shows "\<exists>p'. Cache_BatchWrite E (cacheCoins c) h a (cacheSaplingAnchors c) (cacheSaplingNullifiers c) p = Inr p' \<and>
    view_ok E (CacheView p' base) \<and> utxo (CacheView p' base) = utxo (CacheView c (CacheView p base)) \<and>
    nullifiers (CacheView p' base) = nullifiers (CacheView c (CacheView p base)) \<and>
    anchors E (CacheView p' base) = anchors E (CacheView c (CacheView p base)) \<and>
    hashBlock p' = h \<and> hashSaplingAnchor p' = a"
proof -
  have po: "entries_ok coin_ok (cacheCoins p) (utxo base)" "entries_ok nullifier_ok (cacheSaplingNullifiers p) (nullifiers base)"
    "entries_ok (anchor_ok E) (cacheSaplingAnchors p) (anchors E base)"
    using ok by (auto simp: cache_ok_def)
  have co: "entries_ok coin_ok (cacheCoins c) (overlay entry_coin (cacheCoins p) (utxo base))"
    "entries_ok nullifier_ok (cacheSaplingNullifiers c) (overlay ne_entered (cacheSaplingNullifiers p) (nullifiers base))"
    "entries_ok (anchor_ok E) (cacheSaplingAnchors c) (overlay ae_entered (cacheSaplingAnchors p) (anchors E base))"
    using child by (auto simp: cache_ok_def)
  obtain coins usage where C: "fold_sum (BatchWrite_entry E) (cacheCoins c) (cacheCoins p, cachedCoinsUsage p) = Inr (coins, usage)"
      "entries_ok coin_ok coins (utxo base)"
      "overlay entry_coin coins (utxo base) = overlay entry_coin (cacheCoins c) (overlay entry_coin (cacheCoins p) (utxo base))"
    using cache_coins.write_all [of "(cacheCoins p, cachedCoinsUsage p)" "utxo base" "cacheCoins c" E] po(1) co(1) by auto
  note N = cache_nullifiers.write_all_total [OF po(2) co(2)]
  obtain ans usage' where A: "fold (BatchWriteAnchors_entry E) (cacheSaplingAnchors c) (cacheSaplingAnchors p, usage) = (ans, usage')"
    by fastforce
  have A': "entries_ok (anchor_ok E) ans (anchors E base)"
      "overlay ae_entered ans (anchors E base) = overlay ae_entered (cacheSaplingAnchors c) (overlay ae_entered (cacheSaplingAnchors p) (anchors E base))"
    using cache_anchors.write_all_total [of E "(cacheSaplingAnchors p, usage)" "anchors E base" "cacheSaplingAnchors c"] po(3) co(3)
    by (auto simp: A)
  show ?thesis
    using ok C A A' N by (simp add: Cache_BatchWrite_def cache_ok_def)
qed

section \<open>Into the database\<close>

text \<open>The records of the database that a batch leaves alone.\<close>

lemma map_of_apply_op:
  "map_of (apply_op (BatchPut k x) db) = (map_of db)(k \<mapsto> x)" "map_of (apply_op (BatchErase k) db) = (map_of db)(k := None)"
  by (simp_all add: update_conv' delete_conv')

lemma db_ok_apply_op:
  "db_ok E db \<Longrightarrow> db_ok E (apply_op (BatchErase k) db)"
  "db_ok E db \<Longrightarrow> record_ok E k x \<Longrightarrow> db_ok E (apply_op (BatchPut k x) db)"
  by (auto simp: db_ok_def intro: entries_ok_update entries_ok_delete)

lemma db_ok_record: "db_ok E db \<Longrightarrow> map_of db k = Some x \<Longrightarrow> record_ok E k x"
  by (auto simp: db_ok_def dest: entries_ok_get)

lemmas db_look_simps = db_utxo_def DB_GetCoin_def DB_GetNullifier_def db_anchor_def DB_GetSaplingAnchorAt_def
  DB_GetBestBlock_def DB_GetHeadBlocks_def DB_GetBestAnchor_def

text \<open>
  The database does not look at the fresh flag: it is enough that an entry that is not dirty repeats what is stored.
\<close>

definition coin_synced :: "COutPoint \<Rightarrow> Coin option \<Rightarrow> CCoinsCacheEntry \<Rightarrow> bool" where
  "coin_synced p below e \<longleftrightarrow> (\<not> ce_DIRTY e \<longrightarrow> entry_coin e = below)"

definition synced :: "'t coins_env \<Rightarrow> 't CoinsDB \<Rightarrow> 't CCoinsViewCache \<Rightarrow> bool" where
  "synced E db c \<longleftrightarrow> entries_ok coin_synced (cacheCoins c) (db_utxo db) \<and>
    entries_ok nullifier_ok (cacheSaplingNullifiers c) (DB_GetNullifier db) \<and>
    entries_ok (anchor_ok E) (cacheSaplingAnchors c) (db_anchor E db)"

lemma child_ok_synced: "child_ok E (DBView db) c \<Longrightarrow> synced E db c"
  by (auto simp: cache_ok_def synced_def entries_ok_def coin_ok_def coin_synced_def)

lemma coin_op_law:
  assumes "db_ok E db" and "coin_synced p (db_utxo db p) e"
  shows "db_ok E (WriteBatch (coin_op (p, e)) db) \<and>
    db_utxo (WriteBatch (coin_op (p, e)) db) = (db_utxo db)(p := entry_coin e)"
  using assms
  by (auto simp: WriteBatch_def coin_op_def coin_synced_def db_ok_apply_op db_utxo_def DB_GetCoin_def map_of_apply_op
      unspent_def fun_eq_iff simp del: apply_op.simps split: if_splits)

lemma nullifier_op_law:
  assumes "db_ok E db" and "nullifier_ok nf (DB_GetNullifier db nf) e"
  shows "db_ok E (WriteBatch (nullifier_op (nf, e)) db) \<and>
    DB_GetNullifier (WriteBatch (nullifier_op (nf, e)) db) = (DB_GetNullifier db)(nf := ne_entered e)"
  using assms
  by (auto simp: WriteBatch_def nullifier_op_def nullifier_ok_def db_ok_apply_op DB_GetNullifier_def map_of_apply_op
      fun_eq_iff simp del: apply_op.simps split: if_splits)

lemma anchor_op_law:
  assumes "db_ok E db" and "anchor_ok E rt (db_anchor E db rt) e"
  shows "db_ok E (WriteBatch (anchor_op E (rt, e)) db) \<and>
    db_anchor E (WriteBatch (anchor_op E (rt, e)) db) = (db_anchor E db)(rt := ae_entered e)"
  using assms
  by (auto simp: WriteBatch_def anchor_op_def anchor_ok_def db_ok_apply_op db_anchor_def DB_GetSaplingAnchorAt_def
      map_of_apply_op fun_eq_iff simp del: apply_op.simps split: if_splits)

interpretation db_coins: write_back_total "\<lambda>x. WriteBatch (coin_op x)" "db_ok E" db_utxo coin_synced entry_coin for E
  by unfold_locales (rule coin_op_law)

interpretation db_nullifiers: write_back_total "\<lambda>x. WriteBatch (nullifier_op x)" "db_ok E" DB_GetNullifier
  nullifier_ok ne_entered for E
  by unfold_locales (rule nullifier_op_law)

interpretation db_anchors: write_back_total "\<lambda>x. WriteBatch (anchor_op E x)" "db_ok E" "db_anchor E" "anchor_ok E" ae_entered
  for E :: "'t coins_env"
  by unfold_locales (rule anchor_op_law)

text \<open>Each kind of write leaves the other readings alone.\<close>

lemma coin_op_frame:
  "DB_GetNullifier (WriteBatch (coin_op x) db) = DB_GetNullifier db" "db_anchor E (WriteBatch (coin_op x) db) = db_anchor E db"
  "DB_GetBestBlock (WriteBatch (coin_op x) db) = DB_GetBestBlock db" "DB_GetHeadBlocks (WriteBatch (coin_op x) db) = DB_GetHeadBlocks db"
  "DB_GetBestAnchor E (WriteBatch (coin_op x) db) = DB_GetBestAnchor E db"
  by (cases x; auto simp: WriteBatch_def coin_op_def db_look_simps map_of_apply_op fun_eq_iff simp del: apply_op.simps)+

lemma nullifier_op_frame:
  "db_utxo (WriteBatch (nullifier_op x) db) = db_utxo db" "db_anchor E (WriteBatch (nullifier_op x) db) = db_anchor E db"
  by (cases x; auto simp: WriteBatch_def nullifier_op_def db_look_simps map_of_apply_op fun_eq_iff simp del: apply_op.simps)+

lemma anchor_op_frame:
  "db_utxo (WriteBatch (anchor_op E x) db) = db_utxo db" "DB_GetNullifier (WriteBatch (anchor_op E x) db) = DB_GetNullifier db"
  by (cases x; auto simp: WriteBatch_def anchor_op_def db_look_simps map_of_apply_op fun_eq_iff simp del: apply_op.simps)+

lemma head_op_frame:
  assumes "k \<in> {DB_BEST_BLOCK, DB_HEAD_BLOCKS, DB_BEST_SAPLING_ANCHOR}"
  shows "db_utxo (apply_op (BatchPut k x) db) = db_utxo db" "DB_GetNullifier (apply_op (BatchPut k x) db) = DB_GetNullifier db"
    "db_anchor E (apply_op (BatchPut k x) db) = db_anchor E db"
    "db_utxo (apply_op (BatchErase k) db) = db_utxo db" "DB_GetNullifier (apply_op (BatchErase k) db) = DB_GetNullifier db"
    "db_anchor E (apply_op (BatchErase k) db) = db_anchor E db"
  using assms by (auto simp: db_look_simps map_of_apply_op fun_eq_iff simp del: apply_op.simps)

section \<open>The batches in order\<close>

lemma coin_batches_concat:
  "coin_batches E m batch = (written, last_batch) \<Longrightarrow> concat written @ last_batch = batch @ concat (map coin_op m)"
  by (induction E m batch arbitrary: written last_batch rule: coin_batches.induct)
    (auto simp: Let_def split: if_splits prod.splits)

text \<open>The batches written so far hold the first marker and the operations of some of the entries.\<close>

lemma coin_batches_take:
  "coin_batches E m batch = (written, last_batch) \<Longrightarrow> 0 < n \<Longrightarrow> n \<le> length written \<Longrightarrow>
    \<exists>k. concat (take n written) = batch @ concat (map coin_op (take k m))"
proof (induction E m batch arbitrary: written last_batch n rule: coin_batches.induct)
  case (2 E child rest batch)
  let ?b = "batch @ coin_op child"
  show ?case
  proof (cases "SizeEstimate E ?b > batch_size E")
    case True
    then obtain w where w: "coin_batches E rest [] = (w, last_batch)" "written = ?b # w"
      using "2.prems"(1) by (auto simp: Let_def split: prod.splits)
    obtain n' where n: "n = Suc n'" using "2.prems"(2) by (cases n) auto
    show ?thesis
    proof (cases n')
      case 0
      then show ?thesis using w n by (intro exI [of _ 1]) simp
    next
      case (Suc n'')
      then obtain k where "concat (take n' w) = concat (map coin_op (take k rest))"
        using "2.IH"(1) [OF refl True w(1)] "2.prems"(3) w n by auto
      then show ?thesis using w n by (intro exI [of _ "Suc k"]) simp
    qed
  next
    case False
    then obtain k where "concat (take n written) = ?b @ concat (map coin_op (take k rest))"
      using "2.IH"(2) [OF refl False] "2.prems" by (auto simp: Let_def)
    then show ?thesis by (intro exI [of _ "Suc k"]) simp
  qed
qed simp

lemma WriteBatch_append: "WriteBatch (a @ b) db = WriteBatch b (WriteBatch a db)"
  by (simp add: WriteBatch_def)

lemma WriteBatch_concat: "WriteBatch (concat (map f m)) db = fold (\<lambda>x. WriteBatch (f x)) m db"
  by (simp add: WriteBatch_def [abs_def] fold_concat_map)

lemma fold_WriteBatch: "fold WriteBatch batches db = WriteBatch (concat batches) db"
  using WriteBatch_concat [of "\<lambda>x. x" batches db] by simp

definition head_marker :: "uint256 \<Rightarrow> uint256 \<Rightarrow> 't CDBBatch" where
  "head_marker new old = [BatchErase DB_BEST_BLOCK, BatchPut DB_HEAD_BLOCKS (DbHashes [new, old])]"

definition old_tip :: "'t CoinsDB \<Rightarrow> uint256" where
  "old_tip db = (if DB_GetBestBlock db = 0 \<and> length (DB_GetHeadBlocks db) = 2 then DB_GetHeadBlocks db ! 1 else DB_GetBestBlock db)"

text \<open>A write to the database may start: it is consistent, or in the middle of a write to the same block.\<close>

definition may_write :: "uint256 \<Rightarrow> 't CoinsDB \<Rightarrow> bool" where
  "may_write h db \<longleftrightarrow> h \<noteq> 0 \<and>
    (DB_GetBestBlock db = 0 \<longrightarrow> length (DB_GetHeadBlocks db) = 2 \<longrightarrow> DB_GetHeadBlocks db ! 0 = h)"

lemma head_marker_law:
  assumes "db_ok E db"
  shows "db_ok E (WriteBatch (head_marker h t) db)" "db_utxo (WriteBatch (head_marker h t) db) = db_utxo db"
    "DB_GetNullifier (WriteBatch (head_marker h t) db) = DB_GetNullifier db"
    "db_anchor E (WriteBatch (head_marker h t) db) = db_anchor E db"
    "DB_GetBestBlock (WriteBatch (head_marker h t) db) = 0" "DB_GetHeadBlocks (WriteBatch (head_marker h t) db) = [h, t]"
    "DB_GetBestAnchor E (WriteBatch (head_marker h t) db) = DB_GetBestAnchor E db"
  using assms
  by (auto simp: WriteBatch_def head_marker_def head_op_frame db_ok_apply_op DB_GetBestBlock_def DB_GetHeadBlocks_def
      DB_GetBestAnchor_def map_of_apply_op simp del: apply_op.simps)

definition final_marker :: "uint256 \<Rightarrow> uint256 \<Rightarrow> 't CDBBatch" where
  "final_marker h a = [BatchPut DB_BEST_SAPLING_ANCHOR (DbHash a), BatchErase DB_HEAD_BLOCKS, BatchPut DB_BEST_BLOCK (DbHash h)]"

lemma final_marker_law:
  assumes "db_ok E db"
  shows "db_ok E (WriteBatch (final_marker h a) db)" "db_utxo (WriteBatch (final_marker h a) db) = db_utxo db"
    "DB_GetNullifier (WriteBatch (final_marker h a) db) = DB_GetNullifier db"
    "db_anchor E (WriteBatch (final_marker h a) db) = db_anchor E db"
    "DB_GetBestBlock (WriteBatch (final_marker h a) db) = h" "DB_GetHeadBlocks (WriteBatch (final_marker h a) db) = []"
    "DB_GetBestAnchor E (WriteBatch (final_marker h a) db) = a"
  using assms
  by (auto simp: WriteBatch_def final_marker_def head_op_frame db_ok_apply_op DB_GetBestBlock_def DB_GetHeadBlocks_def
      DB_GetBestAnchor_def map_of_apply_op simp del: apply_op.simps)

lemma DB_batches_shape:
  assumes "may_write h db" and "a \<noteq> 0"
  shows "\<exists>written last_batch. coin_batches E m (head_marker h (old_tip db)) = (written, last_batch) \<and>
    DB_batches E m h a ans nfs db =
      Inr (written @ [last_batch @ concat (map (anchor_op E) ans) @ concat (map nullifier_op nfs) @ final_marker h a])"
  using assms
  by (auto simp: DB_batches_def may_write_def head_marker_def final_marker_def old_tip_def BatchWriteSapling_def Let_def
      split: prod.splits)

text \<open>The coins of some of the entries, written after the marker.\<close>

lemma partial_law:
  fixes h t :: uint256
  assumes db: "db_ok E db" and m: "entries_ok coin_synced m (db_utxo db)"
  defines "db1 \<equiv> WriteBatch (head_marker h t @ concat (map coin_op m)) db"
  shows "db_ok E db1 \<and> db_utxo db1 = overlay entry_coin m (db_utxo db) \<and> DB_GetNullifier db1 = DB_GetNullifier db \<and>
    db_anchor E db1 = db_anchor E db \<and> DB_GetBestBlock db1 = 0 \<and> DB_GetHeadBlocks db1 = [h, t] \<and>
    DB_GetBestAnchor E db1 = DB_GetBestAnchor E db"
proof -
  note M = head_marker_law [OF db, of h t]
  have db1: "db1 = fold (\<lambda>x. WriteBatch (coin_op x)) m (WriteBatch (head_marker h t) db)"
    by (simp add: db1_def WriteBatch_append WriteBatch_concat)
  have "entries_ok coin_synced m (db_utxo (WriteBatch (head_marker h t) db))" using m M(2) by simp
  from db_coins.write_all_total [OF M(1) this] show ?thesis
    by (simp add: db1 M fold_frame [where g = DB_GetNullifier] fold_frame [where g = "db_anchor E"]
        fold_frame [where g = DB_GetBestBlock] fold_frame [where g = DB_GetHeadBlocks]
        fold_frame [where g = "DB_GetBestAnchor E"] coin_op_frame)
qed

lemma DB_BatchWrite_law:
  assumes db: "db_ok E db" and child: "synced E db c" and w: "may_write h db" "a \<noteq> 0"
  shows "\<exists>db'. DB_BatchWrite E (cacheCoins c) h a (cacheSaplingAnchors c) (cacheSaplingNullifiers c) db = Inr db' \<and>
    db_ok E db' \<and> db_utxo db' = utxo (CacheView c (DBView db)) \<and>
    DB_GetNullifier db' = nullifiers (CacheView c (DBView db)) \<and> db_anchor E db' = anchors E (CacheView c (DBView db)) \<and>
    DB_GetBestBlock db' = h \<and> DB_GetHeadBlocks db' = [] \<and> DB_GetBestAnchor E db' = a"
proof -
  obtain written last_batch where b: "coin_batches E (cacheCoins c) (head_marker h (old_tip db)) = (written, last_batch)"
    "DB_batches E (cacheCoins c) h a (cacheSaplingAnchors c) (cacheSaplingNullifiers c) db =
      Inr (written @ [last_batch @ concat (map (anchor_op E) (cacheSaplingAnchors c)) @
        concat (map nullifier_op (cacheSaplingNullifiers c)) @ final_marker h a])"
    using DB_batches_shape [OF w] by blast
  have ok: "entries_ok coin_synced (cacheCoins c) (db_utxo db)" "entries_ok nullifier_ok (cacheSaplingNullifiers c) (DB_GetNullifier db)"
    "entries_ok (anchor_ok E) (cacheSaplingAnchors c) (db_anchor E db)"
    using child by (auto simp: synced_def)
  define db1 where "db1 = WriteBatch (head_marker h (old_tip db) @ concat (map coin_op (cacheCoins c))) db"
  define db2 where "db2 = fold (\<lambda>x. WriteBatch (anchor_op E x)) (cacheSaplingAnchors c) db1"
  define db3 where "db3 = fold (\<lambda>x. WriteBatch (nullifier_op x)) (cacheSaplingNullifiers c) db2"
  note P = partial_law [OF db ok(1), of h "old_tip db", folded db1_def]
  have A: "db_ok E db2" "db_anchor E db2 = overlay ae_entered (cacheSaplingAnchors c) (db_anchor E db)"
      "db_utxo db2 = db_utxo db1" "DB_GetNullifier db2 = DB_GetNullifier db1"
    using db_anchors.write_all_total [of E db1 "cacheSaplingAnchors c"] P ok(3)
    by (simp_all add: db2_def fold_frame [where g = db_utxo] fold_frame [where g = DB_GetNullifier] anchor_op_frame)
  have N: "db_ok E db3" "DB_GetNullifier db3 = overlay ne_entered (cacheSaplingNullifiers c) (DB_GetNullifier db)"
      "db_utxo db3 = db_utxo db2" "db_anchor E db3 = db_anchor E db2"
    using db_nullifiers.write_all_total [of E db2 "cacheSaplingNullifiers c"] P A ok(2)
    by (simp_all add: db3_def fold_frame [where g = db_utxo] fold_frame [where g = "db_anchor E"] nullifier_op_frame)
  have "fold WriteBatch (written @ [last_batch @ concat (map (anchor_op E) (cacheSaplingAnchors c)) @
        concat (map nullifier_op (cacheSaplingNullifiers c)) @ final_marker h a]) db = WriteBatch (final_marker h a) db3"
    by (simp add: fold_WriteBatch db3_def db2_def db1_def coin_batches_concat [OF b(1), symmetric] WriteBatch_append
        flip: WriteBatch_concat)
  then show ?thesis
    using final_marker_law [OF N(1), of h a] P A N by (auto simp: DB_BatchWrite_def b(2))
qed

section \<open>A sample\<close>

text \<open>
  A database with one coin, and a cache over it that has spent that coin and created another. A tree is its root;
  a batch is full when it holds more than two operations.
\<close>

definition sample_env :: "uint256 coins_env" where
  "sample_env = \<lparr>CoinUsage = \<lambda>_. 1, TreeUsage = \<lambda>_. 1, tree_root = \<lambda>t. t, tree_empty = 1, SizeEstimate = length, batch_size = 2\<rparr>"

definition sample_coin :: "uint32 \<Rightarrow> Coin" where
  "sample_coin height = Coin_new \<lparr>nValue = 50, scriptPubKey = [OP_1], nRounds = - 10\<rparr> height False False"

definition sample_point :: "uint256 \<Rightarrow> COutPoint" where
  "sample_point txid = \<lparr>out_hash = txid, out_n = 0\<rparr>"

definition sample_db :: "uint256 CoinsDB" where
  "sample_db = [(DB_COIN (sample_point 7), DbCoin (sample_coin 1)), (DB_BEST_BLOCK, DbHash 5)]"

definition sample_cache :: "uint256 CCoinsViewCache" where
  "sample_cache = CCoinsViewCache_new\<lparr>hashBlock := 6, hashSaplingAnchor := 1,
     cacheCoins := [(sample_point 8, \<lparr>ce_coin = sample_coin 2, ce_DIRTY = True, ce_FRESH = True\<rparr>),
                    (sample_point 7, \<lparr>ce_coin = coinEmpty, ce_DIRTY = True, ce_FRESH = False\<rparr>)]\<rparr>"

lemmas sample_defs = sample_env_def sample_coin_def sample_point_def sample_db_def sample_cache_def
  CCoinsViewCache_new_def Coin_new_def

lemma sample_coin_unspent [simp]: "\<not> IsSpent (sample_coin h)"
  by (simp add: sample_coin_def Coin_new_def IsSpent_def CTxOut_IsNull_def)

lemma sample_point_eq [simp]: "sample_point a = sample_point b \<longleftrightarrow> a = b"
  by (simp add: sample_point_def)

lemma sample_db_ok: "db_ok sample_env sample_db"
  by (auto simp: db_ok_def entries_ok_def sample_db_def split: if_splits)

lemma sample_db_utxo: "db_utxo sample_db = (\<lambda>p. if p = sample_point 7 then Some (sample_coin 1) else None)"
  by (auto simp: db_utxo_def DB_GetCoin_def sample_db_def unspent_def fun_eq_iff)

lemma sample_child_ok: "child_ok sample_env (DBView sample_db) sample_cache"
  by (auto simp: cache_ok_def entries_ok_def sample_cache_def CCoinsViewCache_new_def coin_ok_def sample_db_utxo
      split: if_splits)

lemma sample_may_write: "may_write 6 sample_db"
  by (simp add: may_write_def DB_GetBestBlock_def sample_db_def)

lemma sample_utxo:
  "utxo (CacheView sample_cache (DBView sample_db)) = (\<lambda>p. if p = sample_point 8 then Some (sample_coin 2) else None)"
  by (auto simp: sample_db_utxo overlay_def sample_cache_def unspent_def fun_eq_iff)

section \<open>Flush\<close>

text \<open>A view that can take a write for the block \<open>h\<close>.\<close>

definition writable :: "uint256 \<Rightarrow> 't CCoinsView \<Rightarrow> bool" where
  "writable h v = (case v of BaseView \<Rightarrow> False | DBView db \<Rightarrow> may_write h db | CacheView _ _ \<Rightarrow> True)"

lemma Flush_law:
  assumes ok: "view_ok E (CacheView c base)" and h: "hashBlock c \<noteq> 0" "hashSaplingAnchor c \<noteq> 0"
    and w: "writable (hashBlock c) base"
  shows "\<exists>c' base'. Flush E c base = Inr (True, c', base') \<and> cacheCoins c' = [] \<and> view_ok E (CacheView c' base') \<and>
    abs_view E base' = abs_view E (CacheView c base) \<and> abs_view E (CacheView c' base') = abs_view E (CacheView c base)"
proof (cases base)
  case (DBView db)
  then obtain db' where
    "DB_BatchWrite E (cacheCoins c) (hashBlock c) (hashSaplingAnchor c) (cacheSaplingAnchors c) (cacheSaplingNullifiers c) db = Inr db'"
    "db_ok E db'" "db_utxo db' = utxo (CacheView c (DBView db))" "DB_GetNullifier db' = nullifiers (CacheView c (DBView db))"
    "db_anchor E db' = anchors E (CacheView c (DBView db))" "DB_GetBestBlock db' = hashBlock c" "DB_GetHeadBlocks db' = []"
    "DB_GetBestAnchor E db' = hashSaplingAnchor c"
    using DB_BatchWrite_law [of E db c "hashBlock c" "hashSaplingAnchor c"] child_ok_synced [of E db c] ok h w
    by (auto simp: writable_def)
  then show ?thesis
    using h by (simp add: Flush_def BatchWrite_def DBView abs_view_def cache_ok_def)
next
  case (CacheView p b)
  obtain p' where
    "Cache_BatchWrite E (cacheCoins c) (hashBlock c) (hashSaplingAnchor c) (cacheSaplingAnchors c) (cacheSaplingNullifiers c) p = Inr p'"
    "view_ok E (CacheView p' b)" "utxo (CacheView p' b) = utxo (CacheView c (CacheView p b))"
    "nullifiers (CacheView p' b) = nullifiers (CacheView c (CacheView p b))"
    "anchors E (CacheView p' b) = anchors E (CacheView c (CacheView p b))"
    "hashBlock p' = hashBlock c" "hashSaplingAnchor p' = hashSaplingAnchor c"
    using Cache_BatchWrite_law [of E p b c "hashBlock c" "hashSaplingAnchor c"] ok CacheView by auto
  then show ?thesis
    using h by (simp add: Flush_def BatchWrite_def CacheView abs_view_def cache_ok_def)
qed (use w in \<open>simp add: writable_def\<close>)



section \<open>Stopping between two batches\<close>

lemma map_of_take:
  assumes "distinct (map fst m)"
  shows "map_of (take k m) p = map_of m p \<or> map_of (take k m) p = None"
  using assms by (metis append_take_drop_id in_set_takeD map_of_SomeD map_of_eq_Some_iff option.exhaust)

lemma overlay_take:
  "entries_ok P m u \<Longrightarrow> overlay val (take k m) u p = overlay val m u p \<or> overlay val (take k m) u p = u p"
  using map_of_take [of m k p] by (auto simp: overlay_def entries_ok_def)

lemma overlay_take_again:
  assumes "entries_ok P m u"
  shows "overlay val m (overlay val (take k m) u) = overlay val m u"
proof
  fix p
  show "overlay val m (overlay val (take k m) u) p = overlay val m u p"
    using map_of_take [of m k p] assms by (auto simp: overlay_def entries_ok_def split: option.splits)
qed

lemma synced_take:
  assumes "entries_ok coin_synced m u"
  shows "entries_ok coin_synced m (overlay entry_coin (take k m) u)"
  unfolding entries_ok_def
proof (intro conjI allI impI)
  fix p e assume e: "map_of m p = Some e"
  show "coin_synced p (overlay entry_coin (take k m) u p) e"
    using overlay_take [OF assms, of entry_coin k p] entries_ok_get [OF assms e] overlay_hit [OF e, of entry_coin u]
    by (auto simp: coin_synced_def)
qed (use assms in \<open>simp add: entries_ok_def\<close>)

lemma DB_batches_take:
  assumes w: "may_write h db" "a \<noteq> 0" and b: "DB_batches E m h a ans nfs db = Inr batches" and n: "0 < n" "n < length batches"
  shows "\<exists>k. concat (take n batches) = head_marker h (old_tip db) @ concat (map coin_op (take k m))"
proof -
  obtain written last_batch where s: "coin_batches E m (head_marker h (old_tip db)) = (written, last_batch)"
      "batches = written @ [last_batch @ concat (map (anchor_op E) ans) @ concat (map nullifier_op nfs) @ final_marker h a]"
    using DB_batches_shape [OF w, of E m ans nfs] b by auto
  then have "take n batches = take n written" "n \<le> length written" using n(2) by auto
  then show ?thesis using coin_batches_take [OF s(1) n(1)] by auto
qed

text \<open>
  C7. The database survives a stop between two batches: after some but not all of the batches of a write, the best
  block is gone and the head blocks name the new block and the old tip, every coin has its old or its new
  value, nullifiers and anchors are the old ones, and running the same write again completes it with the same result
  as the uninterrupted write.
\<close>

theorem DB_BatchWrite_crash:
  assumes db: "db_ok E db" and child: "child_ok E (DBView db) c" and w: "may_write h db" "a \<noteq> 0"
    and b: "DB_batches E (cacheCoins c) h a (cacheSaplingAnchors c) (cacheSaplingNullifiers c) db = Inr batches"
    and n: "0 < n" "n < length batches"
  defines "part \<equiv> fold WriteBatch (take n batches) db"
  shows "DB_GetBestBlock part = 0 \<and> DB_GetHeadBlocks part = [h, old_tip db] \<and>
    (\<forall>p. db_utxo part p = db_utxo db p \<or> db_utxo part p = utxo (CacheView c (DBView db)) p) \<and>
    DB_GetNullifier part = DB_GetNullifier db \<and> db_anchor E part = db_anchor E db \<and>
    (\<exists>db1 db2. DB_BatchWrite E (cacheCoins c) h a (cacheSaplingAnchors c) (cacheSaplingNullifiers c) db = Inr db1 \<and>
      DB_BatchWrite E (cacheCoins c) h a (cacheSaplingAnchors c) (cacheSaplingNullifiers c) part = Inr db2 \<and>
      abs_view E (DBView db2) = abs_view E (DBView db1))"
proof -
  obtain k where k: "concat (take n batches) = head_marker h (old_tip db) @ concat (map coin_op (take k (cacheCoins c)))"
    using DB_batches_take [OF w b n] by blast
  have ok: "entries_ok coin_synced (cacheCoins c) (db_utxo db)" using child_ok_synced [OF child] by (simp add: synced_def)
  note P = partial_law [OF db entries_ok_take [OF ok, of k], of h "old_tip db", folded k, folded fold_WriteBatch, folded part_def]
  have "synced E part c"
    using child_ok_synced [OF child] P synced_take [OF ok, of k] by (simp add: synced_def)
  moreover have "may_write h part" using P w(1) by (simp add: may_write_def)
  moreover have "utxo (CacheView c (DBView part)) = utxo (CacheView c (DBView db))"
    using P overlay_take_again [OF ok, of entry_coin k] by simp
  ultimately show ?thesis
    using DB_BatchWrite_law [OF db child_ok_synced [OF child] w] DB_BatchWrite_law [of E part c h a] P w(2)
      overlay_take [OF ok, of entry_coin k]
    by (auto simp: abs_view_eq_iff)
qed

lemma DB_BatchWrite_crash_witness:
  "\<exists>batches. DB_batches sample_env (cacheCoins sample_cache) 6 1 [] [] sample_db = Inr batches \<and> length batches = 2 \<and>
    DB_GetHeadBlocks (fold WriteBatch (take 1 batches) sample_db) = [6, 5]"
proof -
  obtain batches where b: "DB_batches sample_env (cacheCoins sample_cache) 6 1 [] [] sample_db = Inr batches" "length batches = 2"
    by (simp add: DB_batches_def sample_cache_def sample_db_def CCoinsViewCache_new_def DB_GetBestBlock_def Let_def
        coin_op_def sample_env_def)
  have c: "cacheSaplingAnchors sample_cache = []" "cacheSaplingNullifiers sample_cache = []"
    by (simp_all add: sample_cache_def CCoinsViewCache_new_def)
  have a: "(1 :: uint256) \<noteq> 0" by simp
  have t: "old_tip sample_db = 5" by (simp add: old_tip_def DB_GetBestBlock_def sample_db_def)
  show ?thesis
    using DB_BatchWrite_crash [OF sample_db_ok sample_child_ok sample_may_write a, unfolded c, OF b(1), of 1] b t by auto
qed

end
