(* ===== verification/Coins_Calls.thy ===== *)
theory Coins_Calls
  imports Coins_Flush
begin

text \<open>
  Sessions on a coin cache: any sequence of calls on a new cache over a view, against the abstract chain state.
  \<open>run_call\<close> runs one call of the code, \<open>spec_call\<close> is its effect on the chain state and \<open>call_ok\<close> what the code's
  comments ask of the caller. Also what the transaction-level reads return.
\<close>

section \<open>Calls and their specification\<close>

datatype 't coin_call =
    CallAccessCoin COutPoint
  | CallHaveCoin COutPoint
  | CallAddCoin COutPoint Coin bool
  | CallSpendCoin COutPoint
  | CallUncache COutPoint
  | CallSetBestBlock uint256
  | CallSetNullifiers CTransaction bool
  | CallPushAnchor 't
  | CallPopAnchor uint256

type_synonym 't session = "'t CCoinsViewCache \<times> 't CCoinsView"

fun run_call :: "'t coins_env \<Rightarrow> 't coin_call \<Rightarrow> 't session \<Rightarrow> coins_error + 't session" where
  "run_call E (CallAccessCoin p) (c, base) = (case FetchCoin E p c base of (_, c', base') \<Rightarrow> Inr (c', base'))"
| "run_call E (CallHaveCoin p) (c, base) = (case Cache_HaveCoin E p c base of (_, c', base') \<Rightarrow> Inr (c', base'))"
| "run_call E (CallAddCoin p coin possible_overwrite) (c, base) =
    (case AddCoin E p coin possible_overwrite c of Inl e \<Rightarrow> Inl e | Inr c' \<Rightarrow> Inr (c', base))"
| "run_call E (CallSpendCoin p) (c, base) = (case SpendCoin E p c base of (_, c', base') \<Rightarrow> Inr (c', base'))"
| "run_call E (CallUncache p) (c, base) = Inr (Uncache E p c, base)"
| "run_call E (CallSetBestBlock h) (c, base) = Inr (SetBestBlock h c, base)"
| "run_call E (CallSetNullifiers tx spent) (c, base) = Inr (SetNullifiers tx spent c, base)"
| "run_call E (CallPushAnchor tree) (c, base) = Inr (PushAnchor E tree c base)"
| "run_call E (CallPopAnchor rt) (c, base) = PopAnchor E rt c base"

fun spec_call :: "'t coins_env \<Rightarrow> 't coin_call \<Rightarrow> chainstate \<Rightarrow> chainstate" where
  "spec_call E (CallAddCoin p coin _) s = (if spendable (coin_out coin) then s\<lparr>cs_utxo := (cs_utxo s)(p \<mapsto> coin)\<rparr> else s)"
| "spec_call E (CallSpendCoin p) s = s\<lparr>cs_utxo := (cs_utxo s)(p := None)\<rparr>"
| "spec_call E (CallSetBestBlock h) s = s\<lparr>cs_best_block := h\<rparr>"
| "spec_call E (CallSetNullifiers tx spent) s =
    s\<lparr>cs_nullifiers := \<lambda>nf. if nf \<in> tx_nullifiers tx then spent else cs_nullifiers s nf\<rparr>"
| "spec_call E (CallPushAnchor tree) s =
    s\<lparr>cs_anchors := (cs_anchors s)(tree_root E tree := True), cs_best_anchor := tree_root E tree\<rparr>"
| "spec_call E (CallPopAnchor rt) s =
    (if rt = cs_best_anchor s then s else s\<lparr>cs_anchors := (cs_anchors s)(cs_best_anchor s := False), cs_best_anchor := rt\<rparr>)"
| "spec_call E _ s = s"

fun call_ok :: "'t coins_env \<Rightarrow> 't coin_call \<Rightarrow> chainstate \<Rightarrow> bool" where
  "call_ok E (CallAddCoin p coin possible_overwrite) s \<longleftrightarrow> \<not> IsSpent coin \<and> (possible_overwrite \<or> cs_utxo s p = None)"
| "call_ok E (CallSetBestBlock h) s \<longleftrightarrow> h \<noteq> 0"
| "call_ok E (CallPushAnchor tree) s \<longleftrightarrow> tree_root E tree \<noteq> 0 \<and> cs_anchors s (cs_best_anchor s)"
| "call_ok E (CallPopAnchor rt) s \<longleftrightarrow> rt \<noteq> 0 \<and> cs_anchors s (cs_best_anchor s) \<and>
    (rt = cs_best_anchor s \<or> cs_best_anchor s \<noteq> empty_root E)"
| "call_ok E _ s \<longleftrightarrow> True"

fun calls_ok :: "'t coins_env \<Rightarrow> 't coin_call list \<Rightarrow> chainstate \<Rightarrow> bool" where
  "calls_ok E [] s = True"
| "calls_ok E (call # calls) s \<longleftrightarrow> call_ok E call s \<and> calls_ok E calls (spec_call E call s)"

section \<open>The view below\<close>

text \<open>A call may fill the caches below, but what they stand for stays the same until a flush.\<close>

lemma FetchCoin_base: "view_ok E base \<Longrightarrow> FetchCoin E p c base = (it, c', base') \<Longrightarrow> abs_view E base' = abs_view E base"
  by (auto simp: FetchCoin_def Let_def dest: GetCoin_law split: option.splits prod.splits)

lemma SpendCoin_base: "view_ok E base \<Longrightarrow> SpendCoin E p c base = (r, c', base') \<Longrightarrow> abs_view E base' = abs_view E base"
  by (auto simp: SpendCoin_def Let_def dest: FetchCoin_base split: option.splits prod.splits)

lemma BestAnchor_base: "view_ok E base \<Longrightarrow> BestAnchor E c base = (r, c', base') \<Longrightarrow> abs_view E base' = abs_view E base \<and> view_ok E base'"
  by (auto simp: BestAnchor_def dest: GetBestAnchor_law split: if_splits prod.splits)

lemma GetSaplingAnchorAt_base:
  "view_ok E base \<Longrightarrow> GetSaplingAnchorAt E (CacheView c base) rt = (r, CacheView c' base') \<Longrightarrow> abs_view E base' = abs_view E base"
  by (auto dest: GetSaplingAnchorAt_law split: option.splits prod.splits)

lemma PushAnchor_base: "view_ok E base \<Longrightarrow> PushAnchor E t c base = (c', base') \<Longrightarrow> abs_view E base' = abs_view E base"
  by (auto simp: PushAnchor_def Let_def dest: BestAnchor_base split: if_splits prod.splits)

lemma PopAnchor_base:
  assumes "view_ok E base" and "PopAnchor E rt c base = Inr (c', base')"
  shows "abs_view E base' = abs_view E base"
proof -
  obtain r c1 b1 where b: "BestAnchor E c base = (r, c1, b1)" by (cases "BestAnchor E c base") auto
  note B = BestAnchor_base [OF assms(1) b]
  show ?thesis
  proof (cases "r = rt")
    case False
    then obtain t c2 where "GetSaplingAnchorAt E (CacheView c1 b1) r = (Some t, CacheView c2 base')"
      using assms(2) b by (auto simp: PopAnchor_def simp del: GetSaplingAnchorAt.simps
          split: prod.splits option.splits CCoinsView.splits)
    with B GetSaplingAnchorAt_base show ?thesis by metis
  qed (use assms(2) b B in \<open>auto simp: PopAnchor_def\<close>)
qed

lemma PopAnchor_same:
  assumes "view_ok E (CacheView c base)" and "rt = best_anchor E (CacheView c base)"
  shows "\<exists>c' base'. PopAnchor E rt c base = Inr (c', base') \<and> view_ok E (CacheView c' base') \<and>
    abs_view E (CacheView c' base') = abs_view E (CacheView c base)"
proof -
  obtain r c1 b1 where b: "BestAnchor E c base = (r, c1, b1)" by (cases "BestAnchor E c base") auto
  with BestAnchor_law [OF assms(1) b] assms(2) show ?thesis by (auto simp: PopAnchor_def)
qed

section \<open>Sessions\<close>

lemma abs_view_sel:
  "cs_utxo (abs_view E v) = utxo v" "cs_nullifiers (abs_view E v) = nullifiers v" "cs_anchors (abs_view E v) = anchors E v"
  "cs_best_block (abs_view E v) = best_block v" "cs_best_anchor (abs_view E v) = best_anchor E v"
  by (simp_all add: abs_view_def)

lemma run_call_law:
  assumes ok: "view_ok E (CacheView c base)" and call: "call_ok E call (abs_view E (CacheView c base))"
  shows "\<exists>c' base'. run_call E call (c, base) = Inr (c', base') \<and> view_ok E (CacheView c' base') \<and>
    abs_view E (CacheView c' base') = spec_call E call (abs_view E (CacheView c base)) \<and> abs_view E base' = abs_view E base"
proof -
  have base: "view_ok E base" using ok by simp
  note del = utxo.simps nullifiers.simps anchors.simps best_anchor.simps best_block.simps view_ok.simps
  show ?thesis
  proof (cases call)
    case (CallAccessCoin p)
    obtain it c1 b1 where f: "FetchCoin E p c base = (it, c1, b1)" by (cases "FetchCoin E p c base") auto
    with FetchCoin_law [OF ok f] FetchCoin_base [OF base f] CallAccessCoin show ?thesis by auto
  next
    case (CallHaveCoin p)
    obtain it c1 b1 where f: "FetchCoin E p c base = (it, c1, b1)" by (cases "FetchCoin E p c base") auto
    with FetchCoin_law [OF ok f] FetchCoin_base [OF base f] CallHaveCoin show ?thesis by (auto simp: Cache_HaveCoin_def)
  next
    case (CallAddCoin p coin ov)
    then show ?thesis
      using AddCoin_law [OF ok, of coin ov p] AddCoin_skip [of coin E p ov c] ok call
      by (cases "spendable (coin_out coin)") (auto simp: abs_view_sel simp del: del)
  next
    case (CallSpendCoin p)
    obtain r c1 b1 where f: "SpendCoin E p c base = (r, c1, b1)" by (cases "SpendCoin E p c base") auto
    with SpendCoin_law [OF ok f] SpendCoin_base [OF base f] CallSpendCoin show ?thesis by (auto simp: abs_view_sel simp del: del)
  next
    case (CallPushAnchor t)
    obtain c1 b1 where f: "PushAnchor E t c base = (c1, b1)" by fastforce
    with PushAnchor_law [OF ok _ f] PushAnchor_base [OF base f] CallPushAnchor call show ?thesis
      by (auto simp: abs_view_sel simp del: del)
  next
    case (CallPopAnchor rt)
    show ?thesis
    proof (cases "rt = best_anchor E (CacheView c base)")
      case True
      with PopAnchor_same [OF ok True] PopAnchor_base [OF base] CallPopAnchor show ?thesis
        by (fastforce simp: abs_view_sel simp del: del)
    next
      case False
      with PopAnchor_law [OF ok, of rt] PopAnchor_base [OF base] CallPopAnchor call show ?thesis
        by (fastforce simp: abs_view_sel simp del: del)
    qed
  next
    case (CallUncache p)
    with Uncache_law [OF ok] show ?thesis by (simp del: del)
  next
    case (CallSetBestBlock h)
    with SetBestBlock_law [OF ok, of h] call show ?thesis by (simp del: del)
  next
    case (CallSetNullifiers tx spent)
    with SetNullifiers_law [OF ok, of tx spent] show ?thesis by (simp add: abs_view_sel del: del)
  qed
qed

lemma run_calls_law:
  assumes "view_ok E (CacheView c base)" and "calls_ok E calls (abs_view E (CacheView c base))"
  shows "\<exists>c' base'. fold_sum (run_call E) calls (c, base) = Inr (c', base') \<and> view_ok E (CacheView c' base') \<and>
    abs_view E (CacheView c' base') = fold (spec_call E) calls (abs_view E (CacheView c base)) \<and> abs_view E base' = abs_view E base"
  using assms
proof (induction calls arbitrary: c base)
  case (Cons call calls)
  then obtain c1 b1 where r: "run_call E call (c, base) = Inr (c1, b1)" "view_ok E (CacheView c1 b1)"
    "abs_view E (CacheView c1 b1) = spec_call E call (abs_view E (CacheView c base))" "abs_view E b1 = abs_view E base"
    using run_call_law [OF Cons.prems(1), of call] by auto
  with Cons.IH [OF r(2)] Cons.prems(2) show ?case by simp
qed auto

lemma new_cache: "view_ok E base \<Longrightarrow> view_ok E (CacheView CCoinsViewCache_new base) \<and> abs_view E (CacheView CCoinsViewCache_new base) = abs_view E base"
  by (simp add: abs_view_def cache_ok_def CCoinsViewCache_new_def)

text \<open>
  C5. A coin cache implements the chain state: starting from a new cache over a well-formed view, any sequence of
  calls that meets the requirements of the code raises no exception and fails no assertion, what is read through the
  cache afterwards is the specified effect of the calls on the chain state below, the invariant of the stack of
  caches holds, and the view below still stands for the same state.
\<close>

theorem session_refines:
  assumes "view_ok E base" and "calls_ok E calls (abs_view E base)"
  shows "\<exists>c base'. fold_sum (run_call E) calls (CCoinsViewCache_new, base) = Inr (c, base') \<and> view_ok E (CacheView c base') \<and>
    abs_view E (CacheView c base') = fold (spec_call E) calls (abs_view E base) \<and> abs_view E base' = abs_view E base"
  using run_calls_law [of E CCoinsViewCache_new base calls] new_cache [OF assms(1)] assms(2) by simp

definition sample_calls :: "uint256 coin_call list" where
  "sample_calls = [CallHaveCoin (sample_point 7), CallSpendCoin (sample_point 7), CallAddCoin (sample_point 8) (sample_coin 2) False,
     CallPushAnchor 9, CallPopAnchor 1, CallSetBestBlock 6, CallUncache (sample_point 8)]"

lemma sample_spendable: "spendable (coin_out (sample_coin h))"
  by (simp add: spendable_def sample_coin_def Coin_new_def IsUnspendable_def CTxOut_IsZerocoinMint_def IsZerocoinMint_def StartsWithOpcode_def MAX_SCRIPT_SIZE_def)

lemma session_refines_witness:
  "\<exists>c base'. fold_sum (run_call sample_env) sample_calls (CCoinsViewCache_new, DBView sample_db) = Inr (c, base') \<and>
    utxo (CacheView c base') = [sample_point 8 \<mapsto> sample_coin 2] \<and> utxo base' = [sample_point 7 \<mapsto> sample_coin 1]"
proof -
  have ok: "view_ok sample_env (DBView sample_db)" using sample_db_ok by simp
  have a: "db_anchor sample_env sample_db 1" "DB_GetBestAnchor sample_env sample_db = 1" "empty_root sample_env = 1"
      "tree_root sample_env t = t" for t
    by (simp_all add: db_anchor_def DB_GetSaplingAnchorAt_def empty_root_def sample_env_def DB_GetBestAnchor_def sample_db_def)
  have calls: "calls_ok sample_env sample_calls (abs_view sample_env (DBView sample_db))"
    using a by (simp add: sample_calls_def abs_view_def sample_db_utxo)
  show ?thesis
    using session_refines [OF ok calls] a sample_spendable
    by (force simp: sample_calls_def abs_view_def sample_db_utxo fun_eq_iff simp del: utxo.simps(3))
qed

section \<open>Reads of a transaction\<close>

text \<open>
  C18. The inputs of a transaction are available exactly when the chain state says so: over a well-formed view,
  \<open>HaveInputs\<close> is true exactly if every input of an ordinary transaction is an unspent coin, and
  \<open>HaveShieldedRequirements\<close> exactly if no nullifier of its shielded spends is spent and every anchor is known; neither changes the
  state the view stands for.
\<close>

theorem HaveInputs_correct:
  assumes "view_ok E v" and "HaveInputs E v tx = (r, v1)" and "HaveShieldedRequirements E v1 tx = (r', v2)"
  shows "view_ok E v2 \<and> abs_view E v2 = abs_view E v \<and>
    (r \<longleftrightarrow> IsCoinBase tx \<or> HasZerocoinSpendInputs tx \<or> (\<forall>txin \<in> set (vin tx). utxo v (prevout txin) \<noteq> None)) \<and>
    (r' \<longleftrightarrow> (IsShieldedTx tx \<longrightarrow> (\<forall>d. sapData tx = Some d \<longrightarrow> (\<forall>sd \<in> set (vShieldedSpend d).
      \<not> nullifiers v (sd_nullifier sd) \<and> anchors E v (sd_anchor sd)))))"
proof -
  have I: "view_ok E v1 \<and> abs_view E v1 = abs_view E v \<and>
      (r \<longleftrightarrow> IsCoinBase tx \<or> HasZerocoinSpendInputs tx \<or> (\<forall>txin \<in> set (vin tx). utxo v (prevout txin) \<noteq> None))"
    using assms(1,2) have_coin.all_read_law [OF assms(1), of "map prevout (vin tx)" r v1]
    by (auto simp: HaveInputs_def list_all_iff abs_view_sel split: if_splits)
  have S: "view_ok E v2 \<and> abs_view E v2 = abs_view E v1 \<and>
      (r' \<longleftrightarrow> (IsShieldedTx tx \<longrightarrow> (\<forall>d. sapData tx = Some d \<longrightarrow> (\<forall>sd \<in> set (vShieldedSpend d).
        \<not> nullifiers v1 (sd_nullifier sd) \<and> anchors E v1 (sd_anchor sd)))))"
    using I [THEN conjunct1] assms(3) spend_requirement.all_read_law [OF I [THEN conjunct1]]
    by (auto simp: HaveShieldedRequirements_def list_all_iff abs_view_sel split: if_splits option.splits)
  show ?thesis using I S by (auto simp: abs_view_eq_iff)
qed

definition sample_spend :: "uint256 \<Rightarrow> CTransaction" where
  "sample_spend txid = sample_tx\<lparr>vin := [\<lparr>prevout = sample_point txid, scriptSig = [], nSequence = 0\<rparr>], sapData := None\<rparr>"

lemma HaveInputs_correct_witness:
  "fst (HaveInputs sample_env (CacheView sample_cache (DBView sample_db)) (sample_spend 8)) \<and>
    \<not> fst (HaveInputs sample_env (CacheView sample_cache (DBView sample_db)) (sample_spend 7))"
proof -
  have ok: "view_ok sample_env (CacheView sample_cache (DBView sample_db))" using sample_db_ok sample_child_ok by simp
  have z: "\<not> HasZerocoinSpendInputs (sample_spend i)" "\<not> IsShieldedTx (sample_spend i)" for i
    by (simp_all add: sample_spend_def HasZerocoinSpendInputs_def CTxIn_IsZerocoinSpend_def CTxIn_IsZerocoinPublicSpend_def
        IsZerocoinSpend_def IsZerocoinPublicSpend_def StartsWithOpcode_def IsShieldedTx_def hasSaplingData_def sample_point_def OutPoint_IsNull_def)
  have cb: "\<not> IsCoinBase (sample_spend i)" if "i \<noteq> 0" for i
    using that by (simp add: IsCoinBase_def sample_spend_def sample_point_def OutPoint_IsNull_def)
  have s: "HaveShieldedRequirements sample_env v (sample_spend i) = (True, v)" for v i
    using z by (simp add: HaveShieldedRequirements_def)
  show ?thesis
    using HaveInputs_correct [OF ok prod.collapse [symmetric] s, of 8]
      HaveInputs_correct [OF ok prod.collapse [symmetric] s, of 7] z cb sample_utxo
    by (simp add: sample_spend_def del: utxo.simps)
qed

end
