(* ===== verification/Chainstate.thy ===== *)
theory Chainstate
  imports Coins_Calls
begin

text \<open>
  Connecting and disconnecting the transactions of a block, from \<^verbatim>\<open>src/validation.cpp\<close>: \<open>UpdateCoins\<close> spends the
  inputs, marks the nullifiers and adds the outputs, and leaves the spent coins as undo data; \<open>DisconnectBlock\<close>
  undoes a block from that data. The transaction hash is the parameter \<open>GetHash\<close>; the undo data of a
  block is passed as read from disk.
\<close>

section \<open>Connecting\<close>

text \<open>The undo record of an input is the coin that \<open>SpendCoin\<close> moves out, a new empty coin when it finds none.\<close>

fun SpendInputs ::
  "'t coins_env \<Rightarrow> COutPoint list \<Rightarrow> 't session \<Rightarrow> Coin list \<times> 't session" where
  "SpendInputs E [] st = ([], st)"
| "SpendInputs E (p # ps) (c, base) =
    (case SpendCoin E p c base of
       (r, c', base') \<Rightarrow>
         (case SpendInputs E ps (c', base') of (vprevout, st) \<Rightarrow> (coin_or_empty r # vprevout, st)))"

definition UpdateCoins ::
  "'t coins_env \<Rightarrow> (CTransaction \<Rightarrow> uint256) \<Rightarrow> COutPoint list \<Rightarrow> CTransaction \<Rightarrow> uint32 \<Rightarrow> bool \<Rightarrow>
    't session \<Rightarrow> coins_error + Coin list \<times> 't session" where
  "UpdateCoins E GetHash invalid tx nHeight fSkipInvalid st =
    (case (if \<not> IsCoinBase tx \<and> \<not> HasZerocoinSpendInputs tx then SpendInputs E (map prevout (vin tx)) st else ([], st)) of
       (vprevout, (c, base)) \<Rightarrow>
         (case AddCoins E GetHash invalid tx nHeight False fSkipInvalid (SetNullifiers tx True c) base of
            Inl e \<Rightarrow> Inl e
          | Inr st' \<Rightarrow> Inr (vprevout, st')))"

text \<open>
  The coin updates of \<^verbatim>\<open>ConnectBlock\<close>: the transactions in order, with the undo record of each one that is not
  the first, then the new anchor and the new best block.
\<close>

fun ConnectTxs ::
  "'t coins_env \<Rightarrow> (CTransaction \<Rightarrow> uint256) \<Rightarrow> COutPoint list \<Rightarrow> uint32 \<Rightarrow> bool \<Rightarrow> CTransaction list \<Rightarrow>
    't session \<Rightarrow> coins_error + Coin list list \<times> 't session" where
  "ConnectTxs E GetHash invalid nHeight fSkipInvalid [] st = Inr ([], st)"
| "ConnectTxs E GetHash invalid nHeight fSkipInvalid (tx # txs) st =
    (case UpdateCoins E GetHash invalid tx nHeight fSkipInvalid st of
       Inl e \<Rightarrow> Inl e
     | Inr (txundo, st1) \<Rightarrow>
         (case ConnectTxs E GetHash invalid nHeight fSkipInvalid txs st1 of
            Inl e \<Rightarrow> Inl e
          | Inr (undos, st2) \<Rightarrow> Inr (txundo # undos, st2)))"

definition ConnectCoins ::
  "'t coins_env \<Rightarrow> (CTransaction \<Rightarrow> uint256) \<Rightarrow> COutPoint list \<Rightarrow> uint32 \<Rightarrow> bool \<Rightarrow> CTransaction list \<Rightarrow> 't \<Rightarrow> uint256 \<Rightarrow>
    't session \<Rightarrow> coins_error + Coin list list \<times> 't session" where
  "ConnectCoins E GetHash invalid nHeight fSkipInvalid vtx sapling_tree hash st =
    (case ConnectTxs E GetHash invalid nHeight fSkipInvalid vtx st of
       Inl e \<Rightarrow> Inl e
     | Inr (undos, (c, base)) \<Rightarrow>
         (case PushAnchor E sapling_tree c base of (c', base') \<Rightarrow> Inr (tl undos, (SetBestBlock hash c', base'))))"

section \<open>Disconnecting\<close>

datatype DisconnectResult = DISCONNECT_OK | DISCONNECT_UNCLEAN | DISCONNECT_FAILED

definition ApplyTxInUndo ::
  "'t coins_env \<Rightarrow> Coin \<Rightarrow> COutPoint \<Rightarrow> 't session \<Rightarrow> coins_error + DisconnectResult \<times> 't session" where
  "ApplyTxInUndo E undo out st =
    (case st of (c, base) \<Rightarrow>
      (case Cache_HaveCoin E out c base of
         (have_coin, c1, base1) \<Rightarrow>
           (let fClean = \<not> have_coin;
                add = (\<lambda>coin c2 base2.
                  (case AddCoin E out coin (\<not> fClean) c2 of
                     Inl e \<Rightarrow> Inl e
                   | Inr c3 \<Rightarrow> Inr (if fClean then DISCONNECT_OK else DISCONNECT_UNCLEAN, (c3, base2))))
            in if coin_nHeight undo = 0 then
                 (case AccessByTxid E (CacheView c1 base1) (out_hash out) of
                    (alternate, CacheView c2 base2) \<Rightarrow>
                      if \<not> IsSpent alternate then
                        add (undo\<lparr>coin_nHeight := coin_nHeight alternate, coin_fCoinBase := coin_fCoinBase alternate,
                                  coin_fCoinStake := coin_fCoinStake alternate\<rparr>) c2 base2
                      else Inr (DISCONNECT_FAILED, (c2, base2))
                  | (_, _) \<Rightarrow> Inr (DISCONNECT_FAILED, (c1, base1)))
               else add undo c1 base1)))"

text \<open>The outputs of a transaction, from index \<open>i\<close>: each is spent and compared with the coin that was stored.\<close>

fun DisconnectOutputs ::
  "'t coins_env \<Rightarrow> uint256 \<Rightarrow> nat \<Rightarrow> CTxOut list \<Rightarrow> bool \<Rightarrow> 't session \<Rightarrow> bool \<times> 't session" where
  "DisconnectOutputs E txid i [] fClean st = (fClean, st)"
| "DisconnectOutputs E txid i (txout # rest) fClean (c, base) =
    (if \<not> IsUnspendable (scriptPubKey txout) \<and> \<not> CTxOut_IsZerocoinMint txout then
       (case SpendCoin E \<lparr>out_hash = txid, out_n = word_of_nat i\<rparr> c base of
          (r, c', base') \<Rightarrow>
            DisconnectOutputs E txid (i + 1) rest (fClean \<and> txout = coin_out (coin_or_empty r)) (c', base'))
     else DisconnectOutputs E txid (i + 1) rest fClean (c, base))"

text \<open>The inputs, last to first: the pairs are given in that order.\<close>

fun RestoreInputs ::
  "'t coins_env \<Rightarrow> (Coin \<times> COutPoint) list \<Rightarrow> bool \<Rightarrow> 't session \<Rightarrow> coins_error + (bool option) \<times> 't session" where
  "RestoreInputs E [] fClean st = Inr (Some fClean, st)"
| "RestoreInputs E ((undo, out) # rest) fClean st =
    (case ApplyTxInUndo E undo out st of
       Inl e \<Rightarrow> Inl e
     | Inr (res, st') \<Rightarrow>
         if res = DISCONNECT_FAILED then Inr (None, st')
         else RestoreInputs E rest (fClean \<and> res \<noteq> DISCONNECT_UNCLEAN) st')"

text \<open>One transaction of the loop: the clean flag so far to the new one, or nothing for \<^verbatim>\<open>DISCONNECT_FAILED\<close>.\<close>

definition DisconnectTx ::
  "'t coins_env \<Rightarrow> (CTransaction \<Rightarrow> uint256) \<Rightarrow> (CTransaction \<Rightarrow> bool) \<Rightarrow> CTransaction \<Rightarrow> Coin list option \<Rightarrow> bool \<Rightarrow>
    't session \<Rightarrow> coins_error + (bool option) \<times> 't session" where
  "DisconnectTx E GetHash DisconnectZerocoinTx tx txundo fClean st =
    (if \<not> DisconnectZerocoinTx tx then Inr (None, st)
     else
       (case DisconnectOutputs E (GetHash tx) 0 (vout tx) fClean st of
          (fClean1, (c, base)) \<Rightarrow>
            if IsCoinBase tx \<or> HasZerocoinSpendInputs tx then Inr (Some fClean1, (c, base))
            else
              (let c' = SetNullifiers tx False c
               in (case txundo of
                     None \<Rightarrow> Inl AssertionFailed
                   | Some vprevout \<Rightarrow>
                       if length vprevout \<noteq> length (vin tx) then Inr (None, (c', base))
                       else RestoreInputs E (rev (zip vprevout (map prevout (vin tx)))) fClean1 (c', base)))))"

text \<open>
  The transactions in reverse, as the recursion returns. The first transaction of a block has no undo record: reading
  one would be out of range.
\<close>

fun DisconnectTxs ::
  "'t coins_env \<Rightarrow> (CTransaction \<Rightarrow> uint256) \<Rightarrow> (CTransaction \<Rightarrow> bool) \<Rightarrow> (CTransaction \<times> Coin list option) list \<Rightarrow> bool \<Rightarrow>
    't session \<Rightarrow> coins_error + (bool option) \<times> 't session" where
  "DisconnectTxs E GetHash DZ [] fClean st = Inr (Some fClean, st)"
| "DisconnectTxs E GetHash DZ ((tx, txundo) # rest) fClean st =
    (case DisconnectTx E GetHash DZ tx txundo fClean st of
       Inl e \<Rightarrow> Inl e
     | Inr (None, st') \<Rightarrow> Inr (None, st')
     | Inr (Some fClean', st') \<Rightarrow> DisconnectTxs E GetHash DZ rest fClean' st')"

definition DisconnectBlock ::
  "'t coins_env \<Rightarrow> (CTransaction \<Rightarrow> uint256) \<Rightarrow> (CTransaction \<Rightarrow> bool) \<Rightarrow> CTransaction list \<Rightarrow> Coin list list option \<Rightarrow>
    bool \<Rightarrow> uint256 \<Rightarrow> uint256 \<Rightarrow> 't session \<Rightarrow> coins_error + DisconnectResult \<times> 't session" where
  "DisconnectBlock E GetHash DisconnectZerocoinTx vtx undo v5_active hashFinalSaplingRoot hashPrev st =
    (case undo of
       None \<Rightarrow> Inr (DISCONNECT_FAILED, st)
     | Some vtxundo \<Rightarrow>
         if length vtxundo + 1 \<noteq> length vtx then Inr (DISCONNECT_FAILED, st)
         else
           (case DisconnectTxs E GetHash DisconnectZerocoinTx (rev (zip vtx (None # map Some vtxundo))) True st of
              Inl e \<Rightarrow> Inl e
            | Inr (None, st') \<Rightarrow> Inr (DISCONNECT_FAILED, st')
            | Inr (Some fClean, (c, base)) \<Rightarrow>
                (case PopAnchor E (if v5_active then hashFinalSaplingRoot else empty_root E) c base of
                   Inl e \<Rightarrow> Inl e
                 | Inr (c', base') \<Rightarrow>
                     Inr (if fClean then DISCONNECT_OK else DISCONNECT_UNCLEAN, (SetBestBlock hashPrev c', base')))))"

section \<open>The effect of a transaction on the chain state\<close>

definition session_ok :: "'t coins_env \<Rightarrow> 't session \<Rightarrow> bool" where
  "session_ok E st = view_ok E (CacheView (fst st) (snd st))"

definition abs_session :: "'t coins_env \<Rightarrow> 't session \<Rightarrow> chainstate" where
  "abs_session E st = abs_view E (CacheView (fst st) (snd st))"

definition without :: "COutPoint list \<Rightarrow> (COutPoint \<Rightarrow> Coin option) \<Rightarrow> COutPoint \<Rightarrow> Coin option" where
  "without ps u = (\<lambda>p. if p \<in> set ps then None else u p)"

text \<open>The coins of the outputs from index \<open>i\<close>, where \<open>mk\<close> makes the coin of an output.\<close>

fun created :: "uint256 \<Rightarrow> (CTxOut \<Rightarrow> Coin) \<Rightarrow> nat \<Rightarrow> CTxOut list \<Rightarrow> COutPoint \<Rightarrow> Coin option" where
  "created txid mk i [] = Map.empty"
| "created txid mk i (txout # rest) =
    (if spendable txout then (created txid mk (i + 1) rest)(\<lparr>out_hash = txid, out_n = word_of_nat i\<rparr> \<mapsto> mk txout)
     else created txid mk (i + 1) rest)"

definition ordinary :: "CTransaction \<Rightarrow> bool" where
  "ordinary tx \<longleftrightarrow> \<not> IsCoinBase tx \<and> \<not> HasZerocoinSpendInputs tx"

definition spent_points :: "CTransaction \<Rightarrow> COutPoint list" where
  "spent_points tx = (if ordinary tx then map prevout (vin tx) else [])"

definition tx_coin :: "CTransaction \<Rightarrow> uint32 \<Rightarrow> CTxOut \<Rightarrow> Coin" where
  "tx_coin tx h txout = Coin_new txout h (IsCoinBase tx) (IsCoinStake tx)"

definition mark :: "CTransaction \<Rightarrow> bool \<Rightarrow> chainstate \<Rightarrow> chainstate" where
  "mark tx spent s = s\<lparr>cs_nullifiers := \<lambda>nf. if nf \<in> tx_nullifiers tx then spent else cs_nullifiers s nf\<rparr>"

definition apply_tx :: "(CTransaction \<Rightarrow> uint256) \<Rightarrow> uint32 \<Rightarrow> CTransaction \<Rightarrow> chainstate \<Rightarrow> chainstate" where
  "apply_tx GetHash h tx s = (mark tx True s)
     \<lparr>cs_utxo := without (spent_points tx) (cs_utxo s) ++ created (GetHash tx) (tx_coin tx h) 0 (vout tx)\<rparr>"

text \<open>
  What the checks before \<open>UpdateCoins\<close> establish: the inputs are distinct unspent coins with a height, the nullifiers are new,
  the outputs have proper amounts and their outpoints are free.
\<close>

definition tx_applies :: "(CTransaction \<Rightarrow> uint256) \<Rightarrow> CTransaction \<Rightarrow> chainstate \<Rightarrow> bool" where
  "tx_applies GetHash tx s \<longleftrightarrow> distinct (spent_points tx) \<and>
    (\<forall>p \<in> set (spent_points tx). \<exists>coin. cs_utxo s p = Some coin \<and> spendable (coin_out coin) \<and> coin_nHeight coin \<noteq> 0) \<and>
    (\<not> ordinary tx \<longrightarrow> tx_nullifiers tx = {}) \<and> (\<forall>nf \<in> tx_nullifiers tx. \<not> cs_nullifiers s nf) \<and>
    length (vout tx) \<le> 2 ^ 32 \<and> (\<forall>txout \<in> set (vout tx). nValue txout \<noteq> - 1) \<and>
    (\<forall>n < length (vout tx). cs_utxo s \<lparr>out_hash = GetHash tx, out_n = word_of_nat n\<rparr> = None)"

lemma utxo_unspent: "utxo v p = Some coin \<Longrightarrow> \<not> IsSpent coin"
  by (induction v) (auto simp: overlay_def db_utxo_def unspent_def bind_eq_Some_conv split: option.splits if_splits)

lemma abs_session_unspent: "cs_utxo (abs_session E st) p = Some coin \<Longrightarrow> \<not> IsSpent coin"
  using utxo_unspent by (simp add: abs_session_def abs_view_sel del: utxo.simps) blast

lemma outpoint_inj:
  "m < 2 ^ 32 \<Longrightarrow> n < 2 ^ 32 \<Longrightarrow> (word_of_nat m :: uint32) = word_of_nat n \<longleftrightarrow> m = n"
  by (auto simp: word_of_nat_eq_iff take_bit_nat_eq_self)

lemma created_before:
  assumes "n < i" and "i + length outs \<le> 2 ^ 32"
  shows "created txid mk i outs \<lparr>out_hash = txid, out_n = word_of_nat n\<rparr> = None"
  using assms
proof (induction outs arbitrary: i)
  case (Cons txout outs)
  then have "(word_of_nat n :: uint32) \<noteq> word_of_nat i" by (simp add: outpoint_inj)
  with Cons show ?case by simp
qed simp

lemma created_step:
  fixes txid :: uint256
  assumes "i + length (txout # outs) \<le> 2 ^ 32" and "spendable txout"
  defines "p \<equiv> \<lparr>out_hash = txid, out_n = word_of_nat i\<rparr>"
  shows "u(p \<mapsto> mk txout) ++ created txid mk (i + 1) outs = u ++ created txid mk i (txout # outs)"
    and "u p = None \<Longrightarrow> (u ++ created txid mk i (txout # outs))(p := None) = u ++ created txid mk (i + 1) outs"
    and "(u ++ created txid mk i (txout # outs)) p = Some (mk txout)"
proof -
  have "created txid mk (i + 1) outs p = None" using created_before [of i "i + 1"] assms(1) by (simp add: p_def)
  then show "u(p \<mapsto> mk txout) ++ created txid mk (i + 1) outs = u ++ created txid mk i (txout # outs)"
    and "u p = None \<Longrightarrow> (u ++ created txid mk i (txout # outs))(p := None) = u ++ created txid mk (i + 1) outs"
    and "(u ++ created txid mk i (txout # outs)) p = Some (mk txout)"
    using assms(2) by (auto simp: p_def map_add_def fun_eq_iff split: option.splits)
qed

section \<open>Connecting refines the effect\<close>

lemma SpendCoin_session:
  assumes "session_ok E (c, base)" and "SpendCoin E p c base = (r, c', base')"
  shows "session_ok E (c', base') \<and>
    abs_session E (c', base') = (abs_session E (c, base))\<lparr>cs_utxo := (cs_utxo (abs_session E (c, base)))(p := None)\<rparr> \<and>
    coin_or_empty r = coin_or_empty (cs_utxo (abs_session E (c, base)) p)"
  using SpendCoin_law assms by (simp add: session_ok_def abs_session_def abs_view_sel del: utxo.simps view_ok.simps)

lemma SetNullifiers_session:
  assumes "session_ok E (c, base)"
  shows "session_ok E (SetNullifiers tx b c, base) \<and>
    abs_session E (SetNullifiers tx b c, base) = mark tx b (abs_session E (c, base))"
  using SetNullifiers_law [of E c base tx b] assms
  by (simp add: session_ok_def abs_session_def mark_def abs_view_sel del: view_ok.simps nullifiers.simps)

lemma SpendInputs_law:
  assumes "session_ok E st" and "SpendInputs E ps st = (undo, st')" and "distinct ps"
  shows "session_ok E st' \<and> abs_session E st' = (abs_session E st)\<lparr>cs_utxo := without ps (cs_utxo (abs_session E st))\<rparr> \<and>
    undo = map (\<lambda>p. coin_or_empty (cs_utxo (abs_session E st) p)) ps"
  using assms
proof (induction ps arbitrary: st undo)
  case Nil
  then show ?case by (auto simp: without_def)
next
  case (Cons p ps)
  obtain c base where st: "st = (c, base)" by fastforce
  obtain r c1 b1 where s: "SpendCoin E p c base = (r, c1, b1)" by (cases "SpendCoin E p c base") auto
  obtain undo1 st2 where i: "SpendInputs E ps (c1, b1) = (undo1, st2)" by (cases "SpendInputs E ps (c1, b1)") auto
  have S: "session_ok E (c1, b1)"
      "abs_session E (c1, b1) = (abs_session E st)\<lparr>cs_utxo := (cs_utxo (abs_session E st))(p := None)\<rparr>"
      "coin_or_empty r = coin_or_empty (cs_utxo (abs_session E st) p)"
    using SpendCoin_session [OF _ s] Cons.prems(1) by (simp_all add: st)
  have eq: "st2 = st'" "undo = coin_or_empty r # undo1" using Cons.prems(2) s i by (simp_all add: st)
  have "without ps ((cs_utxo (abs_session E st))(p := None)) = without (p # ps) (cs_utxo (abs_session E st))"
    by (auto simp: without_def fun_eq_iff)
  moreover have "map (\<lambda>q. coin_or_empty (((cs_utxo (abs_session E st))(p := None)) q)) ps =
      map (\<lambda>q. coin_or_empty (cs_utxo (abs_session E st) q)) ps"
    using Cons.prems(3) by auto
  ultimately show ?case
    using Cons.IH [OF S(1) i [unfolded eq(1)]] Cons.prems(3) S eq by (simp del: fun_upd_apply)
qed

lemma AddCoins_loop_law:
  assumes "session_ok E (c, base)" and "i + length outs \<le> 2 ^ 32"
    and "\<forall>txout \<in> set outs. \<not> IsSpent (mk txout) \<and> coin_out (mk txout) = txout"
    and "\<forall>n. i \<le> n \<longrightarrow> n < i + length outs \<longrightarrow> cs_utxo (abs_session E (c, base)) \<lparr>out_hash = txid, out_n = word_of_nat n\<rparr> = None"
  shows "\<exists>st'. AddCoins_loop E invalid False False txid mk i outs c base = Inr st' \<and> session_ok E st' \<and>
    abs_session E st' = (abs_session E (c, base))\<lparr>cs_utxo := cs_utxo (abs_session E (c, base)) ++ created txid mk i outs\<rparr>"
  using assms
proof (induction outs arbitrary: i c)
  case (Cons txout outs)
  let ?p = "\<lparr>out_hash = txid, out_n = word_of_nat i\<rparr>"
  let ?u = "cs_utxo (abs_session E (c, base))"
  have new: "?u ?p = None" using Cons.prems(4) by (simp del: of_nat_Suc)
  show ?case
  proof (cases "spendable txout")
    case True
    then obtain c1 where c1: "AddCoin E ?p (mk txout) False c = Inr c1" "session_ok E (c1, base)"
        "abs_session E (c1, base) = (abs_session E (c, base))\<lparr>cs_utxo := ?u(?p \<mapsto> mk txout)\<rparr>"
      using AddCoin_law [of E c base "mk txout" False ?p] Cons.prems(1,3) new
      by (auto simp: session_ok_def abs_session_def abs_view_sel simp del: utxo.simps view_ok.simps)
    have "cs_utxo (abs_session E (c1, base)) \<lparr>out_hash = txid, out_n = word_of_nat n\<rparr> = None"
      if "i + 1 \<le> n" "n < i + 1 + length outs" for n
    proof -
      have "(word_of_nat n :: uint32) \<noteq> word_of_nat i" using that Cons.prems(2) by (subst outpoint_inj) auto
      with that Cons.prems(4) show ?thesis by (simp add: c1(3))
    qed
    then show ?thesis
      using Cons.IH [OF c1(2), of "i + 1"] Cons.prems(2,3) c1 created_step(1) [OF Cons.prems(2) True, of ?u txid mk]
      by (auto simp del: created.simps fun_upd_apply)
  next
    case False
    then have "AddCoin E ?p (mk txout) False c = Inr c" using Cons.prems(3) by (intro AddCoin_skip) auto
    with False Cons.IH [OF Cons.prems(1), of "i + 1"] Cons.prems(2-4) show ?thesis by simp
  qed
qed auto

lemma UpdateCoins_law:
  assumes ok: "session_ok E st" and app: "tx_applies GetHash tx (abs_session E st)"
  shows "\<exists>st'. UpdateCoins E GetHash invalid tx h False st =
      Inr (map (\<lambda>p. coin_or_empty (cs_utxo (abs_session E st) p)) (spent_points tx), st') \<and>
    session_ok E st' \<and> abs_session E st' = apply_tx GetHash h tx (abs_session E st)"
proof -
  let ?s = "abs_session E st"
  obtain undo c base where i: "(if ordinary tx then SpendInputs E (map prevout (vin tx)) st else ([], st)) = (undo, (c, base))"
    by (metis surj_pair)
  have S: "session_ok E (c, base) \<and> abs_session E (c, base) = ?s\<lparr>cs_utxo := without (spent_points tx) (cs_utxo ?s)\<rparr> \<and>
      undo = map (\<lambda>p. coin_or_empty (cs_utxo ?s p)) (spent_points tx)"
    using SpendInputs_law [OF ok, of "map prevout (vin tx)" undo "(c, base)"] i ok app
    by (auto simp: spent_points_def tx_applies_def without_def split: if_splits)
  let ?c = "SetNullifiers tx True c"
  have N: "session_ok E (?c, base)" "abs_session E (?c, base) = mark tx True (abs_session E (c, base))"
    using SetNullifiers_session [of E c base tx True] S by auto
  have free: "\<forall>n < length (vout tx). cs_utxo (abs_session E (?c, base)) \<lparr>out_hash = GetHash tx, out_n = word_of_nat n\<rparr> = None"
    using app S by (auto simp: N(2) mark_def tx_applies_def without_def)
  have "\<exists>st'. AddCoins E GetHash invalid tx h False False ?c base = Inr st' \<and> session_ok E st' \<and>
      abs_session E st' = (abs_session E (?c, base))\<lparr>cs_utxo := cs_utxo (abs_session E (?c, base)) ++ created (GetHash tx) (tx_coin tx h) 0 (vout tx)\<rparr>"
    unfolding AddCoins_def tx_coin_def [symmetric] using N(1) app free
    by (intro AddCoins_loop_law) (auto simp: tx_applies_def tx_coin_def Coin_new_def IsSpent_def CTxOut_IsNull_def)
  with S N i show ?thesis
    by (auto simp: UpdateCoins_def ordinary_def apply_tx_def mark_def)
qed

section \<open>Disconnecting undoes the effect\<close>

lemma DisconnectOutputs_law:
  assumes "session_ok E st" and "i + length outs \<le> 2 ^ 32" and "\<forall>txout. coin_out (mk txout) = txout"
    and "cs_utxo (abs_session E st) = u ++ created txid mk i outs"
    and "\<forall>n. i \<le> n \<longrightarrow> n < i + length outs \<longrightarrow> u \<lparr>out_hash = txid, out_n = word_of_nat n\<rparr> = None"
  shows "\<exists>st'. DisconnectOutputs E txid i outs fClean st = (fClean, st') \<and> session_ok E st' \<and>
    abs_session E st' = (abs_session E st)\<lparr>cs_utxo := u\<rparr>"
  using assms
proof (induction outs arbitrary: i st)
  case Nil
  then have "(abs_session E st)\<lparr>cs_utxo := u\<rparr> = abs_session E st" by (cases "abs_session E st") simp
  with Nil show ?case by simp
next
  case (Cons txout outs)
  obtain c base where st: "st = (c, base)" by fastforce
  let ?p = "\<lparr>out_hash = txid, out_n = word_of_nat i\<rparr>"
  show ?case
  proof (cases "spendable txout")
    case True
    obtain r c1 b1 where s: "SpendCoin E ?p c base = (r, c1, b1)" by (cases "SpendCoin E ?p c base") auto
    note C = created_step [OF Cons.prems(2) True, of u txid mk]
    have "u ?p = None" using Cons.prems(5) by (simp del: of_nat_Suc)
    then have S: "session_ok E (c1, b1)"
        "abs_session E (c1, b1) = (abs_session E st)\<lparr>cs_utxo := u ++ created txid mk (i + 1) outs\<rparr>"
        "coin_or_empty r = mk txout"
      using SpendCoin_session [OF _ s] Cons.prems(1,4) C(2,3) by (simp_all add: st coin_or_empty_def del: created.simps)
    have "DisconnectOutputs E txid i (txout # outs) fClean st = DisconnectOutputs E txid (i + 1) outs fClean (c1, b1)"
      using True s S(3) Cons.prems(3) by (simp add: st spendable_def)
    with Cons.IH [OF S(1), of "i + 1"] Cons.prems(2,3,5) S(2) show ?thesis by simp
  next
    case False
    then have "DisconnectOutputs E txid i (txout # outs) fClean st = DisconnectOutputs E txid (i + 1) outs fClean st"
      by (auto simp: st spendable_def)
    with Cons.IH [OF Cons.prems(1), of "i + 1"] Cons.prems(2-5) False show ?thesis by simp
  qed
qed

lemma ApplyTxInUndo_law:
  assumes ok: "session_ok E st" and undo: "\<not> IsSpent undo" "spendable (coin_out undo)" "coin_nHeight undo \<noteq> 0"
    and absent: "cs_utxo (abs_session E st) p = None"
  shows "\<exists>st'. ApplyTxInUndo E undo p st = Inr (DISCONNECT_OK, st') \<and> session_ok E st' \<and>
    abs_session E st' = (abs_session E st)\<lparr>cs_utxo := (cs_utxo (abs_session E st))(p \<mapsto> undo)\<rparr>"
proof -
  obtain c base where st: "st = (c, base)" by fastforce
  obtain r c1 b1 where h: "Cache_HaveCoin E p c base = (r, c1, b1)" by (cases "Cache_HaveCoin E p c base") auto
  have H: "session_ok E (c1, b1)" "abs_session E (c1, b1) = abs_session E st" "\<not> r"
    using Cache_HaveCoin_law [OF _ h] ok absent
    by (simp_all add: st session_ok_def abs_session_def abs_view_sel del: utxo.simps view_ok.simps)
  then obtain c2 where "AddCoin E p undo False c1 = Inr c2" "session_ok E (c2, b1)"
      "abs_session E (c2, b1) = (abs_session E st)\<lparr>cs_utxo := (cs_utxo (abs_session E st))(p \<mapsto> undo)\<rparr>"
    using AddCoin_law [of E c1 b1 undo False p] undo absent
    by (auto simp: session_ok_def abs_session_def abs_view_sel abs_view_eq_iff simp del: utxo.simps view_ok.simps)
  with h H(3) undo(3) show ?thesis by (simp add: ApplyTxInUndo_def st Let_def)
qed

lemma RestoreInputs_law:
  assumes "session_ok E st" and "distinct (map snd ups)"
    and "\<forall>(undo, p) \<in> set ups. \<not> IsSpent undo \<and> spendable (coin_out undo) \<and> coin_nHeight undo \<noteq> 0 \<and> cs_utxo (abs_session E st) p = None"
  shows "\<exists>st'. RestoreInputs E ups fClean st = Inr (Some fClean, st') \<and> session_ok E st' \<and>
    abs_session E st' = (abs_session E st)\<lparr>cs_utxo := cs_utxo (abs_session E st) ++ map_of (map prod.swap ups)\<rparr>"
  using assms
proof (induction ups arbitrary: st)
  case (Cons up ups)
  obtain undo p where up: "up = (undo, p)" by fastforce
  obtain st1 where st1: "ApplyTxInUndo E undo p st = Inr (DISCONNECT_OK, st1)" "session_ok E st1"
      "abs_session E st1 = (abs_session E st)\<lparr>cs_utxo := (cs_utxo (abs_session E st))(p \<mapsto> undo)\<rparr>"
    using ApplyTxInUndo_law [OF Cons.prems(1), of undo p] Cons.prems(3) by (auto simp: up)
  have rest: "\<forall>(undo, p) \<in> set ups. \<not> IsSpent undo \<and> spendable (coin_out undo) \<and> coin_nHeight undo \<noteq> 0 \<and> cs_utxo (abs_session E st1) p = None"
    using Cons.prems(2,3) by (force simp: st1(3) up)
  have fresh: "map_of (map prod.swap ups) p = None"
    using Cons.prems(2) by (auto simp: up map_of_eq_None_iff image_iff)
  have "(cs_utxo (abs_session E st))(p \<mapsto> undo) ++ map_of (map prod.swap ups) =
      cs_utxo (abs_session E st) ++ map_of (map prod.swap (up # ups))"
    using fresh by (auto simp: up map_add_def fun_eq_iff split: option.splits)
  with Cons.IH [OF st1(2) _ rest] Cons.prems(2) st1 show ?case
    by (auto simp: up simp del: map_of.simps fun_upd_apply)
qed auto

lemma zip_map_self: "zip (map f xs) xs = map (\<lambda>x. (f x, x)) xs"
  by (induction xs) auto

lemma without_restored:
  assumes "\<forall>p \<in> set ps. u p \<noteq> None"
  shows "without ps u ++ map_of (map prod.swap (rev (zip (map (\<lambda>p. coin_or_empty (u p)) ps) ps))) = u"
proof
  fix p
  have pairs: "map prod.swap (rev (zip (map (\<lambda>p. coin_or_empty (u p)) ps) ps)) = map (\<lambda>p. (p, coin_or_empty (u p))) (rev ps)"
    by (simp add: zip_map_self rev_map)
  show "(without ps u ++ map_of (map prod.swap (rev (zip (map (\<lambda>p. coin_or_empty (u p)) ps) ps)))) p = u p"
    using assms unfolding pairs by (auto simp: map_of_map_restrict without_def map_add_def restrict_map_def coin_or_empty_def split: option.splits)
qed

text \<open>The undo record of a transaction, when it has one, is the coins it spent.\<close>

definition undo_of :: "CTransaction \<Rightarrow> chainstate \<Rightarrow> Coin list" where
  "undo_of tx s = map (\<lambda>p. coin_or_empty (cs_utxo s p)) (spent_points tx)"

lemma mark_back: "\<forall>nf \<in> tx_nullifiers tx. \<not> cs_nullifiers s nf \<Longrightarrow> mark tx False (mark tx True s) = s"
  by (cases s) (auto simp: mark_def fun_eq_iff)

lemma mark_utxo: "mark tx b (s\<lparr>cs_utxo := u\<rparr>) = (mark tx b s)\<lparr>cs_utxo := u\<rparr>"
  by (simp add: mark_def)

lemma DisconnectTx_law:
  assumes ok: "session_ok E st" and abs: "abs_session E st = apply_tx GetHash h tx s" and app: "tx_applies GetHash tx s"
    and unspent: "\<forall>p coin. cs_utxo s p = Some coin \<longrightarrow> \<not> IsSpent coin"
    and dz: "DZ tx" and undo: "ordinary tx \<longrightarrow> txundo = Some (undo_of tx s)"
  shows "\<exists>st'. DisconnectTx E GetHash DZ tx txundo fClean st = Inr (Some fClean, st') \<and> session_ok E st' \<and> abs_session E st' = s"
proof -
  let ?u = "without (spent_points tx) (cs_utxo s)"
  have mk: "\<forall>txout. coin_out (tx_coin tx h txout) = txout" by (simp add: tx_coin_def Coin_new_def)
  have len: "0 + length (vout tx) \<le> 2 ^ 32" using app by (simp add: tx_applies_def)
  have free: "\<forall>n. 0 \<le> n \<longrightarrow> n < 0 + length (vout tx) \<longrightarrow> ?u \<lparr>out_hash = GetHash tx, out_n = word_of_nat n\<rparr> = None"
    using app by (simp add: tx_applies_def without_def)
  have "cs_utxo (abs_session E st) = ?u ++ created (GetHash tx) (tx_coin tx h) 0 (vout tx)" by (simp add: abs apply_tx_def)
  then obtain c base where o: "DisconnectOutputs E (GetHash tx) 0 (vout tx) fClean st = (fClean, (c, base))"
      "session_ok E (c, base)" "abs_session E (c, base) = (mark tx True s)\<lparr>cs_utxo := ?u\<rparr>"
    using DisconnectOutputs_law [OF ok len mk _ free, of fClean] by (auto simp: abs apply_tx_def)
  show ?thesis
  proof (cases "ordinary tx")
    case False
    then have "(mark tx True s)\<lparr>cs_utxo := ?u\<rparr> = s"
      using app by (cases s) (simp add: tx_applies_def spent_points_def without_def mark_def)
    with False o dz show ?thesis by (auto simp: DisconnectTx_def ordinary_def)
  next
    case True
    have N: "session_ok E (SetNullifiers tx False c, base)"
        "abs_session E (SetNullifiers tx False c, base) = s\<lparr>cs_utxo := ?u\<rparr>"
      using SetNullifiers_session [OF o(2), of tx False] o(3) mark_back [of tx s] app
      by (simp_all add: mark_utxo tx_applies_def)
    let ?ups = "rev (zip (undo_of tx s) (spent_points tx))"
    have "\<forall>(undo, p) \<in> set ?ups. \<not> IsSpent undo \<and> spendable (coin_out undo) \<and> coin_nHeight undo \<noteq> 0 \<and> ?u p = None"
    proof -
      have "\<not> IsSpent (coin_or_empty (cs_utxo s p)) \<and> spendable (coin_out (coin_or_empty (cs_utxo s p))) \<and>
          coin_nHeight (coin_or_empty (cs_utxo s p)) \<noteq> 0 \<and> ?u p = None" if p: "p \<in> set (spent_points tx)" for p
      proof -
        obtain coin where "cs_utxo s p = Some coin" "spendable (coin_out coin)" "coin_nHeight coin \<noteq> 0"
          using app p unfolding tx_applies_def by blast
        with p unspent show ?thesis by (simp add: coin_or_empty_def without_def)
      qed
      then show ?thesis by (simp add: undo_of_def zip_map_self)
    qed
    moreover have "distinct (map snd ?ups)" using app by (simp add: tx_applies_def undo_of_def flip: rev_map)
    ultimately obtain st' where "RestoreInputs E ?ups fClean (SetNullifiers tx False c, base) = Inr (Some fClean, st')"
        "session_ok E st'" "abs_session E st' = (s\<lparr>cs_utxo := ?u\<rparr>)\<lparr>cs_utxo := ?u ++ map_of (map prod.swap ?ups)\<rparr>"
      using RestoreInputs_law [OF N(1), of ?ups fClean] N(2) by auto
    moreover have "?u ++ map_of (map prod.swap ?ups) = cs_utxo s"
      unfolding undo_of_def using app by (intro without_restored) (auto simp: tx_applies_def)
    ultimately show ?thesis
      using True o dz undo by (auto simp: DisconnectTx_def ordinary_def spent_points_def undo_of_def Let_def)
  qed
qed

section \<open>Whole blocks\<close>

fun txs_apply :: "(CTransaction \<Rightarrow> uint256) \<Rightarrow> uint32 \<Rightarrow> CTransaction list \<Rightarrow> chainstate \<Rightarrow> bool" where
  "txs_apply GetHash h [] s = True"
| "txs_apply GetHash h (tx # txs) s \<longleftrightarrow> tx_applies GetHash tx s \<and> txs_apply GetHash h txs (apply_tx GetHash h tx s)"

lemma DisconnectTxs_append:
  "DisconnectTxs E GetHash DZ (xs @ ys) fClean st =
    (case DisconnectTxs E GetHash DZ xs fClean st of
       Inl e \<Rightarrow> Inl e
     | Inr (None, st') \<Rightarrow> Inr (None, st')
     | Inr (Some fClean', st') \<Rightarrow> DisconnectTxs E GetHash DZ ys fClean' st')"
  by (induction xs arbitrary: fClean st) (auto split: sum.splits option.splits prod.splits)

text \<open>The part of the chain state that transactions do not touch.\<close>

definition with_head :: "(uint256 \<Rightarrow> bool) \<Rightarrow> uint256 \<Rightarrow> uint256 \<Rightarrow> chainstate \<Rightarrow> chainstate" where
  "with_head A a b s = s\<lparr>cs_anchors := A, cs_best_anchor := a, cs_best_block := b\<rparr>"

lemma with_head_simps [simp]:
  "tx_applies GetHash tx (with_head A a b s) = tx_applies GetHash tx s"
  "apply_tx GetHash h tx (with_head A a b s) = with_head A a b (apply_tx GetHash h tx s)"
  "undo_of tx (with_head A a b s) = undo_of tx s" "cs_utxo (with_head A a b s) = cs_utxo s"
  by (simp_all add: with_head_def tx_applies_def apply_tx_def mark_def undo_of_def)

lemma ConnectTxs_law:
  assumes "session_ok E st" and "txs_apply GetHash h txs (abs_session E st)" and "list_all DZ txs"
  shows "\<exists>undos st'. ConnectTxs E GetHash invalid h False txs st = Inr (undos, st') \<and> session_ok E st' \<and> length undos = length txs \<and>
    abs_session E st' = fold (apply_tx GetHash h) txs (abs_session E st) \<and>
    (\<forall>st1 txundos A a b. session_ok E st1 \<longrightarrow> abs_session E st1 = with_head A a b (abs_session E st') \<longrightarrow>
      list_all2 (\<lambda>(tx, undo) txundo. ordinary tx \<longrightarrow> txundo = Some undo) (zip txs undos) txundos \<longrightarrow>
      (\<exists>st2. DisconnectTxs E GetHash DZ (rev (zip txs txundos)) True st1 = Inr (Some True, st2) \<and> session_ok E st2 \<and>
        abs_session E st2 = with_head A a b (abs_session E st)))"
  using assms
proof (induction txs arbitrary: st)
  case (Cons tx txs)
  let ?s = "abs_session E st"
  have app: "tx_applies GetHash tx ?s" using Cons.prems(2) by simp
  obtain st1 where u: "UpdateCoins E GetHash invalid tx h False st = Inr (undo_of tx ?s, st1)" "session_ok E st1"
      "abs_session E st1 = apply_tx GetHash h tx ?s"
    using UpdateCoins_law [OF Cons.prems(1) app, of invalid h] unfolding undo_of_def by blast
  have app': "txs_apply GetHash h txs (abs_session E st1)" "list_all DZ txs" using Cons.prems u(3) by simp_all
  obtain undos st2 where r: "ConnectTxs E GetHash invalid h False txs st1 = Inr (undos, st2)" "session_ok E st2"
      "length undos = length txs" "abs_session E st2 = fold (apply_tx GetHash h) txs (abs_session E st1)"
    and revert: "\<And>st3 txundos A a b. session_ok E st3 \<Longrightarrow> abs_session E st3 = with_head A a b (abs_session E st2) \<Longrightarrow>
      list_all2 (\<lambda>(tx, undo) txundo. ordinary tx \<longrightarrow> txundo = Some undo) (zip txs undos) txundos \<Longrightarrow>
      \<exists>st4. DisconnectTxs E GetHash DZ (rev (zip txs txundos)) True st3 = Inr (Some True, st4) \<and> session_ok E st4 \<and>
        abs_session E st4 = with_head A a b (abs_session E st1)"
    using Cons.IH [OF u(2) app'] by blast
  have unspent: "\<forall>p coin. cs_utxo ?s p = Some coin \<longrightarrow> \<not> IsSpent coin" using abs_session_unspent by blast
  have "\<exists>st4. DisconnectTxs E GetHash DZ (rev (zip (tx # txs) txundos)) True st3 = Inr (Some True, st4) \<and> session_ok E st4 \<and>
      abs_session E st4 = with_head A a b ?s"
    if st3: "session_ok E st3" "abs_session E st3 = with_head A a b (abs_session E st2)"
      and t: "list_all2 (\<lambda>(tx, undo) txundo. ordinary tx \<longrightarrow> txundo = Some undo) (zip (tx # txs) (undo_of tx ?s # undos)) txundos"
    for st3 txundos A a b
  proof -
    obtain t1 ts where ts: "txundos = t1 # ts" "ordinary tx \<longrightarrow> t1 = Some (undo_of tx ?s)"
      "list_all2 (\<lambda>(tx, undo) txundo. ordinary tx \<longrightarrow> txundo = Some undo) (zip txs undos) ts"
      using t by (auto simp: list_all2_Cons1)
    obtain st5 where st5: "DisconnectTxs E GetHash DZ (rev (zip txs ts)) True st3 = Inr (Some True, st5)" "session_ok E st5"
        "abs_session E st5 = apply_tx GetHash h tx (with_head A a b ?s)"
      using revert [OF st3 ts(3)] u(3) by auto
    show ?thesis
      using DisconnectTx_law [OF st5(2,3), of DZ t1 True] app unspent ts(2) Cons.prems(3) st5(1)
      by (auto simp: ts(1) DisconnectTxs_append)
  qed
  with u r show ?case by (auto simp del: zip_Cons)
qed auto

lemma PushAnchor_session:
  assumes "session_ok E (c, base)" and "tree_root E tree \<noteq> 0"
    and "cs_anchors (abs_session E (c, base)) (cs_best_anchor (abs_session E (c, base)))"
  obtains c' base' where "PushAnchor E tree c base = (c', base')" "session_ok E (c', base')"
    "abs_session E (c', base') = spec_call E (CallPushAnchor tree) (abs_session E (c, base))"
proof -
  obtain c' base' where p: "PushAnchor E tree c base = (c', base')" by fastforce
  with PushAnchor_law [OF _ assms(2) p] assms(1,3) show ?thesis
    by (intro that [OF p])
      (simp_all add: session_ok_def abs_session_def abs_view_sel del: anchors.simps best_anchor.simps view_ok.simps)
qed

lemma PopAnchor_session:
  assumes "session_ok E (c, base)" and "call_ok E (CallPopAnchor rt) (abs_session E (c, base))"
  obtains c' base' where "PopAnchor E rt c base = Inr (c', base')" "session_ok E (c', base')"
    "abs_session E (c', base') = spec_call E (CallPopAnchor rt) (abs_session E (c, base))"
  using run_call_law [of E c base "CallPopAnchor rt"] assms
  by (auto simp: session_ok_def abs_session_def simp del: spec_call.simps call_ok.simps view_ok.simps)

lemma SetBestBlock_session:
  assumes "session_ok E (c, base)" and "h \<noteq> 0"
  shows "session_ok E (SetBestBlock h c, base) \<and>
    abs_session E (SetBestBlock h c, base) = (abs_session E (c, base))\<lparr>cs_best_block := h\<rparr>"
  using SetBestBlock_law [of E c base h] assms by (simp add: session_ok_def abs_session_def del: view_ok.simps)

text \<open>
  What connecting a block needs of its surroundings: the chain state knows its own best anchor and best block, and
  a new root of the commitment tree is not yet an anchor.
\<close>

definition block_applies ::
  "'t coins_env \<Rightarrow> (CTransaction \<Rightarrow> uint256) \<Rightarrow> uint32 \<Rightarrow> CTransaction list \<Rightarrow> 't \<Rightarrow> uint256 \<Rightarrow> chainstate \<Rightarrow> bool" where
  "block_applies E GetHash h vtx tree hash s \<longleftrightarrow> vtx \<noteq> [] \<and> \<not> ordinary (hd vtx) \<and> txs_apply GetHash h vtx s \<and>
    tree_root E tree \<noteq> 0 \<and> hash \<noteq> 0 \<and> cs_best_block s \<noteq> 0 \<and> cs_best_anchor s \<noteq> 0 \<and> cs_anchors s (cs_best_anchor s) \<and>
    (tree_root E tree = cs_best_anchor s \<or> \<not> cs_anchors s (tree_root E tree)) \<and> cs_anchors s (empty_root E)"

definition apply_block ::
  "'t coins_env \<Rightarrow> (CTransaction \<Rightarrow> uint256) \<Rightarrow> uint32 \<Rightarrow> CTransaction list \<Rightarrow> 't \<Rightarrow> uint256 \<Rightarrow> chainstate \<Rightarrow> chainstate" where
  "apply_block E GetHash h vtx tree hash s =
    (spec_call E (CallPushAnchor tree) (fold (apply_tx GetHash h) vtx s))\<lparr>cs_best_block := hash\<rparr>"

lemma fold_apply_tx_sel:
  "cs_anchors (fold (apply_tx GetHash h) txs s) = cs_anchors s" "cs_best_anchor (fold (apply_tx GetHash h) txs s) = cs_best_anchor s"
  "cs_best_block (fold (apply_tx GetHash h) txs s) = cs_best_block s"
  by (induction txs arbitrary: s) (auto simp: apply_tx_def mark_def)

lemma undo_shape:
  "length us = length txs \<Longrightarrow> list_all2 (\<lambda>(tx, undo) txundo. ordinary tx \<longrightarrow> txundo = Some undo) (zip txs us) (map Some us)"
  by (induction us txs rule: list_induct2) auto

text \<open>Popping the anchor and resetting the best block leads back to \<open>s\<close>.\<close>

lemma revert_head:
  assumes "cs_anchors s (cs_best_anchor s)" and "rt = cs_best_anchor s \<or> \<not> cs_anchors s rt"
  shows "(spec_call E (CallPopAnchor (cs_best_anchor s)) (with_head ((cs_anchors s)(rt := True)) rt b s))
    \<lparr>cs_best_block := cs_best_block s\<rparr> = s"
proof (cases "rt = cs_best_anchor s")
  case True
  then have "(cs_anchors s)(rt := True) = cs_anchors s" using assms(1) by (simp add: fun_upd_idem)
  with True show ?thesis by (cases s) (simp add: with_head_def)
next
  case False
  then have "((cs_anchors s)(rt := True))(rt := False) = cs_anchors s" using assms(2) by (auto simp: fun_eq_iff)
  with False show ?thesis by (cases s) (simp add: with_head_def)
qed

text \<open>
  C4. Disconnecting a block undoes connecting it: for a block whose transactions apply to the chain state, the
  coin updates of \<open>ConnectBlock\<close> raise nothing and have the specified effect, and \<open>DisconnectBlock\<close>, given the undo
  data they produced, reports a clean result and leaves exactly the chain state from before: every coin, nullifier
  and anchor, the best block and the best anchor.
\<close>

theorem DisconnectBlock_undoes:
  assumes ok: "session_ok E st" and app: "block_applies E GetHash h vtx tree hash (abs_session E st)"
    and dz: "list_all DZ vtx" and root: "(if v5 then root else empty_root E) = cs_best_anchor (abs_session E st)"
  shows "\<exists>undo st1 st2. ConnectCoins E GetHash invalid h False vtx tree hash st = Inr (undo, st1) \<and> session_ok E st1 \<and>
    abs_session E st1 = apply_block E GetHash h vtx tree hash (abs_session E st) \<and>
    DisconnectBlock E GetHash DZ vtx (Some undo) v5 root (cs_best_block (abs_session E st)) st1 = Inr (DISCONNECT_OK, st2) \<and>
    session_ok E st2 \<and> abs_session E st2 = abs_session E st"
proof -
  let ?s = "abs_session E st" and ?rt = "tree_root E tree"
  obtain undos c base where conn: "ConnectTxs E GetHash invalid h False vtx st = Inr (undos, (c, base))" "session_ok E (c, base)"
      "length undos = length vtx" "abs_session E (c, base) = fold (apply_tx GetHash h) vtx ?s"
    and revert: "\<And>st1 txundos A a b. session_ok E st1 \<Longrightarrow> abs_session E st1 = with_head A a b (abs_session E (c, base)) \<Longrightarrow>
      list_all2 (\<lambda>(tx, undo) txundo. ordinary tx \<longrightarrow> txundo = Some undo) (zip vtx undos) txundos \<Longrightarrow>
      \<exists>st2. DisconnectTxs E GetHash DZ (rev (zip vtx txundos)) True st1 = Inr (Some True, st2) \<and> session_ok E st2 \<and>
        abs_session E st2 = with_head A a b ?s"
    using ConnectTxs_law [OF ok _ dz, of GetHash h invalid] app by (force simp: block_applies_def)
  have "?rt \<noteq> 0" "cs_anchors (abs_session E (c, base)) (cs_best_anchor (abs_session E (c, base)))"
    using app by (simp_all add: block_applies_def conn(4) fold_apply_tx_sel)
  from PushAnchor_session [OF conn(2) this]
  obtain c1 b1 where push: "PushAnchor E tree c base = (c1, b1)" "session_ok E (c1, b1)"
      "abs_session E (c1, b1) = spec_call E (CallPushAnchor tree) (abs_session E (c, base))" .
  let ?st1 = "(SetBestBlock hash c1, b1)"
  have st1: "session_ok E ?st1" "abs_session E ?st1 = apply_block E GetHash h vtx tree hash ?s"
    using SetBestBlock_session [OF push(2), of hash] app push(3) conn(4) by (simp_all add: block_applies_def apply_block_def)
  have head: "abs_session E ?st1 = with_head ((cs_anchors ?s)(?rt := True)) ?rt hash (abs_session E (c, base))"
    by (simp add: st1(2) apply_block_def conn(4) with_head_def fold_apply_tx_sel)
  obtain u0 us where undos: "undos = u0 # us" using conn(3) app by (cases undos) (auto simp: block_applies_def)
  have shape: "list_all2 (\<lambda>(tx, undo) txundo. ordinary tx \<longrightarrow> txundo = Some undo) (zip vtx undos) (None # map Some us)"
    using app conn(3) undo_shape [of us "tl vtx"] by (cases vtx) (auto simp: block_applies_def undos)
  obtain c2 b2 where disc: "DisconnectTxs E GetHash DZ (rev (zip vtx (None # map Some us))) True ?st1 = Inr (Some True, (c2, b2))"
      "session_ok E (c2, b2)" "abs_session E (c2, b2) = with_head ((cs_anchors ?s)(?rt := True)) ?rt hash ?s"
    using revert [OF st1(1) head shape] by force
  have "call_ok E (CallPopAnchor (cs_best_anchor ?s)) (abs_session E (c2, b2))"
    using app by (auto simp: disc(3) with_head_def block_applies_def)
  from PopAnchor_session [OF disc(2) this]
  obtain c3 b3 where pop: "PopAnchor E (cs_best_anchor ?s) c2 b2 = Inr (c3, b3)" "session_ok E (c3, b3)"
      "abs_session E (c3, b3) = spec_call E (CallPopAnchor (cs_best_anchor ?s)) (abs_session E (c2, b2))" .
  have "session_ok E (SetBestBlock (cs_best_block ?s) c3, b3)" "abs_session E (SetBestBlock (cs_best_block ?s) c3, b3) = ?s"
    using SetBestBlock_session [OF pop(2), of "cs_best_block ?s"] app pop(3) disc(3) revert_head [of ?s ?rt E hash]
    by (auto simp: block_applies_def)
  moreover have "ConnectCoins E GetHash invalid h False vtx tree hash st = Inr (us, ?st1)"
    by (simp add: ConnectCoins_def conn(1) push(1) undos)
  moreover have "DisconnectBlock E GetHash DZ vtx (Some us) v5 root (cs_best_block ?s) ?st1 =
      Inr (DISCONNECT_OK, (SetBestBlock (cs_best_block ?s) c3, b3))"
    using conn(3) disc(1) pop(1) root by (simp add: DisconnectBlock_def undos)
  ultimately show ?thesis using st1 by blast
qed

section \<open>A sample block\<close>

text \<open>A coinbase and a spend of the coin in the sample database; the hash of a transaction is read off its lock time.\<close>

definition sample_hash :: "CTransaction \<Rightarrow> uint256" where
  "sample_hash tx = 100 + ucast (nLockTime tx)"

definition sample_coinbase :: CTransaction where
  "sample_coinbase = sample_tx\<lparr>vin := [\<lparr>prevout = OutPoint_null, scriptSig = [], nSequence = 0\<rparr>],
     vout := [coin_out (sample_coin 2)], sapData := None, nLockTime := 0\<rparr>"

definition sample_payment :: CTransaction where
  "sample_payment = (sample_spend 7)\<lparr>vout := [coin_out (sample_coin 2)], nLockTime := 1\<rparr>"

definition sample_block :: "CTransaction list" where
  "sample_block = [sample_coinbase, sample_payment]"

abbreviation sample_start :: "uint256 session" where
  "sample_start \<equiv> (CCoinsViewCache_new, DBView sample_db)"

lemma sample_start_ok: "session_ok sample_env sample_start"
  using new_cache [of sample_env "DBView sample_db"] sample_db_ok by (simp add: session_ok_def)

lemma sample_start_abs:
  "cs_utxo (abs_session sample_env sample_start) = [sample_point 7 \<mapsto> sample_coin 1]"
  "cs_best_block (abs_session sample_env sample_start) = 5" "cs_best_anchor (abs_session sample_env sample_start) = 1"
  "cs_anchors (abs_session sample_env sample_start) = (\<lambda>rt. rt = 1)" "empty_root sample_env = 1" "tree_root sample_env = (\<lambda>t. t)"
proof -
  have eq: "abs_session sample_env sample_start = abs_view sample_env (DBView sample_db)"
    using new_cache [of sample_env "DBView sample_db"] sample_db_ok by (simp add: abs_session_def)
  show "cs_utxo (abs_session sample_env sample_start) = [sample_point 7 \<mapsto> sample_coin 1]"
    "cs_best_block (abs_session sample_env sample_start) = 5" "cs_best_anchor (abs_session sample_env sample_start) = 1"
    "cs_anchors (abs_session sample_env sample_start) = (\<lambda>rt. rt = 1)" "empty_root sample_env = 1" "tree_root sample_env = (\<lambda>t. t)"
    unfolding eq using sample_db_utxo
    by (auto simp: abs_view_def DB_GetBestBlock_def DB_GetBestAnchor_def db_anchor_def
        DB_GetSaplingAnchorAt_def sample_db_def sample_env_def empty_root_def fun_eq_iff)
qed

lemma sample_block_txs:
  "\<not> ordinary sample_coinbase" "ordinary sample_payment" "spent_points sample_payment = [sample_point 7]"
  "tx_nullifiers sample_coinbase = {}" "tx_nullifiers sample_payment = {}"
  by (simp_all add: sample_coinbase_def sample_payment_def sample_spend_def sample_point_def ordinary_def spent_points_def tx_nullifiers_def IsCoinBase_def
      ContainsZerocoins_def HasZerocoinSpendInputs_def HasZerocoinMintOutputs_def CTxIn_IsZerocoinSpend_def
      CTxIn_IsZerocoinPublicSpend_def CTxOut_IsZerocoinMint_def IsZerocoinMint_def IsZerocoinSpend_def IsZerocoinPublicSpend_def
      StartsWithOpcode_def OutPoint_IsNull_def OutPoint_null_def sample_coin_def Coin_new_def)

lemma sample_block_applies:
  "block_applies sample_env sample_hash 2 sample_block 9 6 (abs_session sample_env sample_start)"
proof -
  let ?s = "abs_session sample_env sample_start" and ?c = sample_coinbase and ?t = sample_payment
  have points: "sample_hash ?c = 100" "sample_hash ?t = 101" by (simp_all add: sample_coinbase_def sample_payment_def sample_hash_def)
  have outs: "vout ?c = [coin_out (sample_coin 2)]" "vout ?t = [coin_out (sample_coin 2)]" by (simp_all add: sample_coinbase_def sample_payment_def)
  have c: "tx_applies sample_hash ?c ?s"
    by (simp add: tx_applies_def spent_points_def sample_block_txs points outs sample_start_abs)
      (simp add: sample_point_def sample_coin_def Coin_new_def)
  have u: "cs_utxo (apply_tx sample_hash 2 ?c ?s) =
      [sample_point 7 \<mapsto> sample_coin 1, \<lparr>out_hash = 100, out_n = 0\<rparr> \<mapsto> tx_coin ?c 2 (coin_out (sample_coin 2))]"
    by (simp add: apply_tx_def spent_points_def sample_block_txs without_def outs points sample_spendable sample_start_abs
        fun_eq_iff)
  have t: "tx_applies sample_hash ?t (apply_tx sample_hash 2 ?c ?s)"
    using sample_spendable [of 1] by (simp add: tx_applies_def sample_block_txs points outs u)
      (simp add: sample_point_def sample_coin_def Coin_new_def)
  have "txs_apply sample_hash 2 sample_block ?s" using c t by (simp add: sample_block_def)
  moreover have "sample_block \<noteq> []" "\<not> ordinary (hd sample_block)" using sample_block_txs(1) by (simp_all add: sample_block_def)
  ultimately show ?thesis by (simp add: block_applies_def sample_start_abs)
qed

lemma DisconnectBlock_undoes_witness:
  "\<exists>undo st1 st2. ConnectCoins sample_env sample_hash [] 2 False sample_block 9 6 sample_start = Inr (undo, st1) \<and>
    cs_best_anchor (abs_session sample_env st1) = 9 \<and>
    DisconnectBlock sample_env sample_hash (\<lambda>_. True) sample_block (Some undo) False 0 5 st1 = Inr (DISCONNECT_OK, st2) \<and>
    cs_utxo (abs_session sample_env st2) = [sample_point 7 \<mapsto> sample_coin 1]"
proof -
  have dz: "list_all (\<lambda>_. True) sample_block" by (simp add: list_all_iff)
  have root: "(if False then 0 else empty_root sample_env) = cs_best_anchor (abs_session sample_env sample_start)"
    by (simp add: sample_start_abs)
  show ?thesis
    using DisconnectBlock_undoes [OF sample_start_ok sample_block_applies dz root, of "[]"]
    by (force simp: sample_start_abs apply_block_def)
qed

end
