(* ===== verification/Compressor.thy ===== *)
theory Compressor
  imports Chainstate SigHash
begin

text \<open>
  The compact form in which coins are stored: amounts and scripts of \<^verbatim>\<open>src/compressor.cpp\<close> and \<^verbatim>\<open>src/compressor.h\<close>, the
  serialization of \<^verbatim>\<open>Coin\<close> in \<^verbatim>\<open>src/coins.h\<close>, and the undo records of \<^verbatim>\<open>src/undo.h\<close>. The elliptic curve library
  is a parameter, with the two functions the code calls.
\<close>

section \<open>Amounts\<close>

function CompressAmount_loop :: "uint64 \<Rightarrow> nat \<Rightarrow> uint64 \<times> nat" where
  "CompressAmount_loop n e = (if n mod 10 = 0 \<and> e < 9 then CompressAmount_loop (n div 10) (e + 1) else (n, e))"
  by pat_completeness auto
termination by (relation "measure (\<lambda>(n, e). 9 - e)") auto

declare CompressAmount_loop.simps [simp del]

definition CompressAmount :: "uint64 \<Rightarrow> uint64" where
  "CompressAmount n =
    (if n = 0 then 0
     else case CompressAmount_loop n 0 of (n, e) \<Rightarrow>
       if e < 9 then let d = n mod 10; n = n div 10 in 1 + (n * 9 + d - 1) * 10 + word_of_nat e
       else 1 + (n - 1) * 10 + 9)"

fun DecompressAmount_loop :: "uint64 \<Rightarrow> nat \<Rightarrow> uint64" where
  "DecompressAmount_loop n 0 = n"
| "DecompressAmount_loop n (Suc e) = DecompressAmount_loop (n * 10) e"

definition DecompressAmount :: "uint64 \<Rightarrow> uint64" where
  "DecompressAmount x =
    (if x = 0 then 0
     else let x = x - 1; e = unat (x mod 10); x = x div 10;
              n = (if e < 9 then let d = x mod 9 + 1; x = x div 9 in x * 10 + d else x + 1)
          in DecompressAmount_loop n e)"

text \<open>On numbers: the trailing zeros, up to nine, are taken off.\<close>

lemma CompressAmount_loop_nat:
  assumes "CompressAmount_loop n e = (m, e')" "e \<le> 9"
  shows "unat n = unat m * 10 ^ (e' - e) \<and> e \<le> e' \<and> e' \<le> 9 \<and> (e' < 9 \<longrightarrow> unat m mod 10 \<noteq> 0)"
  using assms
proof (induction n e rule: CompressAmount_loop.induct)
  case (1 n e)
  have zero: "n mod 10 = 0 \<longleftrightarrow> unat n mod 10 = 0" by (simp add: word_eq_iff_unsigned unat_mod flip: unat_0_iff)
  show ?case
  proof (cases "n mod 10 = 0 \<and> e < 9")
    case True
    then have ih: "unat (n div 10) = unat m * 10 ^ (e' - (e + 1)) \<and> e + 1 \<le> e' \<and> e' \<le> 9 \<and> (e' < 9 \<longrightarrow> unat m mod 10 \<noteq> 0)"
      using "1.IH" "1.prems"(1) by (simp add: CompressAmount_loop.simps [of n e])
    have "unat n mod 10 = 0" using conjunct1 [OF True] unfolding zero .
    then have "unat n = 10 * unat (n div 10)" by (auto simp: unat_div)
    moreover have "10 * 10 ^ (e' - (e + 1)) = (10 :: nat) ^ (e' - e)" using ih by (metis Suc_diff_le Suc_eq_plus1 diff_Suc_Suc power_Suc)
    ultimately show ?thesis using ih by (simp add: algebra_simps)
  next
    case False
    then show ?thesis using "1.prems" zero by (auto simp: CompressAmount_loop.simps [of n e])
  qed
qed

lemma DecompressAmount_loop_eq: "DecompressAmount_loop n e = n * 10 ^ e"
  by (induction n e rule: DecompressAmount_loop.induct) (simp_all add: algebra_simps)

lemma DecompressAmount_nat:
  assumes "Suc y < 2 ^ 64"
  shows "DecompressAmount (word_of_nat (Suc y)) =
    word_of_nat ((if y mod 10 < 9 then y div 10 div 9 * 10 + (y div 10 mod 9 + 1) else y div 10 + 1) * 10 ^ (y mod 10))"
proof -
  have nz: "(word_of_nat (Suc y) :: uint64) \<noteq> 0" using assms by (simp only: word_of_nat_eq_0_iff) (auto dest: dvd_imp_le)
  have y: "(word_of_nat (Suc y) :: uint64) - 1 = word_of_nat y" by simp
  have u: "unat (word_of_nat y :: uint64) = y" using assms by (simp add: unat_of_nat)
  have "word_of_nat y mod (10 :: uint64) = word_of_nat (y mod 10)" "word_of_nat y div (10 :: uint64) = word_of_nat (y div 10)"
    using u by (simp_all add: word_arith_nat_mod word_arith_nat_div)
  moreover have "word_of_nat (y div 10) mod (9 :: uint64) = word_of_nat (y div 10 mod 9)" "word_of_nat (y div 10) div (9 :: uint64) = word_of_nat (y div 10 div 9)"
    using assms by (simp_all add: word_arith_nat_mod word_arith_nat_div unat_of_nat)
  moreover have "unat (word_of_nat (y mod 10) :: uint64) = y mod 10" by (simp add: unat_of_nat)
  ultimately show ?thesis
    unfolding DecompressAmount_def Let_def y using nz by (simp add: DecompressAmount_loop_eq add_ac)
qed

lemma CompressAmount_nat:
  assumes n: "n \<noteq> 0" and loop: "CompressAmount_loop n 0 = (m, e)"
  shows "CompressAmount n =
    word_of_nat (Suc (if e < 9 then (unat m div 10 * 9 + unat m mod 10 - 1) * 10 + e else (unat m - 1) * 10 + 9))"
proof -
  have m: "0 < unat m" "e < 9 \<longrightarrow> 0 < unat m mod 10"
    using CompressAmount_loop_nat [OF loop] n by (auto intro!: Nat.gr0I simp: unat_eq_zero)
  have "m mod 10 = word_of_nat (unat m mod 10)" "m div 10 = word_of_nat (unat m div 10)" "m = word_of_nat (unat m)"
    by (simp_all add: word_arith_nat_mod word_arith_nat_div)
  then show ?thesis
    using n loop m unfolding CompressAmount_def by (auto simp: Let_def of_nat_diff)
qed

lemma CompressAmount_roundtrip:
  assumes "unat n < 2 ^ 60"
  shows "DecompressAmount (CompressAmount n) = n"
proof (cases "n = 0")
  case True
  then show ?thesis by (simp add: CompressAmount_def DecompressAmount_def)
next
  case False
  obtain m e where loop: "CompressAmount_loop n 0 = (m, e)" by force
  have me: "unat n = unat m * 10 ^ e" "e \<le> 9" "e < 9 \<longrightarrow> unat m mod 10 \<noteq> 0"
    using CompressAmount_loop_nat [OF loop] by simp_all
  have n: "word_of_nat (unat m * 10 ^ e) = n" by (simp add: me(1) [symmetric])
  have small: "unat m < 2 ^ 60" and pos: "0 < unat m"
    using assms False me(1) unat_gt_0 [of n] by (auto intro: le_less_trans [of _ "unat m * 10 ^ e"] Nat.gr0I)
  show ?thesis
  proof (cases "e < 9")
    case True
    define y where "y = (unat m div 10 * 9 + unat m mod 10 - 1) * 10 + e"
    have d: "1 \<le> unat m mod 10" "unat m mod 10 \<le> 9" using me(3) True by auto
    have "y mod 10 = e" "y div 10 = unat m div 10 * 9 + unat m mod 10 - 1" using True by (simp_all add: y_def)
    moreover have "(unat m div 10 * 9 + unat m mod 10 - 1) div 9 = unat m div 10" "(unat m div 10 * 9 + unat m mod 10 - 1) mod 9 = unat m mod 10 - 1"
      using d by (auto simp: div_nat_eqI mod_nat_eqI)
    moreover have "Suc y < 2 ^ 64"
    proof -
      have "10 * (unat m div 10) \<le> unat m" by simp
      then have "y \<le> 9 * unat m + 99" unfolding y_def using d True by linarith
      then show ?thesis using small by simp
    qed
    moreover have "CompressAmount n = word_of_nat (Suc y)"
      using CompressAmount_nat [OF False loop] True by (simp only: y_def if_True)
    ultimately show ?thesis using DecompressAmount_nat [of y] True d n by (simp del: of_nat_Suc)
  next
    case nine: False
    then have e: "e = 9" using me(2) by simp
    define y where "y = (unat m - 1) * 10 + 9"
    have "y mod 10 = 9" "y div 10 = unat m - 1" by (simp_all add: y_def)
    moreover have "Suc y < 2 ^ 64" using small by (simp add: y_def)
    moreover have "CompressAmount n = word_of_nat (Suc y)"
      using CompressAmount_nat [OF False loop] nine by (simp only: y_def if_False)
    ultimately show ?thesis using DecompressAmount_nat [of y] e pos n by (simp del: of_nat_Suc)
  qed
qed

section \<open>Scripts\<close>

text \<open>The elliptic curve library: parsing a public key, and writing a parsed one in the form of 65 bytes.\<close>

record 'pk secp =
  pubkey_parse :: "byte list \<Rightarrow> 'pk option"
  pubkey_serialize :: "'pk \<Rightarrow> byte list"

definition CPubKey_IsFullyValid :: "'pk secp \<Rightarrow> valtype \<Rightarrow> bool" where
  "CPubKey_IsFullyValid S vch = (if \<not> CPubKey_IsValid vch then False else pubkey_parse S vch \<noteq> None)"

definition CPubKey_Decompress :: "'pk secp \<Rightarrow> valtype \<Rightarrow> valtype option" where
  "CPubKey_Decompress S vch =
    (if \<not> CPubKey_IsValid vch then None else map_option (pubkey_serialize S) (pubkey_parse S vch))"

definition nSpecialScripts :: nat where "nSpecialScripts = 6"

definition IsToKeyID :: "CScript \<Rightarrow> byte list option" where
  "IsToKeyID script =
    (if length script = 25 \<and> script ! 0 = OP_DUP \<and> script ! 1 = OP_HASH160 \<and> script ! 2 = 20 \<and> script ! 23 = OP_EQUALVERIFY \<and>
       script ! 24 = OP_CHECKSIG
     then Some (take 20 (drop 3 script)) else None)"

definition IsToScriptID :: "CScript \<Rightarrow> byte list option" where
  "IsToScriptID script =
    (if length script = 23 \<and> script ! 0 = OP_HASH160 \<and> script ! 1 = 20 \<and> script ! 22 = OP_EQUAL
     then Some (take 20 (drop 2 script)) else None)"

definition IsToPubKey :: "'pk secp \<Rightarrow> CScript \<Rightarrow> byte list option" where
  "IsToPubKey S script =
    (if length script = 35 \<and> script ! 0 = 33 \<and> script ! 34 = OP_CHECKSIG \<and> (script ! 1 = 0x02 \<or> script ! 1 = 0x03)
     then Some (take 33 (drop 1 script))
     else if length script = 67 \<and> script ! 0 = 65 \<and> script ! 66 = OP_CHECKSIG \<and> script ! 1 = 0x04
     then let pubkey = take 65 (drop 1 script) in if CPubKey_IsFullyValid S pubkey then Some pubkey else None
     else None)"

definition Compress :: "'pk secp \<Rightarrow> CScript \<Rightarrow> byte list option" where
  "Compress S script =
    (case IsToKeyID script of
       Some keyID \<Rightarrow> Some (0x00 # keyID)
     | None \<Rightarrow>
        (case IsToScriptID script of
           Some scriptID \<Rightarrow> Some (0x01 # scriptID)
         | None \<Rightarrow>
            (case IsToPubKey S script of
               Some pubkey \<Rightarrow>
                 let out = take 32 (drop 1 pubkey)
                 in if pubkey ! 0 = 0x02 \<or> pubkey ! 0 = 0x03 then Some (pubkey ! 0 # out)
                    else if pubkey ! 0 = 0x04 then Some ((0x04 OR (pubkey ! 64 AND 0x01)) # out)
                    else None
             | None \<Rightarrow> None)))"

definition GetSpecialSize :: "nat \<Rightarrow> nat" where
  "GetSpecialSize nSize =
    (if nSize = 0 \<or> nSize = 1 then 20 else if nSize = 2 \<or> nSize = 3 \<or> nSize = 4 \<or> nSize = 5 then 32 else 0)"

text \<open>When it returns false, \<^verbatim>\<open>Decompress\<close> leaves the script as it was; its caller does not look at the result.\<close>

definition Decompress :: "'pk secp \<Rightarrow> nat \<Rightarrow> byte list \<Rightarrow> CScript \<Rightarrow> ser_error + bool \<times> CScript" where
  "Decompress S nSize inp script =
    (if nSize = 0x00 then Inr (True, [OP_DUP, OP_HASH160, 20] @ take 20 inp @ [OP_EQUALVERIFY, OP_CHECKSIG])
     else if nSize = 0x01 then Inr (True, [OP_HASH160, 20] @ take 20 inp @ [OP_EQUAL])
     else if nSize = 0x02 \<or> nSize = 0x03 then Inr (True, [33, word_of_nat nSize] @ take 32 inp @ [OP_CHECKSIG])
     else if nSize = 0x04 \<or> nSize = 0x05 then
       (case CPubKey_Decompress S (word_of_nat (nSize - 2) # take 32 inp) of
          None \<Rightarrow> Inr (False, script)
        | Some pubkey \<Rightarrow>
            if length pubkey \<noteq> 65 then Inl PubKeySizeAssertion else Inr (True, [65] @ take 65 pubkey @ [OP_CHECKSIG]))
     else Inr (False, script))"

definition stream_ignore :: "nat \<Rightarrow> unit reader" where
  "stream_ignore nSize s =
    (if nSize \<ge> 2 ^ 31 then Inl IgnoreNegative else case stream_read nSize s of Inl e \<Rightarrow> Inl e | Inr (_, s') \<Rightarrow> Inr ((), s'))"

definition ser_CScriptCompressor :: "'pk secp \<Rightarrow> CScript \<Rightarrow> byte list" where
  "ser_CScriptCompressor S script =
    (case Compress S script of
       Some compr \<Rightarrow> compr
     | None \<Rightarrow> WriteVarInt (word_of_nat (length script + nSpecialScripts) :: uint32) @ script)"

definition unser_CScriptCompressor :: "'pk secp \<Rightarrow> CScript \<Rightarrow> CScript reader" where
  "unser_CScriptCompressor S script =
    read_then (ReadVarInt :: uint32 reader) (\<lambda>n.
      let nSize = unat n
      in if nSize < nSpecialScripts then
           read_then (stream_read (GetSpecialSize nSize)) (\<lambda>vch s.
             case Decompress S nSize vch script of Inl e \<Rightarrow> Inl e | Inr (_, script') \<Rightarrow> Inr (script', s))
         else let nSize = nSize - nSpecialScripts
              in if nSize > MAX_SCRIPT_SIZE then read_then (stream_ignore nSize) (\<lambda>_. read_return (script @ [OP_RETURN]))
                 else stream_read nSize)"

text \<open>
  What the code relies on of the curve library: a key given in the long form is written back as it was, and its short
  form, the first byte telling the parity of the last, is parsed to the same key.
\<close>

definition secp_ok :: "'pk secp \<Rightarrow> bool" where
  "secp_ok S \<longleftrightarrow> (\<forall>vch pk. length vch = 65 \<and> vch ! 0 = 0x04 \<and> pubkey_parse S vch = Some pk \<longrightarrow>
    pubkey_serialize S pk = vch \<and> pubkey_parse S ((0x02 OR (vch ! 64 AND 0x01)) # take 32 (drop 1 vch)) = Some pk)"

lemma split3: "s = take a s @ take b (drop a s) @ drop (a + b) s"
  by (metis append_take_drop_id drop_drop add.commute)

lemma take_nths:
  "1 \<le> length s \<Longrightarrow> take 1 s = [s ! 0]"
  "2 \<le> length s \<Longrightarrow> take 2 s = [s ! 0, s ! 1]"
  "3 \<le> length s \<Longrightarrow> take 3 s = [s ! 0, s ! 1, s ! 2]"
  by (intro nth_equalityI; auto simp: less_Suc_eq numeral_eq_Suc nth_Cons')+

lemma drop_nths:
  "length s = Suc n \<Longrightarrow> drop n s = [s ! n]"
  "length s = Suc (Suc n) \<Longrightarrow> drop n s = [s ! n, s ! Suc n]"
  by (simp_all add: Cons_nth_drop_Suc [symmetric])

lemma IsToKeyID_eq: "IsToKeyID script = Some h \<Longrightarrow> script = [OP_DUP, OP_HASH160, 20] @ h @ [OP_EQUALVERIFY, OP_CHECKSIG] \<and> length h = 20"
  using split3 [of script 3 20] take_nths(3) [of script] drop_nths(2) [of script 23]
  by (auto simp: IsToKeyID_def split: if_splits)

lemma IsToScriptID_eq: "IsToScriptID script = Some h \<Longrightarrow> script = [OP_HASH160, 20] @ h @ [OP_EQUAL] \<and> length h = 20"
  using split3 [of script 2 20] take_nths(2) [of script] drop_nths(1) [of script 22]
  by (auto simp: IsToScriptID_def split: if_splits)

lemma IsToPubKey_eq:
  assumes "IsToPubKey S script = Some k"
  shows "script = word_of_nat (length k) # k @ [OP_CHECKSIG] \<and>
    (length k = 33 \<and> (k ! 0 = 0x02 \<or> k ! 0 = 0x03) \<or> length k = 65 \<and> k ! 0 = 0x04 \<and> CPubKey_IsFullyValid S k)"
  using assms split3 [of script 1 33] split3 [of script 1 65] take_nths(1) [of script] drop_nths(1) [of script 34] drop_nths(1) [of script 66]
  by (auto simp: IsToPubKey_def Let_def nth_append split: if_splits)

lemma ReadVarInt_small: "unat b < 128 \<Longrightarrow> (ReadVarInt :: uint32 reader) (b # s) = Inr (ucast b, s)"
  using v32.read_last [of 0 b s] by (simp add: ReadVarInt_def)

lemma parity_byte: "b AND 1 = 0 \<or> b AND 1 = (1 :: byte)"
  by (cases "even b") (simp_all add: and_one_eq odd_iff_mod_2_eq_one even_iff_mod_2_eq_zero)

lemma Decompress_Compress:
  assumes S: "secp_ok S" and c: "Compress S script = Some (b # body)"
  shows "unat b < nSpecialScripts \<and> length body = GetSpecialSize (unat b) \<and> Decompress S (unat b) body script0 = Inr (True, script)"
proof -
  consider (key) h where "IsToKeyID script = Some h" "b = 0" "body = h"
    | (sc) h where "IsToScriptID script = Some h" "b = 1" "body = h"
    | (pub) k where "IsToPubKey S script = Some k" "b = (if k ! 0 = 0x04 then 0x04 OR (k ! 64 AND 0x01) else k ! 0)" "body = take 32 (drop 1 k)"
    using c by (auto simp: Compress_def Let_def split: option.splits if_splits)
  then show ?thesis
  proof cases
    case key
    then show ?thesis using IsToKeyID_eq [OF key(1)] by (simp add: nSpecialScripts_def GetSpecialSize_def Decompress_def)
  next
    case sc
    then show ?thesis using IsToScriptID_eq [OF sc(1)] by (simp add: nSpecialScripts_def GetSpecialSize_def Decompress_def)
  next
    case pub
    note k = IsToPubKey_eq [OF pub(1)]
    show ?thesis
    proof (cases "k ! 0 = 0x04")
      case False
      with k have k33: "length k = 33" "k ! 0 = 2 \<or> k ! 0 = 3" "script = 33 # k @ [OP_CHECKSIG]" by auto
      have "k = k ! 0 # take 32 (drop 1 k)" using k33(1) by (cases k) auto
      with k33 False pub(2,3) show ?thesis
        by (auto simp: nSpecialScripts_def GetSpecialSize_def Decompress_def)
    next
      case True
      with k have k65: "length k = 65" "script = 65 # k @ [OP_CHECKSIG]" "CPubKey_IsFullyValid S k" by auto
      then obtain pk where pk: "pubkey_parse S k = Some pk" by (auto simp: CPubKey_IsFullyValid_def split: if_splits)
      have law: "pubkey_serialize S pk = k" "pubkey_parse S ((0x02 OR (k ! 64 AND 0x01)) # take 32 (drop 1 k)) = Some pk"
        using S k65(1) True pk by (auto simp: secp_ok_def)
      have dec: "CPubKey_Decompress S ((0x02 OR (k ! 64 AND 0x01)) # take 32 (drop 1 k)) = Some k"
        using law k65(1) parity_byte [of "k ! 64"] by (auto simp: CPubKey_Decompress_def CPubKey_IsValid_def CPubKey_GetLen_def Let_def)
      show ?thesis
        using parity_byte [of "k ! 64"] dec k65 pub(2,3) True
        by (auto simp: nSpecialScripts_def GetSpecialSize_def Decompress_def)
    qed
  qed
qed

lemma script_codec:
  assumes S: "secp_ok S"
  shows "codec (ser_CScriptCompressor S) (unser_CScriptCompressor S script0) (\<lambda>script. length script \<le> MAX_SCRIPT_SIZE)"
proof
  fix script :: CScript and rest assume len: "length script \<le> MAX_SCRIPT_SIZE"
  show "unser_CScriptCompressor S script0 (ser_CScriptCompressor S script @ rest) = Inr (script, rest)"
  proof (cases "Compress S script")
    case None
    have small: "unat (word_of_nat n :: uint32) = n" if "n \<le> MAX_SCRIPT_SIZE + nSpecialScripts" for n
      using that by (simp add: unat_of_nat MAX_SCRIPT_SIZE_def nSpecialScripts_def)
    have "unat (word_of_nat (length script + nSpecialScripts) :: uint32) = length script + nSpecialScripts"
      by (rule small) (simp add: len)
    then show ?thesis
      using None len by (simp add: ser_CScriptCompressor_def unser_CScriptCompressor_def c_varint32.read_then_ser Let_def)
  next
    case (Some compr)
    obtain b body where compr: "compr = b # body"
      using Some by (auto simp: Compress_def Let_def split: option.splits if_splits)
    have d: "unat b < nSpecialScripts" "length body = GetSpecialSize (unat b)" "Decompress S (unat b) body script0 = Inr (True, script)"
      using Decompress_Compress [OF S Some [unfolded compr]] by auto
    then have u: "unat (ucast b :: uint32) = unat b" "unat b < 128"
      by (simp_all add: nSpecialScripts_def unsigned_ucast_eq take_bit_nat_eq_self)
    show ?thesis
      using d u Some compr
      by (simp add: ser_CScriptCompressor_def unser_CScriptCompressor_def read_then_def ReadVarInt_small Let_def)
  qed
qed

section \<open>Outputs and coins\<close>

text \<open>An amount is stored as the bits of its 64 bit word and read back as a signed number.\<close>

definition ser_CTxOutCompressor :: "'pk secp \<Rightarrow> CTxOut \<Rightarrow> byte list" where
  "ser_CTxOutCompressor S txout =
    WriteVarInt (CompressAmount (word_of_int (nValue txout))) @ ser_CScriptCompressor S (scriptPubKey txout)"

definition unser_CTxOutCompressor :: "'pk secp \<Rightarrow> CTxOut \<Rightarrow> CTxOut reader" where
  "unser_CTxOutCompressor S txout =
    read_then ReadVarInt (\<lambda>nVal.
      read_then (unser_CScriptCompressor S (scriptPubKey txout)) (\<lambda>script.
        read_return (txout\<lparr>nValue := sint (DecompressAmount nVal), scriptPubKey := script\<rparr>)))"

definition coin_code :: "Coin \<Rightarrow> uint32" where
  "coin_code coin = coin_nHeight coin * 4 + (if coin_fCoinBase coin then 2 else 0) + (if coin_fCoinStake coin then 1 else 0)"

definition Coin_Serialize :: "'pk secp \<Rightarrow> Coin \<Rightarrow> coins_error + byte list" where
  "Coin_Serialize S coin =
    (if IsSpent coin then Inl AssertionFailed
     else Inr (WriteVarInt (coin_code coin) @ ser_CTxOutCompressor S (coin_out coin)))"

definition Coin_Unserialize :: "'pk secp \<Rightarrow> Coin \<Rightarrow> Coin reader" where
  "Coin_Unserialize S coin =
    read_then ReadVarInt (\<lambda>code :: uint32.
      read_then (unser_CTxOutCompressor S (coin_out coin)) (\<lambda>out.
        read_return \<lparr>coin_fCoinBase = (code AND 2 \<noteq> 0), coin_fCoinStake = (code AND 1 \<noteq> 0), coin_out = out,
          coin_nHeight = drop_bit 2 code\<rparr>))"

section \<open>Undo records\<close>

definition TxInUndo_Serialize :: "'pk secp \<Rightarrow> Coin \<Rightarrow> byte list" where
  "TxInUndo_Serialize S txout =
    WriteVarInt (coin_code txout) @ (if coin_nHeight txout > 0 then ser_writedata8 0 else []) @
    ser_CTxOutCompressor S (coin_out txout)"

definition TxInUndo_Unserialize :: "'pk secp \<Rightarrow> Coin \<Rightarrow> Coin reader" where
  "TxInUndo_Unserialize S txout =
    read_then ReadVarInt (\<lambda>nCode :: uint32.
      let nHeight = drop_bit 2 nCode
      in read_then (if nHeight > 0 then (ReadVarInt :: uint32 reader) else read_return 0) (\<lambda>_.
           read_then (unser_CTxOutCompressor S (coin_out txout)) (\<lambda>out.
             read_return \<lparr>coin_fCoinBase = (nCode AND 2 \<noteq> 0), coin_fCoinStake = (nCode AND 1 \<noteq> 0), coin_out = out,
               coin_nHeight = nHeight\<rparr>)))"

text \<open>The block size over the 41 bytes of an empty input.\<close>

definition MAX_INPUTS_PER_BLOCK :: nat where "MAX_INPUTS_PER_BLOCK = 2000000 div 41"

definition ser_CTxUndo :: "'pk secp \<Rightarrow> Coin list \<Rightarrow> byte list" where
  "ser_CTxUndo S vprevout = WriteCompactSize (length vprevout) @ concat (map (TxInUndo_Serialize S) vprevout)"

definition unser_CTxUndo :: "'pk secp \<Rightarrow> Coin list reader" where
  "unser_CTxUndo S =
    read_then ReadCompactSize (\<lambda>count s.
      if count > MAX_INPUTS_PER_BLOCK then Inl TooManyInputUndoRecords
      else unser_vector_loop (TxInUndo_Unserialize S coinEmpty) count s)"

definition ser_CBlockUndo :: "'pk secp \<Rightarrow> Coin list list \<Rightarrow> byte list" where
  "ser_CBlockUndo S = ser_vector (ser_CTxUndo S)"

definition unser_CBlockUndo :: "'pk secp \<Rightarrow> Coin list list reader" where
  "unser_CBlockUndo S = unser_vector (unser_CTxUndo S)"

section \<open>Round trips\<close>

text \<open>
  A coin comes back when its height fits in thirty bits, its amount is not negative and below \<open>2 ^ 60\<close>, and its script is not
  longer than the limit; the rounds of mixing are not stored.
\<close>

definition coin_storable :: "Coin \<Rightarrow> bool" where
  "coin_storable coin \<longleftrightarrow> unat (coin_nHeight coin) < 2 ^ 30 \<and> 0 \<le> nValue (coin_out coin) \<and> nValue (coin_out coin) < 2 ^ 60 \<and>
    length (scriptPubKey (coin_out coin)) \<le> MAX_SCRIPT_SIZE \<and> nRounds (coin_out coin) = - 10"

lemma txout_roundtrip:
  assumes "secp_ok S" "0 \<le> nValue out" "nValue out < 2 ^ 60" "length (scriptPubKey out) \<le> MAX_SCRIPT_SIZE" "nRounds out = nRounds out0"
  shows "unser_CTxOutCompressor S out0 (ser_CTxOutCompressor S out @ rest) = Inr (out, rest)"
proof -
  have u: "unat (word_of_int (nValue out) :: uint64) < 2 ^ 60" "sint (word_of_int (nValue out) :: uint64) = nValue out"
  proof -
    have "take_bit 64 (nValue out) = nValue out" "signed_take_bit 63 (nValue out) = nValue out"
      using assms(2,3) by (auto intro!: take_bit_int_eq_self signed_take_bit_int_eq_self)
    then show "unat (word_of_int (nValue out) :: uint64) < 2 ^ 60" "sint (word_of_int (nValue out) :: uint64) = nValue out"
      using assms(2,3) by (simp_all add: unsigned_of_int signed_of_int nat_less_iff)
  qed
  then have "DecompressAmount (CompressAmount (word_of_int (nValue out))) = word_of_int (nValue out)" by (intro CompressAmount_roundtrip)
  with u(2) assms(5) codec.roundtrip [OF script_codec [OF assms(1), of "scriptPubKey out0"] assms(4)] show ?thesis
    by (simp add: unser_CTxOutCompressor_def ser_CTxOutCompressor_def read_then_def read_return_def c_varint64.roundtrip)
qed

lemma coin_code_bits:
  assumes "unat (coin_nHeight coin) < 2 ^ 30"
  shows "drop_bit 2 (coin_code coin) = coin_nHeight coin" "(coin_code coin AND 2 \<noteq> 0) = coin_fCoinBase coin"
    "(coin_code coin AND 1 \<noteq> 0) = coin_fCoinStake coin"
proof -
  define h b t where "h = unat (coin_nHeight coin)" and "b = (of_bool (coin_fCoinBase coin) :: nat)" and "t = (of_bool (coin_fCoinStake coin) :: nat)"
  have "coin_code coin = word_of_nat (4 * h + 2 * b + t)" by (simp add: coin_code_def h_def b_def t_def)
  moreover have "4 * h + 2 * b + t < 2 ^ 32" using assms by (simp add: h_def b_def t_def)
  ultimately have u: "unat (coin_code coin) = 4 * h + 2 * b + t" by (simp only: unat_of_nat) simp
  have "bit (coin_code coin) n \<longleftrightarrow> odd ((4 * h + 2 * b + t) div 2 ^ n)" for n
    unfolding u [symmetric] by (simp add: bit_iff_odd [symmetric] bit_unsigned_iff)
  from this [of 0] this [of 1] have "bit (coin_code coin) 0 = coin_fCoinStake coin" "bit (coin_code coin) 1 = coin_fCoinBase coin"
    by (simp_all add: b_def t_def)
  then show "(coin_code coin AND 2 \<noteq> 0) = coin_fCoinBase coin" "(coin_code coin AND 1 \<noteq> 0) = coin_fCoinStake coin"
    using bit_iff_and_push_bit_not_eq_0 [of "coin_code coin" 1] bit_iff_and_push_bit_not_eq_0 [of "coin_code coin" 0] by simp_all
  have "(2 * b + t) div 4 = 0" by (simp add: b_def t_def)
  then have "(4 * h + (2 * b + t)) div 4 = h" by (subst div_mult_self4) simp_all
  then have "unat (drop_bit 2 (coin_code coin)) = unat (coin_nHeight coin)"
    unfolding unat_drop_bit_eq u by (simp add: drop_bit_eq_div add.assoc flip: h_def)
  then show "drop_bit 2 (coin_code coin) = coin_nHeight coin" by (simp only: word_unat_eq_iff)
qed

lemma Coin_roundtrip_storable:
  assumes "secp_ok S" "coin_storable coin" "nRounds (coin_out coin0) = - 10"
  shows "\<exists>bytes. Coin_Serialize S coin = Inr bytes \<and> Coin_Unserialize S coin0 (bytes @ rest) = Inr (coin, rest)"
proof -
  have "\<not> IsSpent coin" using assms(2) by (simp add: coin_storable_def IsSpent_def CTxOut_IsNull_def)
  then show ?thesis
    using assms coin_code_bits [of coin] txout_roundtrip [OF assms(1), of "coin_out coin" "coin_out coin0" rest]
    by (simp add: Coin_Serialize_def Coin_Unserialize_def coin_storable_def c_varint32.roundtrip read_then_def read_return_def)
qed

lemma TxInUndo_codec:
  assumes "secp_ok S"
  shows "codec (TxInUndo_Serialize S) (TxInUndo_Unserialize S coinEmpty) coin_storable"
proof
  fix coin rest assume "coin_storable coin"
  then show "TxInUndo_Unserialize S coinEmpty (TxInUndo_Serialize S coin @ rest) = Inr (coin, rest)"
    using assms coin_code_bits [of coin] txout_roundtrip [OF assms, of "coin_out coin" "coin_out coinEmpty" rest]
      ReadVarInt_small [of 0]
    by (auto simp: TxInUndo_Serialize_def TxInUndo_Unserialize_def coin_storable_def c_varint32.roundtrip Let_def
        read_then_def read_return_def ser_writedata8_def coinEmpty_def)
qed

lemma CTxUndo_codec:
  assumes "secp_ok S"
  shows "codec (ser_CTxUndo S) (unser_CTxUndo S) (\<lambda>coins. length coins \<le> MAX_INPUTS_PER_BLOCK \<and> list_all coin_storable coins)"
proof
  fix coins rest assume ok: "length coins \<le> MAX_INPUTS_PER_BLOCK \<and> list_all coin_storable coins"
  then have "length coins \<le> MAX_SIZE" by (simp add: MAX_INPUTS_PER_BLOCK_def MAX_SIZE_def)
  with ok codec.vector_loop [OF TxInUndo_codec [OF assms]] show "unser_CTxUndo S (ser_CTxUndo S coins @ rest) = Inr (coins, rest)"
    by (simp add: ser_CTxUndo_def unser_CTxUndo_def c_size.read_then_ser)
qed

text \<open>
  C13. What the node stores is what it reads back. A coin that is not spent, has a height below \<open>2 ^ 30\<close>, an amount in range and a
  script within the size limit is restored from its compressed form, and so are the undo records of a block, whatever
  follows them in the file. The one requirement on the curve library is that it parses the short form of a key it
  accepts in the long form.
\<close>

theorem storage_roundtrip:
  assumes "secp_ok S" and "coin_storable coin"
    and "length undo \<le> MAX_SIZE" and "list_all (\<lambda>coins. length coins \<le> MAX_INPUTS_PER_BLOCK \<and> list_all coin_storable coins) undo"
  shows "(\<exists>bytes. Coin_Serialize S coin = Inr bytes \<and> Coin_Unserialize S coinEmpty (bytes @ rest) = Inr (coin, rest)) \<and>
    unser_CBlockUndo S (ser_CBlockUndo S undo @ rest) = Inr (undo, rest)"
  using Coin_roundtrip_storable [OF assms(1,2), of coinEmpty rest]
    codec.roundtrip [OF codec.vector_codec [OF CTxUndo_codec [OF assms(1)]], of undo rest] assms(3,4)
  by (simp add: ser_CBlockUndo_def unser_CBlockUndo_def coinEmpty_def)

definition sample_secp :: "byte list secp" where
  "sample_secp =
    \<lparr>pubkey_parse = (\<lambda>vch. if vch = 0x04 # replicate 63 7 @ [9] \<or> vch = 0x03 # replicate 32 7 then Some (0x04 # replicate 63 7 @ [9]) else None),
     pubkey_serialize = (\<lambda>pk. pk)\<rparr>"

definition sample_p2pk :: Coin where
  "sample_p2pk = \<lparr>coin_fCoinBase = False, coin_fCoinStake = True,
     coin_out = \<lparr>nValue = 250 * 100000000, scriptPubKey = 65 # 0x04 # replicate 63 7 @ [9, OP_CHECKSIG], nRounds = - 10\<rparr>, coin_nHeight = 77\<rparr>"

theorem storage_roundtrip_witness:
  "secp_ok sample_secp \<and> coin_storable sample_p2pk \<and> length (scriptPubKey (coin_out sample_p2pk)) = 67 \<and>
   unser_CBlockUndo sample_secp (ser_CBlockUndo sample_secp [[sample_p2pk], []] @ [1]) = Inr ([[sample_p2pk], []], [1])"
proof -
  have nth64: "(0x04 # replicate 63 7 @ [9]) ! 64 = (9 :: byte)" by (simp add: nth_append)
  have S: "secp_ok sample_secp"
    using nth64 by (auto simp: secp_ok_def sample_secp_def)
  have c: "coin_storable sample_p2pk" by (simp add: coin_storable_def sample_p2pk_def MAX_SCRIPT_SIZE_def)
  show ?thesis
    using storage_roundtrip [OF S c, of "[[sample_p2pk], []]" "[1]"] S c
    by (simp add: MAX_SIZE_def MAX_INPUTS_PER_BLOCK_def) (simp add: sample_p2pk_def)
qed

end
