(* ===== verification/Hash_Stream.thy ===== *)
theory Hash_Stream
  imports Prelude
begin

text \<open>
  The buffering shared by the hasher classes of \<^verbatim>\<open>src/crypto\<close>: \<^verbatim>\<open>CSHA256\<close>, \<^verbatim>\<open>CSHA512\<close>, \<^verbatim>\<open>CSHA1\<close> and
  \<^verbatim>\<open>CRIPEMD160\<close> have the same \<^verbatim>\<open>Write\<close>, over their own \<^verbatim>\<open>Transform\<close> and block size. A hasher that has absorbed a
  message holds the state after its full blocks, and the rest in its buffer, however the message was cut into
  writes.
\<close>

section \<open>The hasher\<close>

record 's hasher =
  hash_s :: 's
  hash_buf :: "byte list"
  hash_bytes :: uint64

definition memcpy_at :: "byte list \<Rightarrow> nat \<Rightarrow> byte list \<Rightarrow> byte list" where
  "memcpy_at buf off src = take off buf @ src @ drop (off + length src) buf"

text \<open>Full chunks are processed directly from the source; the loop returns the state, the counter and the rest.\<close>

function Write_chunks ::
  "nat \<Rightarrow> ('s \<Rightarrow> byte list \<Rightarrow> 's) \<Rightarrow> byte list \<Rightarrow> 's \<Rightarrow> uint64 \<Rightarrow> 's \<times> uint64 \<times> byte list" where
  "Write_chunks B tr data s bytes =
    (if B \<noteq> 0 \<and> B \<le> length data
     then Write_chunks B tr (drop B data) (tr s (take B data)) (bytes + word_of_nat B)
     else (s, bytes, data))"
  by pat_completeness auto
termination by (relation "measure (\<lambda>(B, tr, data, s, bytes). length data)") auto

declare Write_chunks.simps [simp del]

definition stream_Write :: "nat \<Rightarrow> ('s \<Rightarrow> byte list \<Rightarrow> 's) \<Rightarrow> byte list \<Rightarrow> 's hasher \<Rightarrow> 's hasher" where
  "stream_Write B tr data h =
    (let bufsize = unat (hash_bytes h) mod B;
         (buf1, s1, bytes1, data1, bufsize1) =
           (if bufsize \<noteq> 0 \<and> B \<le> bufsize + length data then
              let buf' = memcpy_at (hash_buf h) bufsize (take (B - bufsize) data)
              in (buf', tr (hash_s h) buf', hash_bytes h + word_of_nat (B - bufsize), drop (B - bufsize) data, 0)
            else (hash_buf h, hash_s h, hash_bytes h, data, bufsize));
         (s2, bytes2, data2) = Write_chunks B tr data1 s1 bytes1
     in if data2 \<noteq> [] then
          \<lparr>hash_s = s2, hash_buf = memcpy_at buf1 bufsize1 data2, hash_bytes = bytes2 + word_of_nat (length data2)\<rparr>
        else \<lparr>hash_s = s2, hash_buf = buf1, hash_bytes = bytes2\<rparr>)"

section \<open>What a hasher has absorbed\<close>

text \<open>The state after the full blocks of a message.\<close>

function absorb :: "nat \<Rightarrow> ('s \<Rightarrow> byte list \<Rightarrow> 's) \<Rightarrow> 's \<Rightarrow> byte list \<Rightarrow> 's" where
  "absorb B tr s m = (if B \<noteq> 0 \<and> B \<le> length m then absorb B tr (tr s (take B m)) (drop B m) else s)"
  by pat_completeness auto
termination by (relation "measure (\<lambda>(B, tr, s, m). length m)") auto

declare absorb.simps [simp del]

definition rest :: "nat \<Rightarrow> byte list \<Rightarrow> byte list" where
  "rest B m = drop (B * (length m div B)) m"

definition absorbed :: "nat \<Rightarrow> ('s \<Rightarrow> byte list \<Rightarrow> 's) \<Rightarrow> 's \<Rightarrow> byte list \<Rightarrow> 's hasher \<Rightarrow> bool" where
  "absorbed B tr s0 m h \<longleftrightarrow> length (hash_buf h) = B \<and> hash_s h = absorb B tr s0 m \<and>
    take (length m mod B) (hash_buf h) = rest B m \<and> hash_bytes h = word_of_nat (length m)"

lemma length_rest: "0 < B \<Longrightarrow> length (rest B m) = length m mod B"
  by (simp add: rest_def minus_mult_div_eq_mod)

lemma absorb_short: "length m < B \<Longrightarrow> absorb B tr s m = s"
  by (simp add: absorb.simps)

lemma absorb_block: "0 < B \<Longrightarrow> length b = B \<Longrightarrow> absorb B tr s (b @ m) = absorb B tr (tr s b) m"
  by (subst absorb.simps) simp

text \<open>Absorbing more continues from the rest.\<close>

lemma absorb_append:
  assumes B: "0 < B"
  shows "absorb B tr s (m @ d) = absorb B tr (absorb B tr s m) (rest B m @ d)"
  using B
proof (induction B tr s m rule: absorb.induct)
  case (1 B tr s m)
  show ?case
  proof (cases "B \<le> length m")
    case True
    then have rest: "rest B (drop B m) = rest B m"
      using "1.prems" by (simp add: rest_def le_div_geq algebra_simps)
    have "absorb B tr s (m @ d) = absorb B tr (tr s (take B m)) (drop B m @ d)"
      using True "1.prems" absorb_block [of B "take B m" tr s "drop B m @ d"] by (simp flip: append_assoc)
    also have "\<dots> = absorb B tr (absorb B tr (tr s (take B m)) (drop B m)) (rest B m @ d)"
      using "1.IH" True "1.prems" rest by simp
    finally show ?thesis using absorb_block [of B "take B m" tr s "drop B m"] True "1.prems" by simp
  next
    case False
    then show ?thesis by (simp add: absorb_short rest_def)
  qed
qed

lemma rest_append:
  assumes B: "0 < B"
  shows "rest B (m @ d) = rest B (rest B m @ d)"
proof -
  let ?q = "length m div B" and ?k = "(length m mod B + length d) div B"
  have len: "length m + length d = B * ?q + (length m mod B + length d)" by simp
  have div: "(length m + length d) div B = ?q + ?k"
    using B by (subst len) (simp only: div_mult_self4)
  have "drop (B * ?q) (m @ d) = rest B m @ d" by (simp add: rest_def)
  then have "drop (B * ?q + B * ?k) (m @ d) = drop (B * ?k) (rest B m @ d)"
    using drop_drop [of "B * ?k" "B * ?q" "m @ d"] by (simp only: add.commute [of "B * ?q"])
  then show ?thesis
    using length_rest [OF B, of m] by (simp add: rest_def [of B "m @ d"] rest_def [of B "rest B m @ d"] div distrib_left)
qed

lemma Write_chunks_eq:
  "0 < B \<Longrightarrow> Write_chunks B tr data s bytes =
    (absorb B tr s data, bytes + word_of_nat (B * (length data div B)), rest B data)"
proof (induction B tr data s bytes rule: Write_chunks.induct)
  case (1 B tr data s bytes)
  show ?case
  proof (cases "B \<le> length data")
    case True
    then have "length data div B = Suc ((length data - B) div B)" using "1.prems" by (simp add: le_div_geq)
    with True "1.prems" "1.IH" show ?thesis
      by (subst Write_chunks.simps, subst absorb.simps) (simp add: rest_def algebra_simps)
  next
    case False
    then show ?thesis by (subst Write_chunks.simps) (simp add: absorb_short rest_def)
  qed
qed

lemma length_memcpy_at [simp]: "off + length src \<le> length buf \<Longrightarrow> length (memcpy_at buf off src) = length buf"
  by (simp add: memcpy_at_def)

text \<open>Block sizes are powers of two, so the counter of 64 bits keeps the fill of the buffer when it wraps.\<close>

lemma word_counter_mod: "B dvd 2 ^ 64 \<Longrightarrow> unat (word_of_nat n :: uint64) mod B = n mod B"
  by (simp add: unat_of_nat mod_mod_cancel)

lemma stream_Write_absorbed:
  assumes B: "0 < B" "B dvd 2 ^ 64" and h: "absorbed B tr s0 m h"
  shows "absorbed B tr s0 (m @ data) (stream_Write B tr data h)"
proof -
  let ?r = "length m mod B"
  have H: "length (hash_buf h) = B" "hash_s h = absorb B tr s0 m" "take ?r (hash_buf h) = rest B m"
    "hash_bytes h = word_of_nat (length m)" "unat (hash_bytes h) mod B = ?r"
    using h word_counter_mod [OF B(2)] by (auto simp: absorbed_def)
  have r: "?r < B" using B(1) by simp
  have s: "absorb B tr s0 (m @ data) = absorb B tr (absorb B tr s0 m) (rest B m @ data)" by (rule absorb_append [OF B(1)])
  have lr: "length (rest B m) = ?r" by (rule length_rest [OF B(1)])
  show ?thesis
  proof (cases "?r \<noteq> 0 \<and> B \<le> ?r + length data")
    case True
    define d1 where "d1 = drop (B - ?r) data"
    define buf1 where "buf1 = rest B m @ take (B - ?r) data"
    have fill: "min (length data) (B - ?r) = B - ?r" using True by auto
    have buf1: "memcpy_at (hash_buf h) ?r (take (B - ?r) data) = buf1" "length buf1 = B"
      using H(1,3) r lr by (simp_all add: memcpy_at_def buf1_def fill)
    have split: "rest B m @ data = buf1 @ d1" by (simp add: buf1_def d1_def)
    have s1: "absorb B tr s0 (m @ data) = absorb B tr (tr (absorb B tr s0 m) buf1) d1"
      unfolding s split by (rule absorb_block [OF B(1) buf1(2)])
    have rest1: "rest B (m @ data) = rest B d1"
    proof -
      have "rest B (buf1 @ d1) = rest B (rest B buf1 @ d1)" by (rule rest_append [OF B(1)])
      moreover have "rest B buf1 = []" using B(1) buf1(2) by (simp add: rest_def)
      ultimately show ?thesis using rest_append [OF B(1), of m data] by (simp add: split)
    qed
    have len: "length m + length data = length m + (B - ?r) + length d1" using True r unfolding d1_def length_drop by linarith
    have bytes: "hash_bytes h + word_of_nat (B - ?r) + word_of_nat (B * (length d1 div B)) + word_of_nat (length (rest B d1)) =
        (word_of_nat (length m + length data) :: uint64)"
      unfolding H(4) len length_rest [OF B(1)] of_nat_add [symmetric] by (simp add: algebra_simps)
    have mod: "(length m + length data) mod B = length (rest B d1)"
      using rest1 length_rest [OF B(1), of "m @ data"] by simp
    show ?thesis
      using buf1 H(2) s1 rest1 bytes mod True length_rest [OF B(1), of d1] mod_less_divisor [OF B(1), of "length d1"]
      by (cases "rest B d1 = []")
        (simp_all add: stream_Write_def absorbed_def H(5) Write_chunks_eq [OF B(1)] Let_def memcpy_at_def flip: d1_def)
  next
    case False
    have chunks: "Write_chunks B tr data (hash_s h) (hash_bytes h) =
        (absorb B tr (hash_s h) data, hash_bytes h + word_of_nat (B * (length data div B)), rest B data)"
      by (rule Write_chunks_eq [OF B(1)])
    show ?thesis
    proof (cases "?r = 0")
      case True
      then have nil: "rest B m = []" using lr by simp
      have rest1: "rest B (m @ data) = rest B data" using rest_append [OF B(1), of m data] nil by simp
      have bytes: "hash_bytes h + word_of_nat (B * (length data div B)) + word_of_nat (length (rest B data)) =
          (word_of_nat (length m + length data) :: uint64)"
        unfolding H(4) length_rest [OF B(1)] of_nat_add [symmetric] by (simp add: algebra_simps)
      have mod: "(length m + length data) mod B = length (rest B data)"
        using rest1 length_rest [OF B(1), of "m @ data"] by simp
      show ?thesis
        using True s nil rest1 bytes mod length_rest [OF B(1), of data] mod_less_divisor [OF B(1), of "length data"]
        by (cases "rest B data = []")
          (simp_all add: stream_Write_def absorbed_def H(1,2,5) chunks [unfolded H(2)] Let_def memcpy_at_def)
    next
      case nz: False
      with False have short: "?r + length data < B" by simp
      then have rd: "rest B data = data" "absorb B tr (hash_s h) data = hash_s h" "length data div B = 0"
        by (simp_all add: rest_def absorb_short)
      have rest1: "rest B (m @ data) = rest B m @ data"
        using rest_append [OF B(1), of m data] short lr by (simp add: rest_def [of B "rest B m @ data"])
      have mod: "(length m + length data) mod B = ?r + length data"
        using rest1 length_rest [OF B(1), of "m @ data"] lr by simp
      have st: "absorb B tr s0 (m @ data) = absorb B tr s0 m" unfolding s using short lr by (simp add: absorb_short)
      have w: "stream_Write B tr data h = (if data \<noteq> [] then
          \<lparr>hash_s = hash_s h, hash_buf = memcpy_at (hash_buf h) ?r data, hash_bytes = hash_bytes h + word_of_nat (length data)\<rparr>
        else \<lparr>hash_s = hash_s h, hash_buf = hash_buf h, hash_bytes = hash_bytes h\<rparr>)"
        using nz False rd by (simp add: stream_Write_def H(5) chunks Let_def)
      show ?thesis
        using H(2-4) rest1 mod st short unfolding w
        by (cases "data = []") (simp_all add: absorbed_def H(1) lr memcpy_at_def)
    qed
  qed
qed

lemma absorbed_init:
  "0 < B \<Longrightarrow> length buf = B \<Longrightarrow> absorbed B tr s0 [] \<lparr>hash_s = s0, hash_buf = buf, hash_bytes = 0\<rparr>"
  by (simp add: absorbed_def absorb_short rest_def)

lemma stream_Writes_absorbed:
  assumes "0 < B" "B dvd 2 ^ 64" and "absorbed B tr s0 m h"
  shows "absorbed B tr s0 (m @ concat ds) (fold (stream_Write B tr) ds h)"
  using assms(3)
proof (induction ds arbitrary: m h)
  case (Cons d ds)
  from Cons.IH [OF stream_Write_absorbed [OF assms(1,2) Cons.prems]] show ?case by simp
qed simp

end
