(* ===== verification/Crypto_Common.thy ===== *)
theory Crypto_Common
  imports Prelude
begin

text \<open>
  \<^verbatim>\<open>src/crypto/common.h\<close>: reading and writing words in a fixed byte order, and the bit length of a word. The pointer
  arguments are byte lists that start where they point.
\<close>

definition ReadLE32w :: "byte list \<Rightarrow> uint32" where
  "ReadLE32w ptr = word_of_nat (le_nat (take 4 ptr))"

definition ReadLE64w :: "byte list \<Rightarrow> uint64" where
  "ReadLE64w ptr = word_of_nat (le_nat (take 8 ptr))"

definition WriteLE32w :: "uint32 \<Rightarrow> byte list" where
  "WriteLE32w x = le_bytes 4 (unat x)"

definition WriteLE64w :: "uint64 \<Rightarrow> byte list" where
  "WriteLE64w x = le_bytes 8 (unat x)"

definition ReadBE32 :: "byte list \<Rightarrow> uint32" where
  "ReadBE32 ptr = word_of_nat (le_nat (rev (take 4 ptr)))"

definition ReadBE64 :: "byte list \<Rightarrow> uint64" where
  "ReadBE64 ptr = word_of_nat (le_nat (rev (take 8 ptr)))"

definition WriteBE32 :: "uint32 \<Rightarrow> byte list" where
  "WriteBE32 x = rev (le_bytes 4 (unat x))"

definition WriteBE64 :: "uint64 \<Rightarrow> byte list" where
  "WriteBE64 x = rev (le_bytes 8 (unat x))"

text \<open>The loop of the fallback counts the shifts until the word is zero.\<close>

function CountBits :: "uint64 \<Rightarrow> nat" where
  "CountBits x = (if x \<noteq> 0 then Suc (CountBits (drop_bit 1 x)) else 0)"
  by pat_completeness auto
termination
proof (relation "measure unat")
  fix x :: uint64 assume "x \<noteq> 0"
  then have "0 < unat x" by (simp add: unat_gt_0)
  then show "(drop_bit 1 x, x) \<in> measure unat" by (simp add: drop_bit_eq_div unat_div)
qed simp

declare CountBits.simps [simp del]

text \<open>The smallest shift that gives zero, 64 when the highest bit is set.\<close>

lemma CountBits_least: "drop_bit n x = 0 \<longleftrightarrow> CountBits x \<le> n"
proof (induction x arbitrary: n rule: CountBits.induct)
  case (1 x)
  show ?case
  proof (cases "x = 0")
    case False
    then show ?thesis using "1.IH" [of "n - 1"]
      by (cases n) (simp_all add: CountBits.simps [of x] drop_bit_drop_bit del: drop_bit_Suc)
  qed (simp add: CountBits.simps)
qed

lemma CountBits_le: "CountBits x \<le> 64"
proof -
  have "drop_bit 64 x = 0" by (rule bit_word_eqI) (simp add: bit_simps)
  then show ?thesis using CountBits_least by blast
qed

end
