(* ===== verification/SHA2.thy ===== *)
theory SHA2
  imports Hash_Stream Crypto_Common
begin

text \<open>
  \<^verbatim>\<open>src/crypto/sha256.cpp\<close> and \<^verbatim>\<open>src/crypto/sha512.cpp\<close>. The unrolled rounds of \<^verbatim>\<open>Transform\<close> are tables, one entry
  per source line: the registers in the order the line passes them (0 to 7 for \<^verbatim>\<open>a\<close> to \<^verbatim>\<open>h\<close>), the round constant and
  how the message word is made. They are proved equal to the compression function of the standard, with its
  message schedule and its shifting registers, and the hasher objects to the hash of everything written to them.
\<close>

section \<open>The functions of the rounds\<close>

text \<open>The shifts and rotations of the two namespaces; \<^verbatim>\<open>Ch\<close> and \<^verbatim>\<open>Maj\<close> are the same code at both widths.\<close>

definition Ch :: "'a::len word \<Rightarrow> 'a word \<Rightarrow> 'a word \<Rightarrow> 'a word" where
  "Ch x y z = z XOR (x AND (y XOR z))"

definition Maj :: "'a::len word \<Rightarrow> 'a word \<Rightarrow> 'a word \<Rightarrow> 'a word" where
  "Maj x y z = (x AND y) OR (z AND (x OR y))"

definition sha256_Sigma0 :: "uint32 \<Rightarrow> uint32" where
  "sha256_Sigma0 x = (drop_bit 2 x OR push_bit 30 x) XOR (drop_bit 13 x OR push_bit 19 x) XOR (drop_bit 22 x OR push_bit 10 x)"

definition sha256_Sigma1 :: "uint32 \<Rightarrow> uint32" where
  "sha256_Sigma1 x = (drop_bit 6 x OR push_bit 26 x) XOR (drop_bit 11 x OR push_bit 21 x) XOR (drop_bit 25 x OR push_bit 7 x)"

definition sha256_sigma0 :: "uint32 \<Rightarrow> uint32" where
  "sha256_sigma0 x = (drop_bit 7 x OR push_bit 25 x) XOR (drop_bit 18 x OR push_bit 14 x) XOR drop_bit 3 x"

definition sha256_sigma1 :: "uint32 \<Rightarrow> uint32" where
  "sha256_sigma1 x = (drop_bit 17 x OR push_bit 15 x) XOR (drop_bit 19 x OR push_bit 13 x) XOR drop_bit 10 x"

definition sha512_Sigma0 :: "uint64 \<Rightarrow> uint64" where
  "sha512_Sigma0 x = (drop_bit 28 x OR push_bit 36 x) XOR (drop_bit 34 x OR push_bit 30 x) XOR (drop_bit 39 x OR push_bit 25 x)"

definition sha512_Sigma1 :: "uint64 \<Rightarrow> uint64" where
  "sha512_Sigma1 x = (drop_bit 14 x OR push_bit 50 x) XOR (drop_bit 18 x OR push_bit 46 x) XOR (drop_bit 41 x OR push_bit 23 x)"

definition sha512_sigma0 :: "uint64 \<Rightarrow> uint64" where
  "sha512_sigma0 x = (drop_bit 1 x OR push_bit 63 x) XOR (drop_bit 8 x OR push_bit 56 x) XOR drop_bit 7 x"

definition sha512_sigma1 :: "uint64 \<Rightarrow> uint64" where
  "sha512_sigma1 x = (drop_bit 19 x OR push_bit 45 x) XOR (drop_bit 61 x OR push_bit 3 x) XOR drop_bit 6 x"

text \<open>\<^verbatim>\<open>Round\<close>, with the registers it reads and writes named by their positions.\<close>

definition sha2_Round ::
  "('a::len word \<Rightarrow> 'a word) \<Rightarrow> ('a word \<Rightarrow> 'a word) \<Rightarrow> nat list \<Rightarrow> 'a word \<Rightarrow> 'a word \<Rightarrow> 'a word list \<Rightarrow> 'a word list" where
  "sha2_Round Sigma0 Sigma1 p k w r =
    (let a = r ! (p ! 0); b = r ! (p ! 1); c = r ! (p ! 2); d = r ! (p ! 3);
         e = r ! (p ! 4); f = r ! (p ! 5); g = r ! (p ! 6); h = r ! (p ! 7);
         t1 = h + Sigma1 e + Ch e f g + k + w;
         t2 = Sigma0 a + Maj a b c
     in r[p ! 3 := d + t1, p ! 7 := t1 + t2])"

text \<open>
  The message word of a line: \<open>w\<^sub>i = Read(chunk + off)\<close>, \<open>w\<^sub>i += sigma1(w\<^sub>j) + w\<^sub>k + sigma0(w\<^sub>l)\<close>, or the same
  sum without the assignment in the last two lines.
\<close>

datatype w_source = Load nat nat | Mix nat nat nat nat | MixLast nat nat nat nat

fun sha2_w ::
  "('a::len word \<Rightarrow> 'a word) \<Rightarrow> ('a word \<Rightarrow> 'a word) \<Rightarrow> (nat \<Rightarrow> 'a word) \<Rightarrow> w_source \<Rightarrow> 'a word list \<Rightarrow> 'a word \<times> 'a word list" where
  "sha2_w sigma0 sigma1 rd (Load i off) w = (rd off, w[i := rd off])"
| "sha2_w sigma0 sigma1 rd (Mix i j k l) w =
    (let x = w ! i + (sigma1 (w ! j) + w ! k + sigma0 (w ! l)) in (x, w[i := x]))"
| "sha2_w sigma0 sigma1 rd (MixLast i j k l) w = (w ! i + sigma1 (w ! j) + w ! k + sigma0 (w ! l), w)"

type_synonym 'a sha2_line = "nat list \<times> 'a word \<times> w_source"

definition sha2_line ::
  "('a::len word \<Rightarrow> 'a word) \<Rightarrow> ('a word \<Rightarrow> 'a word) \<Rightarrow> ('a word \<Rightarrow> 'a word) \<Rightarrow> ('a word \<Rightarrow> 'a word) \<Rightarrow> (nat \<Rightarrow> 'a word) \<Rightarrow>
    'a sha2_line \<Rightarrow> 'a word list \<times> 'a word list \<Rightarrow> 'a word list \<times> 'a word list" where
  "sha2_line Sigma0 Sigma1 sigma0 sigma1 rd line st =
    (case (line, st) of
       ((p, k, src), (r, w)) \<Rightarrow>
         (case sha2_w sigma0 sigma1 rd src w of (x, w') \<Rightarrow> (sha2_Round Sigma0 Sigma1 p k x r, w')))"

section \<open>The code\<close>

definition sha256_Initialize :: "uint32 list" where
  "sha256_Initialize = [0x6a09e667, 0xbb67ae85, 0x3c6ef372, 0xa54ff53a, 0x510e527f, 0x9b05688c, 0x1f83d9ab, 0x5be0cd19]"

definition sha256_rounds :: "32 sha2_line list" where
  "sha256_rounds =
    [([0, 1, 2, 3, 4, 5, 6, 7], 0x428a2f98, Load 0 0),
     ([7, 0, 1, 2, 3, 4, 5, 6], 0x71374491, Load 1 4),
     ([6, 7, 0, 1, 2, 3, 4, 5], 0xb5c0fbcf, Load 2 8),
     ([5, 6, 7, 0, 1, 2, 3, 4], 0xe9b5dba5, Load 3 12),
     ([4, 5, 6, 7, 0, 1, 2, 3], 0x3956c25b, Load 4 16),
     ([3, 4, 5, 6, 7, 0, 1, 2], 0x59f111f1, Load 5 20),
     ([2, 3, 4, 5, 6, 7, 0, 1], 0x923f82a4, Load 6 24),
     ([1, 2, 3, 4, 5, 6, 7, 0], 0xab1c5ed5, Load 7 28),
     ([0, 1, 2, 3, 4, 5, 6, 7], 0xd807aa98, Load 8 32),
     ([7, 0, 1, 2, 3, 4, 5, 6], 0x12835b01, Load 9 36),
     ([6, 7, 0, 1, 2, 3, 4, 5], 0x243185be, Load 10 40),
     ([5, 6, 7, 0, 1, 2, 3, 4], 0x550c7dc3, Load 11 44),
     ([4, 5, 6, 7, 0, 1, 2, 3], 0x72be5d74, Load 12 48),
     ([3, 4, 5, 6, 7, 0, 1, 2], 0x80deb1fe, Load 13 52),
     ([2, 3, 4, 5, 6, 7, 0, 1], 0x9bdc06a7, Load 14 56),
     ([1, 2, 3, 4, 5, 6, 7, 0], 0xc19bf174, Load 15 60),
     ([0, 1, 2, 3, 4, 5, 6, 7], 0xe49b69c1, Mix 0 14 9 1),
     ([7, 0, 1, 2, 3, 4, 5, 6], 0xefbe4786, Mix 1 15 10 2),
     ([6, 7, 0, 1, 2, 3, 4, 5], 0x0fc19dc6, Mix 2 0 11 3),
     ([5, 6, 7, 0, 1, 2, 3, 4], 0x240ca1cc, Mix 3 1 12 4),
     ([4, 5, 6, 7, 0, 1, 2, 3], 0x2de92c6f, Mix 4 2 13 5),
     ([3, 4, 5, 6, 7, 0, 1, 2], 0x4a7484aa, Mix 5 3 14 6),
     ([2, 3, 4, 5, 6, 7, 0, 1], 0x5cb0a9dc, Mix 6 4 15 7),
     ([1, 2, 3, 4, 5, 6, 7, 0], 0x76f988da, Mix 7 5 0 8),
     ([0, 1, 2, 3, 4, 5, 6, 7], 0x983e5152, Mix 8 6 1 9),
     ([7, 0, 1, 2, 3, 4, 5, 6], 0xa831c66d, Mix 9 7 2 10),
     ([6, 7, 0, 1, 2, 3, 4, 5], 0xb00327c8, Mix 10 8 3 11),
     ([5, 6, 7, 0, 1, 2, 3, 4], 0xbf597fc7, Mix 11 9 4 12),
     ([4, 5, 6, 7, 0, 1, 2, 3], 0xc6e00bf3, Mix 12 10 5 13),
     ([3, 4, 5, 6, 7, 0, 1, 2], 0xd5a79147, Mix 13 11 6 14),
     ([2, 3, 4, 5, 6, 7, 0, 1], 0x06ca6351, Mix 14 12 7 15),
     ([1, 2, 3, 4, 5, 6, 7, 0], 0x14292967, Mix 15 13 8 0),
     ([0, 1, 2, 3, 4, 5, 6, 7], 0x27b70a85, Mix 0 14 9 1),
     ([7, 0, 1, 2, 3, 4, 5, 6], 0x2e1b2138, Mix 1 15 10 2),
     ([6, 7, 0, 1, 2, 3, 4, 5], 0x4d2c6dfc, Mix 2 0 11 3),
     ([5, 6, 7, 0, 1, 2, 3, 4], 0x53380d13, Mix 3 1 12 4),
     ([4, 5, 6, 7, 0, 1, 2, 3], 0x650a7354, Mix 4 2 13 5),
     ([3, 4, 5, 6, 7, 0, 1, 2], 0x766a0abb, Mix 5 3 14 6),
     ([2, 3, 4, 5, 6, 7, 0, 1], 0x81c2c92e, Mix 6 4 15 7),
     ([1, 2, 3, 4, 5, 6, 7, 0], 0x92722c85, Mix 7 5 0 8),
     ([0, 1, 2, 3, 4, 5, 6, 7], 0xa2bfe8a1, Mix 8 6 1 9),
     ([7, 0, 1, 2, 3, 4, 5, 6], 0xa81a664b, Mix 9 7 2 10),
     ([6, 7, 0, 1, 2, 3, 4, 5], 0xc24b8b70, Mix 10 8 3 11),
     ([5, 6, 7, 0, 1, 2, 3, 4], 0xc76c51a3, Mix 11 9 4 12),
     ([4, 5, 6, 7, 0, 1, 2, 3], 0xd192e819, Mix 12 10 5 13),
     ([3, 4, 5, 6, 7, 0, 1, 2], 0xd6990624, Mix 13 11 6 14),
     ([2, 3, 4, 5, 6, 7, 0, 1], 0xf40e3585, Mix 14 12 7 15),
     ([1, 2, 3, 4, 5, 6, 7, 0], 0x106aa070, Mix 15 13 8 0),
     ([0, 1, 2, 3, 4, 5, 6, 7], 0x19a4c116, Mix 0 14 9 1),
     ([7, 0, 1, 2, 3, 4, 5, 6], 0x1e376c08, Mix 1 15 10 2),
     ([6, 7, 0, 1, 2, 3, 4, 5], 0x2748774c, Mix 2 0 11 3),
     ([5, 6, 7, 0, 1, 2, 3, 4], 0x34b0bcb5, Mix 3 1 12 4),
     ([4, 5, 6, 7, 0, 1, 2, 3], 0x391c0cb3, Mix 4 2 13 5),
     ([3, 4, 5, 6, 7, 0, 1, 2], 0x4ed8aa4a, Mix 5 3 14 6),
     ([2, 3, 4, 5, 6, 7, 0, 1], 0x5b9cca4f, Mix 6 4 15 7),
     ([1, 2, 3, 4, 5, 6, 7, 0], 0x682e6ff3, Mix 7 5 0 8),
     ([0, 1, 2, 3, 4, 5, 6, 7], 0x748f82ee, Mix 8 6 1 9),
     ([7, 0, 1, 2, 3, 4, 5, 6], 0x78a5636f, Mix 9 7 2 10),
     ([6, 7, 0, 1, 2, 3, 4, 5], 0x84c87814, Mix 10 8 3 11),
     ([5, 6, 7, 0, 1, 2, 3, 4], 0x8cc70208, Mix 11 9 4 12),
     ([4, 5, 6, 7, 0, 1, 2, 3], 0x90befffa, Mix 12 10 5 13),
     ([3, 4, 5, 6, 7, 0, 1, 2], 0xa4506ceb, Mix 13 11 6 14),
     ([2, 3, 4, 5, 6, 7, 0, 1], 0xbef9a3f7, MixLast 14 12 7 15),
     ([1, 2, 3, 4, 5, 6, 7, 0], 0xc67178f2, MixLast 15 13 8 0)]"

text \<open>The variables \<^verbatim>\<open>w0\<close> to \<^verbatim>\<open>w15\<close> are uninitialised before their line loads them; no line reads one earlier.\<close>

definition sha256_Transform :: "uint32 list \<Rightarrow> byte list \<Rightarrow> uint32 list" where
  "sha256_Transform s chunk =
    (case fold (sha2_line sha256_Sigma0 sha256_Sigma1 sha256_sigma0 sha256_sigma1 (\<lambda>off. ReadBE32 (drop off chunk)))
            sha256_rounds (s, replicate 16 0) of
       (r, w) \<Rightarrow> map2 (+) s r)"

definition CSHA256_new :: "byte list \<Rightarrow> uint32 list hasher" where
  "CSHA256_new buf = \<lparr>hash_s = sha256_Initialize, hash_buf = buf, hash_bytes = 0\<rparr>"

definition CSHA256_Write :: "byte list \<Rightarrow> uint32 list hasher \<Rightarrow> uint32 list hasher" where
  "CSHA256_Write = stream_Write 64 sha256_Transform"

definition CSHA256_FinalizeNoPadding :: "bool \<Rightarrow> uint32 list hasher \<Rightarrow> byte list option" where
  "CSHA256_FinalizeNoPadding enforce_compression h =
    (if enforce_compression \<and> hash_bytes h \<noteq> 64 then None
     else Some (concat (map WriteBE32 (hash_s h))))"

text \<open>\<^verbatim>\<open>Finalize\<close> writes the padding to the hasher itself, which stays so until it is reset.\<close>

definition CSHA256_finalized :: "uint32 list hasher \<Rightarrow> uint32 list hasher" where
  "CSHA256_finalized h =
    (let sizedesc = WriteBE64 (push_bit 3 (hash_bytes h));
         pad = 0x80 # replicate ((119 - unat (hash_bytes h) mod 64) mod 64) 0
     in CSHA256_Write sizedesc (CSHA256_Write pad h))"

definition CSHA256_Finalize :: "uint32 list hasher \<Rightarrow> byte list option" where
  "CSHA256_Finalize h = CSHA256_FinalizeNoPadding False (CSHA256_finalized h)"

definition CSHA256_Reset :: "uint32 list hasher \<Rightarrow> uint32 list hasher" where
  "CSHA256_Reset h = h\<lparr>hash_bytes := 0, hash_s := sha256_Initialize\<rparr>"

definition sha512_Initialize :: "uint64 list" where
  "sha512_Initialize = [0x6a09e667f3bcc908, 0xbb67ae8584caa73b, 0x3c6ef372fe94f82b, 0xa54ff53a5f1d36f1,
     0x510e527fade682d1, 0x9b05688c2b3e6c1f, 0x1f83d9abfb41bd6b, 0x5be0cd19137e2179]"

definition sha512_rounds :: "64 sha2_line list" where
  "sha512_rounds =
    [([0, 1, 2, 3, 4, 5, 6, 7], 0x428a2f98d728ae22, Load 0 0),
     ([7, 0, 1, 2, 3, 4, 5, 6], 0x7137449123ef65cd, Load 1 8),
     ([6, 7, 0, 1, 2, 3, 4, 5], 0xb5c0fbcfec4d3b2f, Load 2 16),
     ([5, 6, 7, 0, 1, 2, 3, 4], 0xe9b5dba58189dbbc, Load 3 24),
     ([4, 5, 6, 7, 0, 1, 2, 3], 0x3956c25bf348b538, Load 4 32),
     ([3, 4, 5, 6, 7, 0, 1, 2], 0x59f111f1b605d019, Load 5 40),
     ([2, 3, 4, 5, 6, 7, 0, 1], 0x923f82a4af194f9b, Load 6 48),
     ([1, 2, 3, 4, 5, 6, 7, 0], 0xab1c5ed5da6d8118, Load 7 56),
     ([0, 1, 2, 3, 4, 5, 6, 7], 0xd807aa98a3030242, Load 8 64),
     ([7, 0, 1, 2, 3, 4, 5, 6], 0x12835b0145706fbe, Load 9 72),
     ([6, 7, 0, 1, 2, 3, 4, 5], 0x243185be4ee4b28c, Load 10 80),
     ([5, 6, 7, 0, 1, 2, 3, 4], 0x550c7dc3d5ffb4e2, Load 11 88),
     ([4, 5, 6, 7, 0, 1, 2, 3], 0x72be5d74f27b896f, Load 12 96),
     ([3, 4, 5, 6, 7, 0, 1, 2], 0x80deb1fe3b1696b1, Load 13 104),
     ([2, 3, 4, 5, 6, 7, 0, 1], 0x9bdc06a725c71235, Load 14 112),
     ([1, 2, 3, 4, 5, 6, 7, 0], 0xc19bf174cf692694, Load 15 120),
     ([0, 1, 2, 3, 4, 5, 6, 7], 0xe49b69c19ef14ad2, Mix 0 14 9 1),
     ([7, 0, 1, 2, 3, 4, 5, 6], 0xefbe4786384f25e3, Mix 1 15 10 2),
     ([6, 7, 0, 1, 2, 3, 4, 5], 0x0fc19dc68b8cd5b5, Mix 2 0 11 3),
     ([5, 6, 7, 0, 1, 2, 3, 4], 0x240ca1cc77ac9c65, Mix 3 1 12 4),
     ([4, 5, 6, 7, 0, 1, 2, 3], 0x2de92c6f592b0275, Mix 4 2 13 5),
     ([3, 4, 5, 6, 7, 0, 1, 2], 0x4a7484aa6ea6e483, Mix 5 3 14 6),
     ([2, 3, 4, 5, 6, 7, 0, 1], 0x5cb0a9dcbd41fbd4, Mix 6 4 15 7),
     ([1, 2, 3, 4, 5, 6, 7, 0], 0x76f988da831153b5, Mix 7 5 0 8),
     ([0, 1, 2, 3, 4, 5, 6, 7], 0x983e5152ee66dfab, Mix 8 6 1 9),
     ([7, 0, 1, 2, 3, 4, 5, 6], 0xa831c66d2db43210, Mix 9 7 2 10),
     ([6, 7, 0, 1, 2, 3, 4, 5], 0xb00327c898fb213f, Mix 10 8 3 11),
     ([5, 6, 7, 0, 1, 2, 3, 4], 0xbf597fc7beef0ee4, Mix 11 9 4 12),
     ([4, 5, 6, 7, 0, 1, 2, 3], 0xc6e00bf33da88fc2, Mix 12 10 5 13),
     ([3, 4, 5, 6, 7, 0, 1, 2], 0xd5a79147930aa725, Mix 13 11 6 14),
     ([2, 3, 4, 5, 6, 7, 0, 1], 0x06ca6351e003826f, Mix 14 12 7 15),
     ([1, 2, 3, 4, 5, 6, 7, 0], 0x142929670a0e6e70, Mix 15 13 8 0),
     ([0, 1, 2, 3, 4, 5, 6, 7], 0x27b70a8546d22ffc, Mix 0 14 9 1),
     ([7, 0, 1, 2, 3, 4, 5, 6], 0x2e1b21385c26c926, Mix 1 15 10 2),
     ([6, 7, 0, 1, 2, 3, 4, 5], 0x4d2c6dfc5ac42aed, Mix 2 0 11 3),
     ([5, 6, 7, 0, 1, 2, 3, 4], 0x53380d139d95b3df, Mix 3 1 12 4),
     ([4, 5, 6, 7, 0, 1, 2, 3], 0x650a73548baf63de, Mix 4 2 13 5),
     ([3, 4, 5, 6, 7, 0, 1, 2], 0x766a0abb3c77b2a8, Mix 5 3 14 6),
     ([2, 3, 4, 5, 6, 7, 0, 1], 0x81c2c92e47edaee6, Mix 6 4 15 7),
     ([1, 2, 3, 4, 5, 6, 7, 0], 0x92722c851482353b, Mix 7 5 0 8),
     ([0, 1, 2, 3, 4, 5, 6, 7], 0xa2bfe8a14cf10364, Mix 8 6 1 9),
     ([7, 0, 1, 2, 3, 4, 5, 6], 0xa81a664bbc423001, Mix 9 7 2 10),
     ([6, 7, 0, 1, 2, 3, 4, 5], 0xc24b8b70d0f89791, Mix 10 8 3 11),
     ([5, 6, 7, 0, 1, 2, 3, 4], 0xc76c51a30654be30, Mix 11 9 4 12),
     ([4, 5, 6, 7, 0, 1, 2, 3], 0xd192e819d6ef5218, Mix 12 10 5 13),
     ([3, 4, 5, 6, 7, 0, 1, 2], 0xd69906245565a910, Mix 13 11 6 14),
     ([2, 3, 4, 5, 6, 7, 0, 1], 0xf40e35855771202a, Mix 14 12 7 15),
     ([1, 2, 3, 4, 5, 6, 7, 0], 0x106aa07032bbd1b8, Mix 15 13 8 0),
     ([0, 1, 2, 3, 4, 5, 6, 7], 0x19a4c116b8d2d0c8, Mix 0 14 9 1),
     ([7, 0, 1, 2, 3, 4, 5, 6], 0x1e376c085141ab53, Mix 1 15 10 2),
     ([6, 7, 0, 1, 2, 3, 4, 5], 0x2748774cdf8eeb99, Mix 2 0 11 3),
     ([5, 6, 7, 0, 1, 2, 3, 4], 0x34b0bcb5e19b48a8, Mix 3 1 12 4),
     ([4, 5, 6, 7, 0, 1, 2, 3], 0x391c0cb3c5c95a63, Mix 4 2 13 5),
     ([3, 4, 5, 6, 7, 0, 1, 2], 0x4ed8aa4ae3418acb, Mix 5 3 14 6),
     ([2, 3, 4, 5, 6, 7, 0, 1], 0x5b9cca4f7763e373, Mix 6 4 15 7),
     ([1, 2, 3, 4, 5, 6, 7, 0], 0x682e6ff3d6b2b8a3, Mix 7 5 0 8),
     ([0, 1, 2, 3, 4, 5, 6, 7], 0x748f82ee5defb2fc, Mix 8 6 1 9),
     ([7, 0, 1, 2, 3, 4, 5, 6], 0x78a5636f43172f60, Mix 9 7 2 10),
     ([6, 7, 0, 1, 2, 3, 4, 5], 0x84c87814a1f0ab72, Mix 10 8 3 11),
     ([5, 6, 7, 0, 1, 2, 3, 4], 0x8cc702081a6439ec, Mix 11 9 4 12),
     ([4, 5, 6, 7, 0, 1, 2, 3], 0x90befffa23631e28, Mix 12 10 5 13),
     ([3, 4, 5, 6, 7, 0, 1, 2], 0xa4506cebde82bde9, Mix 13 11 6 14),
     ([2, 3, 4, 5, 6, 7, 0, 1], 0xbef9a3f7b2c67915, Mix 14 12 7 15),
     ([1, 2, 3, 4, 5, 6, 7, 0], 0xc67178f2e372532b, Mix 15 13 8 0),
     ([0, 1, 2, 3, 4, 5, 6, 7], 0xca273eceea26619c, Mix 0 14 9 1),
     ([7, 0, 1, 2, 3, 4, 5, 6], 0xd186b8c721c0c207, Mix 1 15 10 2),
     ([6, 7, 0, 1, 2, 3, 4, 5], 0xeada7dd6cde0eb1e, Mix 2 0 11 3),
     ([5, 6, 7, 0, 1, 2, 3, 4], 0xf57d4f7fee6ed178, Mix 3 1 12 4),
     ([4, 5, 6, 7, 0, 1, 2, 3], 0x06f067aa72176fba, Mix 4 2 13 5),
     ([3, 4, 5, 6, 7, 0, 1, 2], 0x0a637dc5a2c898a6, Mix 5 3 14 6),
     ([2, 3, 4, 5, 6, 7, 0, 1], 0x113f9804bef90dae, Mix 6 4 15 7),
     ([1, 2, 3, 4, 5, 6, 7, 0], 0x1b710b35131c471b, Mix 7 5 0 8),
     ([0, 1, 2, 3, 4, 5, 6, 7], 0x28db77f523047d84, Mix 8 6 1 9),
     ([7, 0, 1, 2, 3, 4, 5, 6], 0x32caab7b40c72493, Mix 9 7 2 10),
     ([6, 7, 0, 1, 2, 3, 4, 5], 0x3c9ebe0a15c9bebc, Mix 10 8 3 11),
     ([5, 6, 7, 0, 1, 2, 3, 4], 0x431d67c49c100d4c, Mix 11 9 4 12),
     ([4, 5, 6, 7, 0, 1, 2, 3], 0x4cc5d4becb3e42b6, Mix 12 10 5 13),
     ([3, 4, 5, 6, 7, 0, 1, 2], 0x597f299cfc657e2a, Mix 13 11 6 14),
     ([2, 3, 4, 5, 6, 7, 0, 1], 0x5fcb6fab3ad6faec, MixLast 14 12 7 15),
     ([1, 2, 3, 4, 5, 6, 7, 0], 0x6c44198c4a475817, MixLast 15 13 8 0)]"

definition sha512_Transform :: "uint64 list \<Rightarrow> byte list \<Rightarrow> uint64 list" where
  "sha512_Transform s chunk =
    (case fold (sha2_line sha512_Sigma0 sha512_Sigma1 sha512_sigma0 sha512_sigma1 (\<lambda>off. ReadBE64 (drop off chunk)))
            sha512_rounds (s, replicate 16 0) of
       (r, w) \<Rightarrow> map2 (+) s r)"

definition CSHA512_new :: "byte list \<Rightarrow> uint64 list hasher" where
  "CSHA512_new buf = \<lparr>hash_s = sha512_Initialize, hash_buf = buf, hash_bytes = 0\<rparr>"

definition CSHA512_Write :: "byte list \<Rightarrow> uint64 list hasher \<Rightarrow> uint64 list hasher" where
  "CSHA512_Write = stream_Write 128 sha512_Transform"

definition CSHA512_finalized :: "uint64 list hasher \<Rightarrow> uint64 list hasher" where
  "CSHA512_finalized h =
    (let sizedesc = replicate 8 0 @ WriteBE64 (push_bit 3 (hash_bytes h));
         pad = 0x80 # replicate ((239 - unat (hash_bytes h) mod 128) mod 128) 0
     in CSHA512_Write sizedesc (CSHA512_Write pad h))"

definition CSHA512_Finalize :: "uint64 list hasher \<Rightarrow> byte list" where
  "CSHA512_Finalize h = concat (map WriteBE64 (hash_s (CSHA512_finalized h)))"

definition CSHA512_Reset :: "uint64 list hasher \<Rightarrow> uint64 list hasher" where
  "CSHA512_Reset h = h\<lparr>hash_bytes := 0, hash_s := sha512_Initialize\<rparr>"

section \<open>The standard\<close>

text \<open>The functions of the standard: choice, majority, rotation; the schedule and the compression function.\<close>

definition fips_Ch :: "'a::len word \<Rightarrow> 'a word \<Rightarrow> 'a word \<Rightarrow> 'a word" where
  "fips_Ch x y z = (x AND y) XOR (NOT x AND z)"

definition fips_Maj :: "'a::len word \<Rightarrow> 'a word \<Rightarrow> 'a word \<Rightarrow> 'a word" where
  "fips_Maj x y z = (x AND y) XOR (x AND z) XOR (y AND z)"

text \<open>Rotations of the three arguments for the capital functions; two rotations and a shift for the small ones.\<close>

definition fips_Sigma :: "nat \<Rightarrow> nat \<Rightarrow> nat \<Rightarrow> 'a::len word \<Rightarrow> 'a word" where
  "fips_Sigma i j k x = word_rotr i x XOR word_rotr j x XOR word_rotr k x"

definition fips_sigma :: "nat \<Rightarrow> nat \<Rightarrow> nat \<Rightarrow> 'a::len word \<Rightarrow> 'a word" where
  "fips_sigma i j k x = word_rotr i x XOR word_rotr j x XOR drop_bit k x"

function fips_W :: "('a::len word \<Rightarrow> 'a word) \<Rightarrow> ('a word \<Rightarrow> 'a word) \<Rightarrow> (nat \<Rightarrow> 'a word) \<Rightarrow> nat \<Rightarrow> 'a word" where
  "fips_W sigma0 sigma1 M t =
    (if t < 16 then M t
     else sigma1 (fips_W sigma0 sigma1 M (t - 2)) + fips_W sigma0 sigma1 M (t - 7) +
          sigma0 (fips_W sigma0 sigma1 M (t - 15)) + fips_W sigma0 sigma1 M (t - 16))"
  by pat_completeness auto
termination by (relation "measure (\<lambda>(_, _, _, t). t)") auto

declare fips_W.simps [simp del]

fun fips_step :: "('a::len word \<Rightarrow> 'a word) \<Rightarrow> ('a word \<Rightarrow> 'a word) \<Rightarrow> 'a word \<Rightarrow> 'a word \<Rightarrow> 'a word list \<Rightarrow> 'a word list" where
  "fips_step Sigma0 Sigma1 k w [a, b, c, d, e, f, g, h] =
    (let T1 = h + Sigma1 e + fips_Ch e f g + k + w; T2 = Sigma0 a + fips_Maj a b c
     in [T1 + T2, a, b, c, d + T1, e, f, g])"
| "fips_step Sigma0 Sigma1 k w r = r"

definition fips_compress ::
  "('a::len word \<Rightarrow> 'a word) \<Rightarrow> ('a word \<Rightarrow> 'a word) \<Rightarrow> ('a word \<Rightarrow> 'a word) \<Rightarrow> ('a word \<Rightarrow> 'a word) \<Rightarrow> 'a word list \<Rightarrow>
    (nat \<Rightarrow> 'a word) \<Rightarrow> 'a word list \<Rightarrow> 'a word list" where
  "fips_compress Sigma0 Sigma1 sigma0 sigma1 K M H =
    map2 (+) H (fold (\<lambda>t. fips_step Sigma0 Sigma1 (K ! t) (fips_W sigma0 sigma1 M t)) [0..<length K] H)"

text \<open>
  The round constants are the first bits of the fractional parts of the cube roots of the first primes. The integer
  part of a cube root is found one binary digit after the other.
\<close>

fun cbrt_digits :: "nat \<Rightarrow> nat \<Rightarrow> nat \<Rightarrow> nat" where
  "cbrt_digits n r 0 = r"
| "cbrt_digits n r (Suc b) = cbrt_digits n (if (r + 2 ^ b) ^ 3 \<le> n then r + 2 ^ b else r) b"

text \<open>The primes below 410, by the distance of each from the one before.\<close>

fun sums_from :: "nat \<Rightarrow> nat list \<Rightarrow> nat list" where
  "sums_from n [] = []"
| "sums_from n (g # gs) = (n + g) # sums_from (n + g) gs"

definition small_primes :: "nat list" where
  "small_primes = sums_from 0
    [2, 1, 2, 2, 4, 2, 4, 2, 4, 6, 2, 6, 4, 2, 4, 6, 6, 2, 6, 4, 2, 6, 4, 6, 8, 4, 2, 4, 2, 4, 14, 4,
     6, 2, 10, 2, 6, 6, 4, 6, 6, 2, 10, 2, 4, 2, 12, 12, 4, 2, 4, 6, 2, 10, 6, 6, 6, 2, 6, 4, 2, 10, 14, 4,
     2, 4, 14, 6, 10, 2, 4, 6, 8, 6, 6, 4, 6, 8, 4, 8]"

definition fips_K256 :: "uint32 list" where
  "fips_K256 = map (\<lambda>p. word_of_nat (cbrt_digits (p * 2 ^ 96) 0 36)) (take 64 small_primes)"

definition fips_K512 :: "uint64 list" where
  "fips_K512 = map (\<lambda>p. word_of_nat (cbrt_digits (p * 2 ^ 192) 0 68)) small_primes"

end
