(* ===== verification/SHA2_Constants.thy ===== *)
theory SHA2_Constants
  imports SHA2
begin

text \<open>
  The constants in the tables of \<^verbatim>\<open>sha256::Transform\<close> and \<^verbatim>\<open>sha512::Transform\<close> are those of the standard: the first 32 and 64
  bits of the fractional parts of the cube roots of the first 64 and 80 primes.
\<close>

lemma cbrt_digits_eq:
  assumes "r ^ 3 \<le> n" "n < (r + 2 ^ b) ^ 3" and "k ^ 3 \<le> n" "n < (k + 1) ^ 3"
  shows "cbrt_digits n r b = k"
  using assms(1,2)
proof (induction b arbitrary: r)
  case 0
  have "r < k + 1" "k < r + 1" using 0 assms(3,4) by (metis le_less_trans power_less_imp_less_base zero_le power_0)+
  then show ?case by simp
next
  case (Suc b)
  have two: "r + 2 ^ b + 2 ^ b = r + 2 ^ Suc b" by simp
  show ?case
  proof (cases "(r + 2 ^ b) ^ 3 \<le> n")
    case True
    then show ?thesis using Suc.IH [of "r + 2 ^ b"] Suc.prems by (simp only: two cbrt_digits.simps if_True)
  next
    case False
    then show ?thesis using Suc.IH [of r] Suc.prems by simp
  qed
qed

text \<open>A constant of a table is right when it and the integer part bound the cube root from below and from above.\<close>

definition cbrt_bounds :: "nat \<Rightarrow> nat \<Rightarrow> nat \<Rightarrow> bool" where
  "cbrt_bounds w p k \<longleftrightarrow> p < 512 \<and>
    (let i = (if p < 8 then 1 else if p < 27 then 2 else if p < 64 then 3 else if p < 125 then 4 else if p < 216 then 5
              else if p < 343 then 6 else 7) * 2 ^ w + k
     in i ^ 3 \<le> p * 2 ^ (3 * w) \<and> p * 2 ^ (3 * w) < (i + 1) ^ 3)"

lemma cbrt_constant:
  assumes "cbrt_bounds LENGTH('a) p (unat k)"
  shows "word_of_nat (cbrt_digits (p * 2 ^ (3 * LENGTH('a))) 0 (LENGTH('a) + 4)) = (k :: 'a::len word)"
proof -
  let ?n = "p * 2 ^ (3 * LENGTH('a))"
  obtain j where "(j * 2 ^ LENGTH('a) + unat k) ^ 3 \<le> ?n" "?n < (j * 2 ^ LENGTH('a) + unat k + 1) ^ 3" "p < 512"
    using assms unfolding cbrt_bounds_def Let_def by blast
  moreover have "?n < (0 + 2 ^ (LENGTH('a) + 4)) ^ 3"
  proof -
    have "p * 2 ^ (3 * LENGTH('a)) < 2 ^ 12 * 2 ^ (3 * LENGTH('a))" using \<open>p < 512\<close> by simp
    also have "\<dots> = (0 + 2 ^ (LENGTH('a) + 4)) ^ 3" by (simp add: power_add power_mult_distrib mult.commute [of 3] power_mult)
    finally show ?thesis .
  qed
  ultimately have "cbrt_digits ?n 0 (LENGTH('a) + 4) = j * 2 ^ LENGTH('a) + unat k" by (intro cbrt_digits_eq) simp_all
  then show ?thesis by (simp add: word_of_nat_eq_iff)
qed

lemma cbrt_constants:
  assumes "list_all2 (cbrt_bounds LENGTH('a)) ps (map unat ks)"
  shows "map (\<lambda>p. word_of_nat (cbrt_digits (p * 2 ^ (3 * LENGTH('a))) 0 (LENGTH('a) + 4))) ps = (ks :: 'a::len word list)"
  using assms by (auto simp: list_all2_conv_all_nth cbrt_constant intro!: nth_equalityI)

lemma small_primes_prime: "list_all (\<lambda>p. list_all (\<lambda>d. d < p \<longrightarrow> p mod d \<noteq> 0) [2, 3, 5, 7, 11, 13, 17, 19]) small_primes"
  unfolding small_primes_def by simp

text \<open>The tables are checked in parts of sixteen lines.\<close>

lemma list_all2_parts:
  assumes "length xs = length ys" and "\<And>i. i < length xs \<Longrightarrow> list_all2 P (take 16 (drop (16 * (i div 16)) xs)) (take 16 (drop (16 * (i div 16)) ys))"
  shows "list_all2 P xs ys"
proof (rule list_all2_all_nthI)
  fix i assume i: "i < length xs"
  have "i mod 16 < 16" by simp
  then have "P (take 16 (drop (16 * (i div 16)) xs) ! (i mod 16)) (take 16 (drop (16 * (i div 16)) ys) ! (i mod 16))"
    by (intro list_all2_nthD [OF assms(2) [OF i]]) (use i in \<open>simp add: minus_mult_div_eq_mod [symmetric]\<close>)
  then show "P (xs ! i) (ys ! i)" using i assms(1) by simp
qed (rule assms)

lemma sha256_K_part0: "list_all2 (cbrt_bounds 32) (take 16 (drop 0 small_primes)) (take 16 (drop 0 (map unat (map (\<lambda>(p, k, src). k) sha256_rounds))))"
  unfolding small_primes_def sha256_rounds_def by (simp add: cbrt_bounds_def)

lemma sha256_K_part1: "list_all2 (cbrt_bounds 32) (take 16 (drop 16 small_primes)) (take 16 (drop 16 (map unat (map (\<lambda>(p, k, src). k) sha256_rounds))))"
  unfolding small_primes_def sha256_rounds_def by (simp add: cbrt_bounds_def)

lemma sha256_K_part2: "list_all2 (cbrt_bounds 32) (take 16 (drop 32 small_primes)) (take 16 (drop 32 (map unat (map (\<lambda>(p, k, src). k) sha256_rounds))))"
  unfolding small_primes_def sha256_rounds_def by (simp add: cbrt_bounds_def)

lemma sha256_K_part3: "list_all2 (cbrt_bounds 32) (take 16 (drop 48 small_primes)) (take 16 (drop 48 (map unat (map (\<lambda>(p, k, src). k) sha256_rounds))))"
  unfolding small_primes_def sha256_rounds_def by (simp add: cbrt_bounds_def)

lemma sha512_K_part0: "list_all2 (cbrt_bounds 64) (take 16 (drop 0 small_primes)) (take 16 (drop 0 (map unat (map (\<lambda>(p, k, src). k) sha512_rounds))))"
  unfolding small_primes_def sha512_rounds_def by (simp add: cbrt_bounds_def)

lemma sha512_K_part1: "list_all2 (cbrt_bounds 64) (take 16 (drop 16 small_primes)) (take 16 (drop 16 (map unat (map (\<lambda>(p, k, src). k) sha512_rounds))))"
  unfolding small_primes_def sha512_rounds_def by (simp add: cbrt_bounds_def)

lemma sha512_K_part2: "list_all2 (cbrt_bounds 64) (take 16 (drop 32 small_primes)) (take 16 (drop 32 (map unat (map (\<lambda>(p, k, src). k) sha512_rounds))))"
  unfolding small_primes_def sha512_rounds_def by (simp add: cbrt_bounds_def)

lemma sha512_K_part3: "list_all2 (cbrt_bounds 64) (take 16 (drop 48 small_primes)) (take 16 (drop 48 (map unat (map (\<lambda>(p, k, src). k) sha512_rounds))))"
  unfolding small_primes_def sha512_rounds_def by (simp add: cbrt_bounds_def)

lemma sha512_K_part4: "list_all2 (cbrt_bounds 64) (take 16 (drop 64 small_primes)) (take 16 (drop 64 (map unat (map (\<lambda>(p, k, src). k) sha512_rounds))))"
  unfolding small_primes_def sha512_rounds_def by (simp add: cbrt_bounds_def)

lemma sha256_K: "fips_K256 = map (\<lambda>(p, k, src). k) sha256_rounds"
proof -
  have len: "length small_primes = 80" "length sha256_rounds = 64" by (simp_all add: small_primes_def sha256_rounds_def)
  have "list_all2 (cbrt_bounds 32) (take 64 small_primes) (map unat (map (\<lambda>(p, k, src). k) sha256_rounds))"
  proof (rule list_all2_parts)
    fix i assume "i < length (take 64 small_primes)"
    then have "i div 16 = 0 \<or> i div 16 = 1 \<or> i div 16 = 2 \<or> i div 16 = 3" by (auto simp: len)
    then show "list_all2 (cbrt_bounds 32) (take 16 (drop (16 * (i div 16)) (take 64 small_primes)))
       (take 16 (drop (16 * (i div 16)) (map unat (map (\<lambda>(p, k, src). k) sha256_rounds))))"
      using sha256_K_part0 sha256_K_part1 sha256_K_part2 sha256_K_part3 by (elim disjE) (simp_all add: drop_take)
  qed (simp add: len)
  then show ?thesis using cbrt_constants [where 'a = 32] by (simp add: fips_K256_def)
qed

lemma sha512_K: "fips_K512 = map (\<lambda>(p, k, src). k) sha512_rounds"
proof -
  have len: "length small_primes = 80" "length sha512_rounds = 80" by (simp_all add: small_primes_def sha512_rounds_def)
  have "list_all2 (cbrt_bounds 64) small_primes (map unat (map (\<lambda>(p, k, src). k) sha512_rounds))"
  proof (rule list_all2_parts)
    fix i assume "i < length small_primes"
    then have "i div 16 = 0 \<or> i div 16 = 1 \<or> i div 16 = 2 \<or> i div 16 = 3 \<or> i div 16 = 4" by (auto simp: len)
    then show "list_all2 (cbrt_bounds 64) (take 16 (drop (16 * (i div 16)) small_primes))
       (take 16 (drop (16 * (i div 16)) (map unat (map (\<lambda>(p, k, src). k) sha512_rounds))))"
      using sha512_K_part0 sha512_K_part1 sha512_K_part2 sha512_K_part3 sha512_K_part4 by (elim disjE) simp_all
  qed (simp add: len)
  then show ?thesis using cbrt_constants [where 'a = 64] by (simp add: fips_K512_def)
qed

end
