(* ===== verification/Hash_Rounds.thy ===== *)
theory Hash_Rounds
  imports Hash_Stream
begin

text \<open>
  The two idioms of the unrolled transforms of \<^verbatim>\<open>src/crypto\<close>. Instead of moving the registers, every line of the code
  names them rotated by one place (\<^verbatim>\<open>Round(h, a, b, ...)\<close> after \<^verbatim>\<open>Round(a, b, c, ...)\<close>), so a line changes the two
  registers it writes to; and the message schedule is kept in the sixteen variables \<^verbatim>\<open>w0\<close> to \<^verbatim>\<open>w15\<close>, each line
  overwriting the word of sixteen lines back.
\<close>

section \<open>Rotated registers\<close>

text \<open>The registers that line \<open>t\<close> names, of \<open>N\<close>.\<close>

definition rotated :: "nat \<Rightarrow> nat \<Rightarrow> nat list" where
  "rotated N t = drop ((N - 1) * t mod N) [0..<N] @ take ((N - 1) * t mod N) [0..<N]"

lemma rotated_rotate: "rotated N t = rotate ((N - 1) * t) [0..<N]"
  by (simp add: rotated_def rotate_drop_take)

lemma rotated_Suc: "rotated N (Suc t) = rotate (N - 1) (rotated N t)"
  by (simp add: rotated_rotate rotate_rotate)

lemma rotated_props: "length (rotated N t) = N" "distinct (rotated N t)" "set (rotated N t) = {0..<N}"
  by (simp_all add: rotated_rotate)

lemma map_nth_upt: "length r = N \<Longrightarrow> map ((!) r) [0..<N] = r"
  by (metis map_nth)

lemma rotated_full: "N dvd n \<Longrightarrow> rotated N n = [0..<N]"
  by (auto simp: rotated_def elim!: dvdE)

text \<open>
  A line written over named registers implements a step that shifts them when its result, read in the order of the
  next line, is the step of what it found.
\<close>

locale register_rounds =
  fixes N :: nat and code :: "nat list \<Rightarrow> 'l \<Rightarrow> 'a list \<Rightarrow> 'a list" and step :: "'l \<Rightarrow> 'a list \<Rightarrow> 'a list"
  assumes round: "length r = N \<Longrightarrow> length p = N \<Longrightarrow> distinct p \<Longrightarrow> set p = {0..<N} \<Longrightarrow>
      map ((!) (code p l r)) (rotate (N - 1) p) = step l (map ((!) r) p)"
    and length_code: "length (code p l r) = length r"
begin

lemma rounds:
  assumes "length r = N"
  shows "length (fold (\<lambda>t. code (rotated N t) (l t)) [0..<n] r) = N \<and>
    map ((!) (fold (\<lambda>t. code (rotated N t) (l t)) [0..<n] r)) (rotated N n) = fold (\<lambda>t. step (l t)) [0..<n] r"
proof (induction n)
  case 0
  show ?case using assms by (simp add: rotated_rotate map_nth_upt)
next
  case (Suc n)
  then show ?case using round [OF _ rotated_props] by (simp add: rotated_Suc length_code)
qed

lemma rounds_full:
  assumes "length r = N" and "N dvd n"
  shows "fold (\<lambda>t. code (rotated N t) (l t)) [0..<n] r = fold (\<lambda>t. step (l t)) [0..<n] r"
  using rounds [OF assms(1), of l n] rotated_full [OF assms(2)] map_nth_upt by metis

end

section \<open>The ring of message words\<close>

text \<open>Before line \<open>t\<close>, the ring holds the last sixteen of the words \<open>W\<close>; only the first \<open>U\<close> words are ever stored.\<close>

definition holds_words :: "nat \<Rightarrow> (nat \<Rightarrow> 'a) \<Rightarrow> nat \<Rightarrow> 'a list \<Rightarrow> bool" where
  "holds_words U W t w \<longleftrightarrow> length w = 16 \<and> (\<forall>i. i < t \<longrightarrow> i < U \<longrightarrow> t \<le> i + 16 \<longrightarrow> w ! (i mod 16) = W i)"

lemma mod16_inj: "i mod 16 = j mod 16 \<Longrightarrow> i < j + 16 \<Longrightarrow> j < i + 16 \<Longrightarrow> i = (j :: nat)"
  using mod_eq_dvd_iff_nat [of i j 16] mod_eq_dvd_iff_nat [of j i 16]
  by (cases i j rule: linorder_cases) (auto dest: dvd_imp_le)

lemma holds_words_init: "length w = 16 \<Longrightarrow> holds_words U W 0 w"
  by (simp add: holds_words_def)

lemma holds_words_store:
  assumes w: "holds_words U W t w"
  shows "holds_words U W (Suc t) (w[t mod 16 := W t])"
  unfolding holds_words_def
proof (intro conjI allI impI)
  have len: "length w = 16" using w by (simp add: holds_words_def)
  then show "length (w[t mod 16 := W t]) = 16" by simp
  fix i assume i: "i < Suc t" "i < U" "Suc t \<le> i + 16"
  show "w[t mod 16 := W t] ! (i mod 16) = W i"
  proof (cases "i = t")
    case False
    then have "i mod 16 \<noteq> t mod 16" using i mod16_inj [of i t] by linarith
    with i False w show ?thesis by (simp add: holds_words_def)
  qed (simp add: len)
qed

lemma holds_words_skip: "holds_words U W t w \<Longrightarrow> U \<le> t \<Longrightarrow> holds_words U W (Suc t) w"
  by (simp add: holds_words_def less_Suc_eq)

lemma holds_words_nth: "holds_words U W t w \<Longrightarrow> i < t \<Longrightarrow> i < U \<Longrightarrow> t \<le> i + 16 \<Longrightarrow> w ! (i mod 16) = W i"
  by (simp add: holds_words_def)

text \<open>A table of lines run over the registers and the ring gives the registers of the rounds with the words of the schedule.\<close>

lemma schedule_run:
  assumes line: "\<And>t r w. t < n \<Longrightarrow> holds_words U W t w \<Longrightarrow>
      \<exists>w'. run (ls ! t) (r, w) = (code (rotated N t) (K t, W t) r, w') \<and> holds_words U W (Suc t) w'"
    and n: "n \<le> length ls" and w: "length w = 16"
  shows "\<exists>w'. fold run (take n ls) (r, w) = (fold (\<lambda>t. code (rotated N t) (K t, W t)) [0..<n] r, w') \<and> holds_words U W n w'"
  using line n
proof (induction n)
  case 0
  then show ?case using w by (simp add: holds_words_init)
next
  case (Suc n)
  have "\<exists>w'. fold run (take n ls) (r, w) = (fold (\<lambda>t. code (rotated N t) (K t, W t)) [0..<n] r, w') \<and> holds_words U W n w'"
    by (rule Suc.IH) (use Suc.prems in simp_all)
  then obtain w' where
    "fold run (take n ls) (r, w) = (fold (\<lambda>t. code (rotated N t) (K t, W t)) [0..<n] r, w')" "holds_words U W n w'"
    by blast
  moreover have "take (Suc n) ls = take n ls @ [ls ! n]" using Suc.prems(2) by (simp add: take_Suc_conv_app_nth)
  ultimately show ?case using Suc.prems(1) [of n w'] by auto
qed

end
