(* ===== verification/SHA2_Correct.thy ===== *)
theory SHA2_Correct
  imports SHA2_Constants Hash_Rounds
begin

text \<open>
  The unrolled transforms equal the compression function of the standard, and a hasher returns the hash of what was
  written to it, however it was cut into writes.
\<close>

section \<open>The round functions\<close>

lemma Ch_eq: "Ch x y z = fips_Ch x y z"
  by (rule bit_word_eqI) (auto simp: Ch_def fips_Ch_def bit_simps)

lemma Maj_eq: "Maj x y z = fips_Maj x y z"
  by (rule bit_word_eqI) (auto simp: Maj_def fips_Maj_def bit_simps)

lemma rotr_eq:
  fixes x :: "'a::len word"
  assumes "0 < n" and "n < LENGTH('a)"
  shows "drop_bit n x OR push_bit (LENGTH('a) - n) x = word_rotr n x"
proof (rule bit_word_eqI)
  fix i assume i: "i < LENGTH('a)"
  show "bit (drop_bit n x OR push_bit (LENGTH('a) - n) x) i = bit (word_rotr n x) i"
  proof (cases "i + n < LENGTH('a)")
    case True
    with assms i show ?thesis by (auto simp: bit_simps bit_word_rotr_iff add.commute [of n i])
  next
    case False
    then have "(n + i) mod LENGTH('a) = n + i - LENGTH('a)" using assms i by (simp add: le_mod_geq)
    with False assms i show ?thesis
      by (auto simp: bit_simps bit_word_rotr_iff add.commute dest: bit_imp_le_length intro: arg_cong)
  qed
qed

lemmas rotr_eq32 = rotr_eq [where 'a = 32, simplified] and rotr_eq64 = rotr_eq [where 'a = 64, simplified]

lemma sha256_functions:
  "sha256_Sigma0 = fips_Sigma 2 13 22" "sha256_Sigma1 = fips_Sigma 6 11 25"
  "sha256_sigma0 = fips_sigma 7 18 3" "sha256_sigma1 = fips_sigma 17 19 10"
  using rotr_eq32 [of 2] rotr_eq32 [of 13] rotr_eq32 [of 22] rotr_eq32 [of 6] rotr_eq32 [of 11] rotr_eq32 [of 25]
    rotr_eq32 [of 7] rotr_eq32 [of 18] rotr_eq32 [of 17] rotr_eq32 [of 19]
  by (auto simp: fun_eq_iff sha256_Sigma0_def sha256_Sigma1_def sha256_sigma0_def sha256_sigma1_def fips_Sigma_def fips_sigma_def)

lemma sha512_functions:
  "sha512_Sigma0 = fips_Sigma 28 34 39" "sha512_Sigma1 = fips_Sigma 14 18 41"
  "sha512_sigma0 = fips_sigma 1 8 7" "sha512_sigma1 = fips_sigma 19 61 6"
  using rotr_eq64 [of 28] rotr_eq64 [of 34] rotr_eq64 [of 39] rotr_eq64 [of 14] rotr_eq64 [of 18] rotr_eq64 [of 41]
    rotr_eq64 [of 1] rotr_eq64 [of 8] rotr_eq64 [of 19] rotr_eq64 [of 61]
  by (auto simp: fun_eq_iff sha512_Sigma0_def sha512_Sigma1_def sha512_sigma0_def sha512_sigma1_def fips_Sigma_def fips_sigma_def)

section \<open>The shape of the tables\<close>

text \<open>Line \<open>t\<close> mixes the words 2, 7, 15 and 16 lines back.\<close>

definition line_source :: "nat \<Rightarrow> nat \<Rightarrow> nat \<Rightarrow> w_source" where
  "line_source R n t =
    (if t < 16 then Load t (n * t)
     else if t < R - 2 then Mix (t mod 16) ((t - 2) mod 16) ((t - 7) mod 16) ((t - 15) mod 16)
     else MixLast (t mod 16) ((t - 2) mod 16) ((t - 7) mod 16) ((t - 15) mod 16))"

definition lines :: "nat \<Rightarrow> 'a::len word list \<Rightarrow> 'a sha2_line list" where
  "lines n K = map (\<lambda>t. (rotated 8 t, K ! t, line_source (length K) n t)) [0..<length K]"

lemma sha256_rounds_lines: "sha256_rounds = lines 4 fips_K256"
  unfolding sha256_K lines_def sha256_rounds_def rotated_def line_source_def by (simp add: upt_rec)

lemma sha512_rounds_lines: "sha512_rounds = lines 8 fips_K512"
  unfolding sha512_K lines_def sha512_rounds_def rotated_def line_source_def by (simp add: upt_rec)

section \<open>The rounds\<close>

lemma length8: "length xs = 8 \<Longrightarrow> \<exists>a b c d e f g h. xs = [a, b, c, d, e, f, g, h]"
  by (auto simp: length_Suc_conv numeral_eq_Suc)

lemma length_fips_step: "length (fips_step S0 S1 k w r) = length r"
  by (induction S0 S1 k w r rule: fips_step.induct) (simp_all add: Let_def)

lemma length_fips_compress: "length (fips_compress S0 S1 s0 s1 K M H) = length H"
proof -
  have "length (fold (\<lambda>t. fips_step S0 S1 (K ! t) (fips_W s0 s1 M t)) ts r) = length r" for ts r
    by (induction ts arbitrary: r) (auto simp: length_fips_step)
  then show ?thesis by (simp add: fips_compress_def)
qed

lemma sha2_Round_step:
  assumes r: "length r = 8" and p: "length p = 8" "distinct p" "set p = {0..<8}"
  shows "map ((!) (sha2_Round S0 S1 p k w r)) (rotate 7 p) = fips_step S0 S1 k w (map ((!) r) p)"
proof -
  obtain a b c d e f g h where pe: "p = [a, b, c, d, e, f, g, h]" using length8 [OF p(1)] by blast
  have lt: "a < 8" "b < 8" "c < 8" "d < 8" "e < 8" "f < 8" "g < 8" "h < 8" using p(3) unfolding pe by auto
  have ne: "a \<noteq> d" "b \<noteq> d" "c \<noteq> d" "e \<noteq> d" "f \<noteq> d" "g \<noteq> d" "h \<noteq> d"
    "a \<noteq> h" "b \<noteq> h" "c \<noteq> h" "d \<noteq> h" "e \<noteq> h" "f \<noteq> h" "g \<noteq> h"
    using p(2) unfolding pe by auto
  have rot: "rotate 7 p = [h, a, b, c, d, e, f, g]" by (simp add: pe rotate_def numeral_eq_Suc)
  show ?thesis unfolding rot unfolding pe by (simp add: sha2_Round_def Let_def Ch_eq Maj_eq ne ne [symmetric] lt r)
qed

interpretation sha2: register_rounds 8 "\<lambda>p (k, w). sha2_Round S0 S1 p k w" "\<lambda>(k, w). fips_step S0 S1 k w"
  for S0 S1 :: "'a::len word \<Rightarrow> 'a word"
  by unfold_locales (auto simp: sha2_Round_step, simp add: sha2_Round_def Let_def)

lemma sha2_w_step:
  assumes w: "holds_words (R - 2) W t w" and t: "t < R" and W: "W = fips_W s0 s1 (\<lambda>i. rd (n * i))"
  shows "\<exists>w'. sha2_w s0 s1 rd (line_source R n t) w = (W t, w') \<and> holds_words (R - 2) W (Suc t) w'"
proof (cases "t < 16")
  case True
  with holds_words_store [OF w] show ?thesis by (simp add: line_source_def W fips_W.simps)
next
  case False
  have m: "t mod 16 = (t - 16) mod 16" using False by (simp add: le_mod_geq)
  have words: "w ! (t mod 16) = W (t - 16)" "w ! ((t - 2) mod 16) = W (t - 2)" "w ! ((t - 7) mod 16) = W (t - 7)"
    "w ! ((t - 15) mod 16) = W (t - 15)"
    using False t unfolding m by (auto intro!: holds_words_nth [OF w])
  have Wt: "W t = s1 (W (t - 2)) + W (t - 7) + s0 (W (t - 15)) + W (t - 16)"
    unfolding W using False by (subst fips_W.simps) simp
  show ?thesis
  proof (cases "t < R - 2")
    case True
    with False have "sha2_w s0 s1 rd (line_source R n t) w = (W t, w[t mod 16 := W t])"
      by (simp add: line_source_def words Wt Let_def ac_simps)
    with holds_words_store [OF w] show ?thesis by blast
  next
    case last: False
    with False have "sha2_w s0 s1 rd (line_source R n t) w = (W t, w)" by (simp add: line_source_def words Wt ac_simps)
    with holds_words_skip [OF w] last show ?thesis by simp
  qed
qed

lemma lines_compress:
  fixes K :: "'a::len word list"
  assumes "length H = 8" and "8 dvd length K"
  shows "(case fold (sha2_line S0 S1 s0 s1 rd) (lines n K) (H, replicate 16 0) of (r, w) \<Rightarrow> map2 (+) H r) =
    fips_compress S0 S1 s0 s1 K (\<lambda>i. rd (n * i)) H"
proof -
  define W where "W = fips_W s0 s1 (\<lambda>i. rd (n * i))"
  have "\<exists>w'. fold (sha2_line S0 S1 s0 s1 rd) (take (length K) (lines n K)) (H, replicate 16 0) =
      (fold (\<lambda>t. (\<lambda>p (k, w). sha2_Round S0 S1 p k w) (rotated 8 t) (K ! t, W t)) [0..<length K] H, w') \<and>
      holds_words (length K - 2) W (length K) w'"
  proof (rule schedule_run)
    fix t r and w :: "'a word list" assume t: "t < length K" and w: "holds_words (length K - 2) W t w"
    from sha2_w_step [OF w t W_def] show
      "\<exists>w'. sha2_line S0 S1 s0 s1 rd (lines n K ! t) (r, w) =
        ((\<lambda>p (k, w). sha2_Round S0 S1 p k w) (rotated 8 t) (K ! t, W t) r, w') \<and> holds_words (length K - 2) W (Suc t) w'"
      using t by (auto simp: lines_def sha2_line_def)
  qed (simp_all add: lines_def)
  then obtain w' where "fold (sha2_line S0 S1 s0 s1 rd) (lines n K) (H, replicate 16 0) =
      (fold (\<lambda>t. fips_step S0 S1 (K ! t) (W t)) [0..<length K] H, w')"
    using sha2.rounds_full [OF assms, of S0 S1 "\<lambda>t. (K ! t, W t)"] by (auto simp: lines_def)
  then show ?thesis by (simp add: fips_compress_def W_def)
qed

section \<open>The hash of a message\<close>

text \<open>The message of the standard is padded with a one bit and zeros to leave room for its length in bits.\<close>

definition fips_pad :: "nat \<Rightarrow> byte list \<Rightarrow> byte list \<Rightarrow> byte list" where
  "fips_pad B len_bytes m =
    m @ 0x80 # replicate (nat ((int B - 1 - int (length len_bytes) - int (length m)) mod int B)) 0 @ len_bytes"

definition sha256 :: "byte list \<Rightarrow> byte list" where
  "sha256 m = concat (map WriteBE32
    (absorb 64 (\<lambda>H b. fips_compress (fips_Sigma 2 13 22) (fips_Sigma 6 11 25) (fips_sigma 7 18 3) (fips_sigma 17 19 10) fips_K256
       (\<lambda>i. ReadBE32 (drop (4 * i) b)) H) sha256_Initialize (fips_pad 64 (WriteBE64 (word_of_nat (8 * length m))) m)))"

definition sha512 :: "byte list \<Rightarrow> byte list" where
  "sha512 m = concat (map WriteBE64
    (absorb 128 (\<lambda>H b. fips_compress (fips_Sigma 28 34 39) (fips_Sigma 14 18 41) (fips_sigma 1 8 7) (fips_sigma 19 61 6) fips_K512
       (\<lambda>i. ReadBE64 (drop (8 * i) b)) H) sha512_Initialize
      (fips_pad 128 (replicate 8 0 @ WriteBE64 (word_of_nat (8 * length m))) m)))"

lemma absorb_cong:
  assumes "\<And>s b. P s \<Longrightarrow> tr s b = tr' s b \<and> P (tr s b)" and "P s"
  shows "absorb B tr s m = absorb B tr' s m"
  using assms
proof (induction B tr s m rule: absorb.induct)
  case (1 B tr s m)
  have tr: "tr s (take B m) = tr' s (take B m)" "P (tr' s (take B m))" using "1.prems"(1) [OF "1.prems"(2), of "take B m"] by auto
  from "1.IH" [OF _ "1.prems"(1)] show ?case by (subst (1 2) absorb.simps) (simp add: tr)
qed

lemma sha256_Transform_eq:
  assumes "length s = 8"
  shows "sha256_Transform s b = fips_compress (fips_Sigma 2 13 22) (fips_Sigma 6 11 25) (fips_sigma 7 18 3) (fips_sigma 17 19 10)
    fips_K256 (\<lambda>i. ReadBE32 (drop (4 * i) b)) s \<and> length (sha256_Transform s b) = 8"
proof -
  have K: "length fips_K256 = 64" by (simp add: sha256_K sha256_rounds_def)
  have "sha256_Transform s b = fips_compress sha256_Sigma0 sha256_Sigma1 sha256_sigma0 sha256_sigma1 fips_K256
      (\<lambda>i. ReadBE32 (drop (4 * i) b)) s"
    unfolding sha256_Transform_def sha256_rounds_lines by (rule lines_compress [OF assms]) (simp_all add: K)
  then show ?thesis using assms by (simp add: sha256_functions length_fips_compress)
qed

lemma sha512_Transform_eq:
  assumes "length s = 8"
  shows "sha512_Transform s b = fips_compress (fips_Sigma 28 34 39) (fips_Sigma 14 18 41) (fips_sigma 1 8 7) (fips_sigma 19 61 6)
    fips_K512 (\<lambda>i. ReadBE64 (drop (8 * i) b)) s \<and> length (sha512_Transform s b) = 8"
proof -
  have K: "length fips_K512 = 80" by (simp add: sha512_K sha512_rounds_def)
  have "sha512_Transform s b = fips_compress sha512_Sigma0 sha512_Sigma1 sha512_sigma0 sha512_sigma1 fips_K512
      (\<lambda>i. ReadBE64 (drop (8 * i) b)) s"
    unfolding sha512_Transform_def sha512_rounds_lines by (rule lines_compress [OF assms]) (simp_all add: K)
  then show ?thesis using assms by (simp add: sha512_functions length_fips_compress)
qed

section \<open>Finalizing\<close>

text \<open>Writing the padding and the length to a hasher that absorbed a message completes the padded message.\<close>

lemma pad_length:
  fixes len B L :: nat
  assumes "L < B"
  shows "(2 * B - 1 - L - len mod B) mod B = nat ((int B - 1 - int L - int len) mod int B)"
proof -
  have "len mod B < B" using assms by simp
  then have "int (2 * B - 1 - L - len mod B) = 2 * int B - 1 - int L - int (len mod B)" using assms by linarith
  also have "int (len mod B) = int len - int B * (int len div int B)" by (simp add: zmod_int minus_mult_div_eq_mod)
  finally have "int (2 * B - 1 - L - len mod B) = (int B - 1 - int L - int len) + int B * (1 + int len div int B)"
    by (simp add: algebra_simps)
  then show ?thesis by (metis mod_mult_self2 nat_int zmod_int)
qed

lemma finalize_absorbed:
  assumes "0 < B" "B dvd 2 ^ 64" "L < B" "length sz = L" and "absorbed B tr s0 m h"
  shows "hash_s (stream_Write B tr sz (stream_Write B tr (0x80 # replicate ((2 * B - 1 - L - unat (hash_bytes h) mod B) mod B) 0) h)) =
    absorb B tr s0 (fips_pad B sz m)"
proof -
  have "unat (hash_bytes h) mod B = length m mod B" using assms(2,5) word_counter_mod by (auto simp: absorbed_def)
  then have pad: "m @ (0x80 # replicate ((2 * B - 1 - L - unat (hash_bytes h) mod B) mod B) 0) @ sz = fips_pad B sz m"
    using pad_length [OF assms(3), of "length m"] by (simp add: fips_pad_def assms(4))
  show ?thesis
    using stream_Write_absorbed [OF assms(1,2) stream_Write_absorbed [OF assms(1,2,5)]] by (simp add: absorbed_def flip: pad)
qed

lemma push_bit3_length: "push_bit 3 (word_of_nat n :: uint64) = word_of_nat (8 * n)"
  by (simp add: push_bit_eq_mult)

lemma CSHA256_Finalize_absorbed:
  assumes h: "absorbed 64 sha256_Transform sha256_Initialize m h"
  shows "CSHA256_Finalize h = Some (sha256 m)"
proof -
  have bytes: "push_bit 3 (hash_bytes h) = word_of_nat (8 * length m)" using h push_bit3_length by (simp add: absorbed_def)
  have "absorb 64 sha256_Transform sha256_Initialize p = absorb 64 (\<lambda>H b. fips_compress (fips_Sigma 2 13 22) (fips_Sigma 6 11 25)
      (fips_sigma 7 18 3) (fips_sigma 17 19 10) fips_K256 (\<lambda>i. ReadBE32 (drop (4 * i) b)) H) sha256_Initialize p" for p
    by (rule absorb_cong [where P = "\<lambda>s. length s = 8"], rule sha256_Transform_eq) (simp_all add: sha256_Initialize_def)
  with finalize_absorbed [OF _ _ _ _ h, of 8 "WriteBE64 (push_bit 3 (hash_bytes h))"] show ?thesis
    by (simp add: CSHA256_Finalize_def CSHA256_finalized_def CSHA256_FinalizeNoPadding_def CSHA256_Write_def Let_def sha256_def bytes WriteBE64_def)
qed

lemma CSHA512_Finalize_absorbed:
  assumes h: "absorbed 128 sha512_Transform sha512_Initialize m h"
  shows "CSHA512_Finalize h = sha512 m"
proof -
  have bytes: "push_bit 3 (hash_bytes h) = word_of_nat (8 * length m)" using h push_bit3_length by (simp add: absorbed_def)
  have "absorb 128 sha512_Transform sha512_Initialize p = absorb 128 (\<lambda>H b. fips_compress (fips_Sigma 28 34 39) (fips_Sigma 14 18 41)
      (fips_sigma 1 8 7) (fips_sigma 19 61 6) fips_K512 (\<lambda>i. ReadBE64 (drop (8 * i) b)) H) sha512_Initialize p" for p
    by (rule absorb_cong [where P = "\<lambda>s. length s = 8"], rule sha512_Transform_eq) (simp_all add: sha512_Initialize_def)
  with finalize_absorbed [OF _ _ _ _ h, of 16 "replicate 8 0 @ WriteBE64 (push_bit 3 (hash_bytes h))"] show ?thesis
    by (simp add: CSHA512_Finalize_def CSHA512_finalized_def CSHA512_Write_def Let_def sha512_def bytes WriteBE64_def)
qed

text \<open>
  C32. A \<^verbatim>\<open>CSHA256\<close> whose buffer starts out with any content returns the SHA-256 of FIPS 180-4 of the bytes written to
  it, however they are cut into calls of \<^verbatim>\<open>Write\<close>: the buffering loses and repeats nothing, the padding is that of
  the standard, and the unrolled rounds with their sixteen word schedule are its compression function.
\<close>

theorem CSHA256_correct:
  assumes "length buf = 64"
  shows "CSHA256_Finalize (fold CSHA256_Write ds (CSHA256_new buf)) = Some (sha256 (concat ds))"
  unfolding CSHA256_Write_def CSHA256_new_def
  using stream_Writes_absorbed [OF _ _ absorbed_init [OF _ assms]] by (intro CSHA256_Finalize_absorbed) fastforce

text \<open>The digest of \<^verbatim>\<open>abc\<close>, in two writes over a buffer that is not cleared.\<close>

theorem CSHA256_correct_witness:
  "length (replicate 64 (0xFF :: byte)) = 64 \<and>
   CSHA256_Finalize (fold CSHA256_Write [[0x61], [0x62, 0x63]] (CSHA256_new (replicate 64 0xFF))) = Some (sha256 [0x61, 0x62, 0x63])"
  using CSHA256_correct [of "replicate 64 0xFF" "[[0x61], [0x62, 0x63]]"] by simp

text \<open>A \<^verbatim>\<open>CSHA512\<close> returns the SHA-512 of the bytes written to it, however they are cut into calls of \<^verbatim>\<open>Write\<close>.\<close>

theorem CSHA512_correct:
  assumes "length buf = 128"
  shows "CSHA512_Finalize (fold CSHA512_Write ds (CSHA512_new buf)) = sha512 (concat ds)"
  unfolding CSHA512_Write_def CSHA512_new_def
  using stream_Writes_absorbed [OF _ _ absorbed_init [OF _ assms]] by (intro CSHA512_Finalize_absorbed) fastforce

theorem CSHA512_correct_witness:
  "length (replicate 128 (0xFF :: byte)) = 128 \<and>
   CSHA512_Finalize (fold CSHA512_Write [[0x61], [0x62, 0x63]] (CSHA512_new (replicate 128 0xFF))) = sha512 [0x61, 0x62, 0x63]"
  using CSHA512_correct [of "replicate 128 0xFF" "[[0x61], [0x62, 0x63]]"] by simp

end
