(* ===== verification/SHA1.thy ===== *)
theory SHA1
  imports SHA2
begin

text \<open>
  \<^verbatim>\<open>src/crypto/sha1.cpp\<close>. The registers \<^verbatim>\<open>a\<close> to \<^verbatim>\<open>e\<close> are a list of five words, and the eighty lines of \<^verbatim>\<open>Transform\<close> a
  table: the registers the line passes in order, its function and constant, and its message word.
\<close>

definition sha1_f1 :: "uint32 \<Rightarrow> uint32 \<Rightarrow> uint32 \<Rightarrow> uint32" where
  "sha1_f1 b c d = d XOR (b AND (c XOR d))"

definition sha1_f2 :: "uint32 \<Rightarrow> uint32 \<Rightarrow> uint32 \<Rightarrow> uint32" where
  "sha1_f2 b c d = b XOR c XOR d"

definition sha1_f3 :: "uint32 \<Rightarrow> uint32 \<Rightarrow> uint32 \<Rightarrow> uint32" where
  "sha1_f3 b c d = (b AND c) OR (d AND (b OR c))"

definition sha1_left :: "uint32 \<Rightarrow> uint32" where
  "sha1_left x = push_bit 1 x OR drop_bit 31 x"

definition sha1_Round :: "nat list \<Rightarrow> (uint32 \<Rightarrow> uint32 \<Rightarrow> uint32 \<Rightarrow> uint32) \<Rightarrow> uint32 \<Rightarrow> uint32 \<Rightarrow> uint32 list \<Rightarrow> uint32 list" where
  "sha1_Round p f k w r =
    (let a = r ! (p ! 0); b = r ! (p ! 1); c = r ! (p ! 2); d = r ! (p ! 3); e = r ! (p ! 4)
     in r[p ! 4 := e + ((push_bit 5 a OR drop_bit 27 a) + f b c d + k + w), p ! 1 := push_bit 30 b OR drop_bit 2 b])"

definition sha1_Initialize :: "uint32 list" where
  "sha1_Initialize = [0x67452301, 0xEFCDAB89, 0x98BADCFE, 0x10325476, 0xC3D2E1F0]"

definition sha1_k1 :: uint32 where "sha1_k1 = 0x5A827999"
definition sha1_k2 :: uint32 where "sha1_k2 = 0x6ED9EBA1"
definition sha1_k3 :: uint32 where "sha1_k3 = 0x8F1BBCDC"
definition sha1_k4 :: uint32 where "sha1_k4 = 0xCA62C1D6"

text \<open>\<open>Mix\<close> assigns the rotated sum of four words to the first; the last three lines do not store it.\<close>

fun sha1_w :: "(nat \<Rightarrow> uint32) \<Rightarrow> w_source \<Rightarrow> uint32 list \<Rightarrow> uint32 \<times> uint32 list" where
  "sha1_w rd (Load i off) w = (rd off, w[i := rd off])"
| "sha1_w rd (Mix i j k l) w = (let x = sha1_left (w ! i XOR w ! j XOR w ! k XOR w ! l) in (x, w[i := x]))"
| "sha1_w rd (MixLast i j k l) w = (sha1_left (w ! i XOR w ! j XOR w ! k XOR w ! l), w)"

type_synonym sha1_entry = "nat list \<times> (uint32 \<Rightarrow> uint32 \<Rightarrow> uint32 \<Rightarrow> uint32) \<times> uint32 \<times> w_source"

definition sha1_line :: "(nat \<Rightarrow> uint32) \<Rightarrow> sha1_entry \<Rightarrow> uint32 list \<times> uint32 list \<Rightarrow> uint32 list \<times> uint32 list" where
  "sha1_line rd line st =
    (case (line, st) of
       ((p, f, k, src), (r, w)) \<Rightarrow> (case sha1_w rd src w of (x, w') \<Rightarrow> (sha1_Round p f k x r, w')))"

definition sha1_rounds :: "sha1_entry list" where
  "sha1_rounds =
    [([0, 1, 2, 3, 4], sha1_f1, sha1_k1, Load 0 0),
     ([4, 0, 1, 2, 3], sha1_f1, sha1_k1, Load 1 4),
     ([3, 4, 0, 1, 2], sha1_f1, sha1_k1, Load 2 8),
     ([2, 3, 4, 0, 1], sha1_f1, sha1_k1, Load 3 12),
     ([1, 2, 3, 4, 0], sha1_f1, sha1_k1, Load 4 16),
     ([0, 1, 2, 3, 4], sha1_f1, sha1_k1, Load 5 20),
     ([4, 0, 1, 2, 3], sha1_f1, sha1_k1, Load 6 24),
     ([3, 4, 0, 1, 2], sha1_f1, sha1_k1, Load 7 28),
     ([2, 3, 4, 0, 1], sha1_f1, sha1_k1, Load 8 32),
     ([1, 2, 3, 4, 0], sha1_f1, sha1_k1, Load 9 36),
     ([0, 1, 2, 3, 4], sha1_f1, sha1_k1, Load 10 40),
     ([4, 0, 1, 2, 3], sha1_f1, sha1_k1, Load 11 44),
     ([3, 4, 0, 1, 2], sha1_f1, sha1_k1, Load 12 48),
     ([2, 3, 4, 0, 1], sha1_f1, sha1_k1, Load 13 52),
     ([1, 2, 3, 4, 0], sha1_f1, sha1_k1, Load 14 56),
     ([0, 1, 2, 3, 4], sha1_f1, sha1_k1, Load 15 60),
     ([4, 0, 1, 2, 3], sha1_f1, sha1_k1, Mix 0 13 8 2),
     ([3, 4, 0, 1, 2], sha1_f1, sha1_k1, Mix 1 14 9 3),
     ([2, 3, 4, 0, 1], sha1_f1, sha1_k1, Mix 2 15 10 4),
     ([1, 2, 3, 4, 0], sha1_f1, sha1_k1, Mix 3 0 11 5),
     ([0, 1, 2, 3, 4], sha1_f2, sha1_k2, Mix 4 1 12 6),
     ([4, 0, 1, 2, 3], sha1_f2, sha1_k2, Mix 5 2 13 7),
     ([3, 4, 0, 1, 2], sha1_f2, sha1_k2, Mix 6 3 14 8),
     ([2, 3, 4, 0, 1], sha1_f2, sha1_k2, Mix 7 4 15 9),
     ([1, 2, 3, 4, 0], sha1_f2, sha1_k2, Mix 8 5 0 10),
     ([0, 1, 2, 3, 4], sha1_f2, sha1_k2, Mix 9 6 1 11),
     ([4, 0, 1, 2, 3], sha1_f2, sha1_k2, Mix 10 7 2 12),
     ([3, 4, 0, 1, 2], sha1_f2, sha1_k2, Mix 11 8 3 13),
     ([2, 3, 4, 0, 1], sha1_f2, sha1_k2, Mix 12 9 4 14),
     ([1, 2, 3, 4, 0], sha1_f2, sha1_k2, Mix 13 10 5 15),
     ([0, 1, 2, 3, 4], sha1_f2, sha1_k2, Mix 14 11 6 0),
     ([4, 0, 1, 2, 3], sha1_f2, sha1_k2, Mix 15 12 7 1),
     ([3, 4, 0, 1, 2], sha1_f2, sha1_k2, Mix 0 13 8 2),
     ([2, 3, 4, 0, 1], sha1_f2, sha1_k2, Mix 1 14 9 3),
     ([1, 2, 3, 4, 0], sha1_f2, sha1_k2, Mix 2 15 10 4),
     ([0, 1, 2, 3, 4], sha1_f2, sha1_k2, Mix 3 0 11 5),
     ([4, 0, 1, 2, 3], sha1_f2, sha1_k2, Mix 4 1 12 6),
     ([3, 4, 0, 1, 2], sha1_f2, sha1_k2, Mix 5 2 13 7),
     ([2, 3, 4, 0, 1], sha1_f2, sha1_k2, Mix 6 3 14 8),
     ([1, 2, 3, 4, 0], sha1_f2, sha1_k2, Mix 7 4 15 9),
     ([0, 1, 2, 3, 4], sha1_f3, sha1_k3, Mix 8 5 0 10),
     ([4, 0, 1, 2, 3], sha1_f3, sha1_k3, Mix 9 6 1 11),
     ([3, 4, 0, 1, 2], sha1_f3, sha1_k3, Mix 10 7 2 12),
     ([2, 3, 4, 0, 1], sha1_f3, sha1_k3, Mix 11 8 3 13),
     ([1, 2, 3, 4, 0], sha1_f3, sha1_k3, Mix 12 9 4 14),
     ([0, 1, 2, 3, 4], sha1_f3, sha1_k3, Mix 13 10 5 15),
     ([4, 0, 1, 2, 3], sha1_f3, sha1_k3, Mix 14 11 6 0),
     ([3, 4, 0, 1, 2], sha1_f3, sha1_k3, Mix 15 12 7 1),
     ([2, 3, 4, 0, 1], sha1_f3, sha1_k3, Mix 0 13 8 2),
     ([1, 2, 3, 4, 0], sha1_f3, sha1_k3, Mix 1 14 9 3),
     ([0, 1, 2, 3, 4], sha1_f3, sha1_k3, Mix 2 15 10 4),
     ([4, 0, 1, 2, 3], sha1_f3, sha1_k3, Mix 3 0 11 5),
     ([3, 4, 0, 1, 2], sha1_f3, sha1_k3, Mix 4 1 12 6),
     ([2, 3, 4, 0, 1], sha1_f3, sha1_k3, Mix 5 2 13 7),
     ([1, 2, 3, 4, 0], sha1_f3, sha1_k3, Mix 6 3 14 8),
     ([0, 1, 2, 3, 4], sha1_f3, sha1_k3, Mix 7 4 15 9),
     ([4, 0, 1, 2, 3], sha1_f3, sha1_k3, Mix 8 5 0 10),
     ([3, 4, 0, 1, 2], sha1_f3, sha1_k3, Mix 9 6 1 11),
     ([2, 3, 4, 0, 1], sha1_f3, sha1_k3, Mix 10 7 2 12),
     ([1, 2, 3, 4, 0], sha1_f3, sha1_k3, Mix 11 8 3 13),
     ([0, 1, 2, 3, 4], sha1_f2, sha1_k4, Mix 12 9 4 14),
     ([4, 0, 1, 2, 3], sha1_f2, sha1_k4, Mix 13 10 5 15),
     ([3, 4, 0, 1, 2], sha1_f2, sha1_k4, Mix 14 11 6 0),
     ([2, 3, 4, 0, 1], sha1_f2, sha1_k4, Mix 15 12 7 1),
     ([1, 2, 3, 4, 0], sha1_f2, sha1_k4, Mix 0 13 8 2),
     ([0, 1, 2, 3, 4], sha1_f2, sha1_k4, Mix 1 14 9 3),
     ([4, 0, 1, 2, 3], sha1_f2, sha1_k4, Mix 2 15 10 4),
     ([3, 4, 0, 1, 2], sha1_f2, sha1_k4, Mix 3 0 11 5),
     ([2, 3, 4, 0, 1], sha1_f2, sha1_k4, Mix 4 1 12 6),
     ([1, 2, 3, 4, 0], sha1_f2, sha1_k4, Mix 5 2 13 7),
     ([0, 1, 2, 3, 4], sha1_f2, sha1_k4, Mix 6 3 14 8),
     ([4, 0, 1, 2, 3], sha1_f2, sha1_k4, Mix 7 4 15 9),
     ([3, 4, 0, 1, 2], sha1_f2, sha1_k4, Mix 8 5 0 10),
     ([2, 3, 4, 0, 1], sha1_f2, sha1_k4, Mix 9 6 1 11),
     ([1, 2, 3, 4, 0], sha1_f2, sha1_k4, Mix 10 7 2 12),
     ([0, 1, 2, 3, 4], sha1_f2, sha1_k4, Mix 11 8 3 13),
     ([4, 0, 1, 2, 3], sha1_f2, sha1_k4, Mix 12 9 4 14),
     ([3, 4, 0, 1, 2], sha1_f2, sha1_k4, MixLast 13 10 5 15),
     ([2, 3, 4, 0, 1], sha1_f2, sha1_k4, MixLast 14 11 6 0),
     ([1, 2, 3, 4, 0], sha1_f2, sha1_k4, MixLast 15 12 7 1)]"

definition sha1_Transform :: "uint32 list \<Rightarrow> byte list \<Rightarrow> uint32 list" where
  "sha1_Transform s chunk =
    (case fold (sha1_line (\<lambda>off. ReadBE32 (drop off chunk))) sha1_rounds (s, replicate 16 0) of
       (r, w) \<Rightarrow> map2 (+) s r)"

definition CSHA1_new :: "byte list \<Rightarrow> uint32 list hasher" where
  "CSHA1_new buf = \<lparr>hash_s = sha1_Initialize, hash_buf = buf, hash_bytes = 0\<rparr>"

definition CSHA1_Write :: "byte list \<Rightarrow> uint32 list hasher \<Rightarrow> uint32 list hasher" where
  "CSHA1_Write = stream_Write 64 sha1_Transform"

definition CSHA1_Finalize :: "uint32 list hasher \<Rightarrow> byte list" where
  "CSHA1_Finalize h =
    (let sizedesc = WriteBE64 (push_bit 3 (hash_bytes h));
         pad = 0x80 # replicate ((119 - unat (hash_bytes h) mod 64) mod 64) 0
     in concat (map WriteBE32 (hash_s (CSHA1_Write sizedesc (CSHA1_Write pad h)))))"

definition CSHA1_Reset :: "uint32 list hasher \<Rightarrow> uint32 list hasher" where
  "CSHA1_Reset h = h\<lparr>hash_bytes := 0, hash_s := sha1_Initialize\<rparr>"

end
