(* ===== verification/RIPEMD160.thy ===== *)
theory RIPEMD160
  imports Hash_Stream Crypto_Common
begin

text \<open>
  \<^verbatim>\<open>src/crypto/ripemd160.cpp\<close>. The two lines of registers \<^verbatim>\<open>a1\<close> to \<^verbatim>\<open>e1\<close> and \<^verbatim>\<open>a2\<close> to \<^verbatim>\<open>e2\<close> are lists of five words,
  and the 160 lines of \<^verbatim>\<open>Transform\<close> a table: the round function, the registers it is passed in order (\<open>Inl\<close> those
  of the first line, \<open>Inr\<close> those of the second), the message word and the rotation.
\<close>

definition rmd_f1 :: "uint32 \<Rightarrow> uint32 \<Rightarrow> uint32 \<Rightarrow> uint32" where
  "rmd_f1 x y z = x XOR y XOR z"

definition rmd_f2 :: "uint32 \<Rightarrow> uint32 \<Rightarrow> uint32 \<Rightarrow> uint32" where
  "rmd_f2 x y z = (x AND y) OR (NOT x AND z)"

definition rmd_f3 :: "uint32 \<Rightarrow> uint32 \<Rightarrow> uint32 \<Rightarrow> uint32" where
  "rmd_f3 x y z = (x OR NOT y) XOR z"

definition rmd_f4 :: "uint32 \<Rightarrow> uint32 \<Rightarrow> uint32 \<Rightarrow> uint32" where
  "rmd_f4 x y z = (x AND z) OR (y AND NOT z)"

definition rmd_f5 :: "uint32 \<Rightarrow> uint32 \<Rightarrow> uint32 \<Rightarrow> uint32" where
  "rmd_f5 x y z = x XOR (y OR NOT z)"

definition rmd_Initialize :: "uint32 list" where
  "rmd_Initialize = [0x67452301, 0xEFCDAB89, 0x98BADCFE, 0x10325476, 0xC3D2E1F0]"

definition rol :: "uint32 \<Rightarrow> nat \<Rightarrow> uint32" where
  "rol x i = push_bit i x OR drop_bit (32 - i) x"

definition rmd_Round :: "nat list \<Rightarrow> (uint32 \<Rightarrow> uint32 \<Rightarrow> uint32 \<Rightarrow> uint32) \<Rightarrow> uint32 \<Rightarrow> uint32 \<Rightarrow> nat \<Rightarrow> uint32 list \<Rightarrow> uint32 list" where
  "rmd_Round p f x k rot r =
    (let a = r ! (p ! 0); b = r ! (p ! 1); c = r ! (p ! 2); d = r ! (p ! 3); e = r ! (p ! 4)
     in r[p ! 0 := rol (a + f b c d + x + k) rot + e, p ! 2 := rol c 10])"

datatype rmd_fn = R11 | R21 | R31 | R41 | R51 | R12 | R22 | R32 | R42 | R52

fun rmd_fk :: "rmd_fn \<Rightarrow> (uint32 \<Rightarrow> uint32 \<Rightarrow> uint32 \<Rightarrow> uint32) \<times> uint32" where
  "rmd_fk R11 = (rmd_f1, 0)"
| "rmd_fk R21 = (rmd_f2, 0x5A827999)"
| "rmd_fk R31 = (rmd_f3, 0x6ED9EBA1)"
| "rmd_fk R41 = (rmd_f4, 0x8F1BBCDC)"
| "rmd_fk R51 = (rmd_f5, 0xA953FD4E)"
| "rmd_fk R12 = (rmd_f5, 0x50A28BE6)"
| "rmd_fk R22 = (rmd_f4, 0x5C4DD124)"
| "rmd_fk R32 = (rmd_f3, 0x6D703EF3)"
| "rmd_fk R42 = (rmd_f2, 0x7A6D76E9)"
| "rmd_fk R52 = (rmd_f1, 0)"

definition rmd_R :: "rmd_fn \<Rightarrow> nat list \<Rightarrow> uint32 \<Rightarrow> nat \<Rightarrow> uint32 list \<Rightarrow> uint32 list" where
  "rmd_R R p x rot r = (case rmd_fk R of (f, k) \<Rightarrow> rmd_Round p f x k rot r)"

type_synonym rmd_entry = "rmd_fn \<times> (nat list + nat list) \<times> nat \<times> nat"

definition rmd_line :: "(nat \<Rightarrow> uint32) \<Rightarrow> rmd_entry \<Rightarrow> uint32 list \<times> uint32 list \<Rightarrow> uint32 list \<times> uint32 list" where
  "rmd_line w line st =
    (case (line, st) of
       ((R, Inl p, i, rot), (r1, r2)) \<Rightarrow> (rmd_R R p (w i) rot r1, r2)
     | ((R, Inr p, i, rot), (r1, r2)) \<Rightarrow> (r1, rmd_R R p (w i) rot r2))"

definition rmd_rounds :: "rmd_entry list" where
  "rmd_rounds =
    [(R11, Inl [0, 1, 2, 3, 4], 0, 11),
     (R12, Inr [0, 1, 2, 3, 4], 5, 8),
     (R11, Inl [4, 0, 1, 2, 3], 1, 14),
     (R12, Inr [4, 0, 1, 2, 3], 14, 9),
     (R11, Inl [3, 4, 0, 1, 2], 2, 15),
     (R12, Inr [3, 4, 0, 1, 2], 7, 9),
     (R11, Inl [2, 3, 4, 0, 1], 3, 12),
     (R12, Inr [2, 3, 4, 0, 1], 0, 11),
     (R11, Inl [1, 2, 3, 4, 0], 4, 5),
     (R12, Inr [1, 2, 3, 4, 0], 9, 13),
     (R11, Inl [0, 1, 2, 3, 4], 5, 8),
     (R12, Inr [0, 1, 2, 3, 4], 2, 15),
     (R11, Inl [4, 0, 1, 2, 3], 6, 7),
     (R12, Inr [4, 0, 1, 2, 3], 11, 15),
     (R11, Inl [3, 4, 0, 1, 2], 7, 9),
     (R12, Inr [3, 4, 0, 1, 2], 4, 5),
     (R11, Inl [2, 3, 4, 0, 1], 8, 11),
     (R12, Inr [2, 3, 4, 0, 1], 13, 7),
     (R11, Inl [1, 2, 3, 4, 0], 9, 13),
     (R12, Inr [1, 2, 3, 4, 0], 6, 7),
     (R11, Inl [0, 1, 2, 3, 4], 10, 14),
     (R12, Inr [0, 1, 2, 3, 4], 15, 8),
     (R11, Inl [4, 0, 1, 2, 3], 11, 15),
     (R12, Inr [4, 0, 1, 2, 3], 8, 11),
     (R11, Inl [3, 4, 0, 1, 2], 12, 6),
     (R12, Inr [3, 4, 0, 1, 2], 1, 14),
     (R11, Inl [2, 3, 4, 0, 1], 13, 7),
     (R12, Inr [2, 3, 4, 0, 1], 10, 14),
     (R11, Inl [1, 2, 3, 4, 0], 14, 9),
     (R12, Inr [1, 2, 3, 4, 0], 3, 12),
     (R11, Inl [0, 1, 2, 3, 4], 15, 8),
     (R12, Inr [0, 1, 2, 3, 4], 12, 6),
     (R21, Inl [4, 0, 1, 2, 3], 7, 7),
     (R22, Inr [4, 0, 1, 2, 3], 6, 9),
     (R21, Inl [3, 4, 0, 1, 2], 4, 6),
     (R22, Inr [3, 4, 0, 1, 2], 11, 13),
     (R21, Inl [2, 3, 4, 0, 1], 13, 8),
     (R22, Inr [2, 3, 4, 0, 1], 3, 15),
     (R21, Inl [1, 2, 3, 4, 0], 1, 13),
     (R22, Inr [1, 2, 3, 4, 0], 7, 7),
     (R21, Inl [0, 1, 2, 3, 4], 10, 11),
     (R22, Inr [0, 1, 2, 3, 4], 0, 12),
     (R21, Inl [4, 0, 1, 2, 3], 6, 9),
     (R22, Inr [4, 0, 1, 2, 3], 13, 8),
     (R21, Inl [3, 4, 0, 1, 2], 15, 7),
     (R22, Inr [3, 4, 0, 1, 2], 5, 9),
     (R21, Inl [2, 3, 4, 0, 1], 3, 15),
     (R22, Inr [2, 3, 4, 0, 1], 10, 11),
     (R21, Inl [1, 2, 3, 4, 0], 12, 7),
     (R22, Inr [1, 2, 3, 4, 0], 14, 7),
     (R21, Inl [0, 1, 2, 3, 4], 0, 12),
     (R22, Inr [0, 1, 2, 3, 4], 15, 7),
     (R21, Inl [4, 0, 1, 2, 3], 9, 15),
     (R22, Inr [4, 0, 1, 2, 3], 8, 12),
     (R21, Inl [3, 4, 0, 1, 2], 5, 9),
     (R22, Inr [3, 4, 0, 1, 2], 12, 7),
     (R21, Inl [2, 3, 4, 0, 1], 2, 11),
     (R22, Inr [2, 3, 4, 0, 1], 4, 6),
     (R21, Inl [1, 2, 3, 4, 0], 14, 7),
     (R22, Inr [1, 2, 3, 4, 0], 9, 15),
     (R21, Inl [0, 1, 2, 3, 4], 11, 13),
     (R22, Inr [0, 1, 2, 3, 4], 1, 13),
     (R21, Inl [4, 0, 1, 2, 3], 8, 12),
     (R22, Inr [4, 0, 1, 2, 3], 2, 11),
     (R31, Inl [3, 4, 0, 1, 2], 3, 11),
     (R32, Inr [3, 4, 0, 1, 2], 15, 9),
     (R31, Inl [2, 3, 4, 0, 1], 10, 13),
     (R32, Inr [2, 3, 4, 0, 1], 5, 7),
     (R31, Inl [1, 2, 3, 4, 0], 14, 6),
     (R32, Inr [1, 2, 3, 4, 0], 1, 15),
     (R31, Inl [0, 1, 2, 3, 4], 4, 7),
     (R32, Inr [0, 1, 2, 3, 4], 3, 11),
     (R31, Inl [4, 0, 1, 2, 3], 9, 14),
     (R32, Inr [4, 0, 1, 2, 3], 7, 8),
     (R31, Inl [3, 4, 0, 1, 2], 15, 9),
     (R32, Inr [3, 4, 0, 1, 2], 14, 6),
     (R31, Inl [2, 3, 4, 0, 1], 8, 13),
     (R32, Inr [2, 3, 4, 0, 1], 6, 6),
     (R31, Inl [1, 2, 3, 4, 0], 1, 15),
     (R32, Inr [1, 2, 3, 4, 0], 9, 14),
     (R31, Inl [0, 1, 2, 3, 4], 2, 14),
     (R32, Inr [0, 1, 2, 3, 4], 11, 12),
     (R31, Inl [4, 0, 1, 2, 3], 7, 8),
     (R32, Inr [4, 0, 1, 2, 3], 8, 13),
     (R31, Inl [3, 4, 0, 1, 2], 0, 13),
     (R32, Inr [3, 4, 0, 1, 2], 12, 5),
     (R31, Inl [2, 3, 4, 0, 1], 6, 6),
     (R32, Inr [2, 3, 4, 0, 1], 2, 14),
     (R31, Inl [1, 2, 3, 4, 0], 13, 5),
     (R32, Inr [1, 2, 3, 4, 0], 10, 13),
     (R31, Inl [0, 1, 2, 3, 4], 11, 12),
     (R32, Inr [0, 1, 2, 3, 4], 0, 13),
     (R31, Inl [4, 0, 1, 2, 3], 5, 7),
     (R32, Inr [4, 0, 1, 2, 3], 4, 7),
     (R31, Inl [3, 4, 0, 1, 2], 12, 5),
     (R32, Inr [3, 4, 0, 1, 2], 13, 5),
     (R41, Inl [2, 3, 4, 0, 1], 1, 11),
     (R42, Inr [2, 3, 4, 0, 1], 8, 15),
     (R41, Inl [1, 2, 3, 4, 0], 9, 12),
     (R42, Inr [1, 2, 3, 4, 0], 6, 5),
     (R41, Inl [0, 1, 2, 3, 4], 11, 14),
     (R42, Inr [0, 1, 2, 3, 4], 4, 8),
     (R41, Inl [4, 0, 1, 2, 3], 10, 15),
     (R42, Inr [4, 0, 1, 2, 3], 1, 11),
     (R41, Inl [3, 4, 0, 1, 2], 0, 14),
     (R42, Inr [3, 4, 0, 1, 2], 3, 14),
     (R41, Inl [2, 3, 4, 0, 1], 8, 15),
     (R42, Inr [2, 3, 4, 0, 1], 11, 14),
     (R41, Inl [1, 2, 3, 4, 0], 12, 9),
     (R42, Inr [1, 2, 3, 4, 0], 15, 6),
     (R41, Inl [0, 1, 2, 3, 4], 4, 8),
     (R42, Inr [0, 1, 2, 3, 4], 0, 14),
     (R41, Inl [4, 0, 1, 2, 3], 13, 9),
     (R42, Inr [4, 0, 1, 2, 3], 5, 6),
     (R41, Inl [3, 4, 0, 1, 2], 3, 14),
     (R42, Inr [3, 4, 0, 1, 2], 12, 9),
     (R41, Inl [2, 3, 4, 0, 1], 7, 5),
     (R42, Inr [2, 3, 4, 0, 1], 2, 12),
     (R41, Inl [1, 2, 3, 4, 0], 15, 6),
     (R42, Inr [1, 2, 3, 4, 0], 13, 9),
     (R41, Inl [0, 1, 2, 3, 4], 14, 8),
     (R42, Inr [0, 1, 2, 3, 4], 9, 12),
     (R41, Inl [4, 0, 1, 2, 3], 5, 6),
     (R42, Inr [4, 0, 1, 2, 3], 7, 5),
     (R41, Inl [3, 4, 0, 1, 2], 6, 5),
     (R42, Inr [3, 4, 0, 1, 2], 10, 15),
     (R41, Inl [2, 3, 4, 0, 1], 2, 12),
     (R42, Inr [2, 3, 4, 0, 1], 14, 8),
     (R51, Inl [1, 2, 3, 4, 0], 4, 9),
     (R52, Inr [1, 2, 3, 4, 0], 12, 8),
     (R51, Inl [0, 1, 2, 3, 4], 0, 15),
     (R52, Inr [0, 1, 2, 3, 4], 15, 5),
     (R51, Inl [4, 0, 1, 2, 3], 5, 5),
     (R52, Inr [4, 0, 1, 2, 3], 10, 12),
     (R51, Inl [3, 4, 0, 1, 2], 9, 11),
     (R52, Inr [3, 4, 0, 1, 2], 4, 9),
     (R51, Inl [2, 3, 4, 0, 1], 7, 6),
     (R52, Inr [2, 3, 4, 0, 1], 1, 12),
     (R51, Inl [1, 2, 3, 4, 0], 12, 8),
     (R52, Inr [1, 2, 3, 4, 0], 5, 5),
     (R51, Inl [0, 1, 2, 3, 4], 2, 13),
     (R52, Inr [0, 1, 2, 3, 4], 8, 14),
     (R51, Inl [4, 0, 1, 2, 3], 10, 12),
     (R52, Inr [4, 0, 1, 2, 3], 7, 6),
     (R51, Inl [3, 4, 0, 1, 2], 14, 5),
     (R52, Inr [3, 4, 0, 1, 2], 6, 8),
     (R51, Inl [2, 3, 4, 0, 1], 1, 12),
     (R52, Inr [2, 3, 4, 0, 1], 2, 13),
     (R51, Inl [1, 2, 3, 4, 0], 3, 13),
     (R52, Inr [1, 2, 3, 4, 0], 13, 6),
     (R51, Inl [0, 1, 2, 3, 4], 8, 14),
     (R52, Inr [0, 1, 2, 3, 4], 14, 5),
     (R51, Inl [4, 0, 1, 2, 3], 11, 11),
     (R52, Inr [4, 0, 1, 2, 3], 0, 15),
     (R51, Inl [3, 4, 0, 1, 2], 6, 8),
     (R52, Inr [3, 4, 0, 1, 2], 3, 13),
     (R51, Inl [2, 3, 4, 0, 1], 15, 5),
     (R52, Inr [2, 3, 4, 0, 1], 9, 11),
     (R51, Inl [1, 2, 3, 4, 0], 13, 6),
     (R52, Inr [1, 2, 3, 4, 0], 11, 11)]"

definition rmd_Transform :: "uint32 list \<Rightarrow> byte list \<Rightarrow> uint32 list" where
  "rmd_Transform s chunk =
    (case fold (rmd_line (\<lambda>i. ReadLE32w (drop (4 * i) chunk))) rmd_rounds (s, s) of
       (r1, r2) \<Rightarrow>
         [s ! 1 + r1 ! 2 + r2 ! 3,
          s ! 2 + r1 ! 3 + r2 ! 4,
          s ! 3 + r1 ! 4 + r2 ! 0,
          s ! 4 + r1 ! 0 + r2 ! 1,
          s ! 0 + r1 ! 1 + r2 ! 2])"

definition CRIPEMD160_new :: "byte list \<Rightarrow> uint32 list hasher" where
  "CRIPEMD160_new buf = \<lparr>hash_s = rmd_Initialize, hash_buf = buf, hash_bytes = 0\<rparr>"

definition CRIPEMD160_Write :: "byte list \<Rightarrow> uint32 list hasher \<Rightarrow> uint32 list hasher" where
  "CRIPEMD160_Write = stream_Write 64 rmd_Transform"

definition CRIPEMD160_Finalize :: "uint32 list hasher \<Rightarrow> byte list" where
  "CRIPEMD160_Finalize h =
    (let sizedesc = WriteLE64w (push_bit 3 (hash_bytes h));
         pad = 0x80 # replicate ((119 - unat (hash_bytes h) mod 64) mod 64) 0
     in concat (map WriteLE32w (hash_s (CRIPEMD160_Write sizedesc (CRIPEMD160_Write pad h)))))"

definition CRIPEMD160_Reset :: "uint32 list hasher \<Rightarrow> uint32 list hasher" where
  "CRIPEMD160_Reset h = h\<lparr>hash_bytes := 0, hash_s := rmd_Initialize\<rparr>"

end
