(* ===== verification/SHA1_Correct.thy ===== *)
theory SHA1_Correct
  imports SHA2_Correct SHA1 RIPEMD160
begin

text \<open>
  SHA-1 and RIPEMD-160: the unrolled transforms equal the compression functions of FIPS 180-4 and of the definition of
  RIPEMD-160, and the hashers return the hash of what was written to them.
\<close>

section \<open>Five registers\<close>

lemma length5: "length xs = 5 \<Longrightarrow> \<exists>a b c d e. xs = [a, b, c, d, e]"
  by (auto simp: length_Suc_conv numeral_eq_Suc)

lemma rotl_eq:
  fixes x :: "'a::len word"
  assumes "0 < n" and "0 < m" and "n + m = LENGTH('a)"
  shows "push_bit n x OR drop_bit m x = word_rotl n x"
proof -
  have n: "n < LENGTH('a)" "LENGTH('a) - n = m" "LENGTH('a) - m = n" "m < LENGTH('a)" using assms by linarith+
  have "word_rotl n x = word_rotr m x" by (simp add: word_rotl_eq_word_rotr n)
  then show ?thesis using rotr_eq [OF assms(2) n(4), of x] by (simp add: n or.commute)
qed

section \<open>SHA-1\<close>

fun fips_W1 :: "(nat \<Rightarrow> uint32) \<Rightarrow> nat \<Rightarrow> uint32" where
  "fips_W1 M t = (if t < 16 then M t
     else word_rotl 1 (fips_W1 M (t - 3) XOR fips_W1 M (t - 8) XOR fips_W1 M (t - 14) XOR fips_W1 M (t - 16)))"

declare fips_W1.simps [simp del]

definition fips_f1 :: "nat \<Rightarrow> uint32 \<Rightarrow> uint32 \<Rightarrow> uint32 \<Rightarrow> uint32" where
  "fips_f1 t = (if t < 20 then fips_Ch else if t < 40 then (\<lambda>x y z. x XOR y XOR z)
     else if t < 60 then fips_Maj else (\<lambda>x y z. x XOR y XOR z))"

definition fips_K1 :: "nat \<Rightarrow> uint32" where
  "fips_K1 t = (if t < 20 then 0x5A827999 else if t < 40 then 0x6ED9EBA1 else if t < 60 then 0x8F1BBCDC else 0xCA62C1D6)"

fun fips_step1 :: "(uint32 \<Rightarrow> uint32 \<Rightarrow> uint32 \<Rightarrow> uint32) \<Rightarrow> uint32 \<Rightarrow> uint32 \<Rightarrow> uint32 list \<Rightarrow> uint32 list" where
  "fips_step1 f k w [a, b, c, d, e] = [word_rotl 5 a + f b c d + e + k + w, a, word_rotl 30 b, c, d]"
| "fips_step1 f k w r = r"

definition fips_compress1 :: "(nat \<Rightarrow> uint32) \<Rightarrow> uint32 list \<Rightarrow> uint32 list" where
  "fips_compress1 M H = map2 (+) H (fold (\<lambda>t. fips_step1 (fips_f1 t) (fips_K1 t) (fips_W1 M t)) [0..<80] H)"

definition sha1 :: "byte list \<Rightarrow> byte list" where
  "sha1 m = concat (map WriteBE32 (absorb 64 (\<lambda>H b. fips_compress1 (\<lambda>i. ReadBE32 (drop (4 * i) b)) H)
     [0x67452301, 0xEFCDAB89, 0x98BADCFE, 0x10325476, 0xC3D2E1F0] (fips_pad 64 (WriteBE64 (word_of_nat (8 * length m))) m)))"

lemma sha1_functions: "sha1_f1 = fips_Ch" "sha1_f2 = (\<lambda>x y z. x XOR y XOR z)" "sha1_f3 = fips_Maj"
  using Ch_eq Maj_eq by (auto simp: fun_eq_iff sha1_f1_def sha1_f2_def sha1_f3_def Ch_def Maj_def)

lemma sha1_left_eq: "sha1_left x = word_rotl 1 x"
  using rotl_eq [of 1 31 x] by (simp add: sha1_left_def)

definition sha1_source :: "nat \<Rightarrow> w_source" where
  "sha1_source t =
    (if t < 16 then Load t (4 * t)
     else if t < 77 then Mix (t mod 16) ((t - 3) mod 16) ((t - 8) mod 16) ((t - 14) mod 16)
     else MixLast (t mod 16) ((t - 3) mod 16) ((t - 8) mod 16) ((t - 14) mod 16))"

lemma sha1_rounds_lines: "sha1_rounds = map (\<lambda>t. (rotated 5 t, fips_f1 t, fips_K1 t, sha1_source t)) [0..<80]"
  unfolding sha1_rounds_def rotated_def sha1_source_def fips_f1_def fips_K1_def
    sha1_k1_def sha1_k2_def sha1_k3_def sha1_k4_def sha1_functions
  by (simp add: upt_rec)

lemma sha1_Round_step:
  assumes r: "length r = 5" and p: "length p = 5" "distinct p" "set p = {0..<5}"
  shows "map ((!) (sha1_Round p f k w r)) (rotate 4 p) = fips_step1 f k w (map ((!) r) p)"
proof -
  obtain a b c d e where pe: "p = [a, b, c, d, e]" using length5 [OF p(1)] by blast
  have lt: "a < 5" "b < 5" "c < 5" "d < 5" "e < 5" using p(3) unfolding pe by auto
  have ne: "a \<noteq> b" "c \<noteq> b" "d \<noteq> b" "e \<noteq> b" "a \<noteq> e" "b \<noteq> e" "c \<noteq> e" "d \<noteq> e" using p(2) unfolding pe by auto
  have rot: "rotate 4 p = [e, a, b, c, d]" by (simp add: pe rotate_def numeral_eq_Suc)
  show ?thesis unfolding rot unfolding pe
    using rotl_eq [of 5 27 "r ! a"] rotl_eq [of 30 2 "r ! b"]
    by (simp add: sha1_Round_def Let_def ne ne [symmetric] lt r add_ac)
qed

interpretation sha1: register_rounds 5 "\<lambda>p ((f, k), w). sha1_Round p f k w" "\<lambda>((f, k), w). fips_step1 f k w"
  by unfold_locales (auto simp: sha1_Round_step, simp add: sha1_Round_def Let_def)

lemma sha1_w_step:
  assumes w: "holds_words 77 W t w" and t: "t < 80" and W: "W = fips_W1 (\<lambda>i. rd (4 * i))"
  shows "\<exists>w'. sha1_w rd (sha1_source t) w = (W t, w') \<and> holds_words 77 W (Suc t) w'"
proof (cases "t < 16")
  case True
  with holds_words_store [OF w] show ?thesis by (simp add: sha1_source_def W fips_W1.simps)
next
  case False
  have m: "t mod 16 = (t - 16) mod 16" using False by (simp add: le_mod_geq)
  have words: "w ! (t mod 16) = W (t - 16)" "w ! ((t - 3) mod 16) = W (t - 3)" "w ! ((t - 8) mod 16) = W (t - 8)"
    "w ! ((t - 14) mod 16) = W (t - 14)"
    using False t unfolding m by (auto intro!: holds_words_nth [OF w])
  have Wt: "W t = sha1_left (W (t - 16) XOR W (t - 3) XOR W (t - 8) XOR W (t - 14))"
    unfolding W sha1_left_eq using False by (subst fips_W1.simps) (simp add: xor.left_commute xor.commute)
  show ?thesis
  proof (cases "t < 77")
    case True
    with False have "sha1_w rd (sha1_source t) w = (W t, w[t mod 16 := W t])"
      by (simp add: sha1_source_def words Wt Let_def)
    with holds_words_store [OF w] show ?thesis by blast
  next
    case last: False
    with False have "sha1_w rd (sha1_source t) w = (W t, w)" by (simp add: sha1_source_def words Wt)
    with holds_words_skip [OF w] last show ?thesis by simp
  qed
qed

lemma sha1_Transform_eq:
  assumes "length s = 5"
  shows "sha1_Transform s b = fips_compress1 (\<lambda>i. ReadBE32 (drop (4 * i) b)) s \<and> length (sha1_Transform s b) = 5"
proof -
  let ?rd = "\<lambda>off. ReadBE32 (drop off b)" and ?code = "\<lambda>p ((f, k), w). sha1_Round p f k w"
  define W where "W = fips_W1 (\<lambda>i. ?rd (4 * i))"
  have "\<exists>w'. fold (sha1_line ?rd) (take 80 sha1_rounds) (s, replicate 16 0) =
      (fold (\<lambda>t. ?code (rotated 5 t) ((fips_f1 t, fips_K1 t), W t)) [0..<80] s, w') \<and> holds_words 77 W 80 w'"
  proof (rule schedule_run)
    fix t r and w :: "uint32 list" assume t: "t < 80" and w: "holds_words 77 W t w"
    from sha1_w_step [OF w t W_def] show
      "\<exists>w'. sha1_line ?rd (sha1_rounds ! t) (r, w) = (?code (rotated 5 t) ((fips_f1 t, fips_K1 t), W t) r, w') \<and>
        holds_words 77 W (Suc t) w'"
      using t by (auto simp: sha1_rounds_lines sha1_line_def)
  qed (simp_all add: sha1_rounds_lines)
  then obtain w' where run: "fold (sha1_line ?rd) sha1_rounds (s, replicate 16 0) =
      (fold (\<lambda>t. fips_step1 (fips_f1 t) (fips_K1 t) (W t)) [0..<80] s, w')"
    using sha1.rounds_full [OF assms, of 80 "\<lambda>t. ((fips_f1 t, fips_K1 t), W t)"] by (auto simp: sha1_rounds_lines)
  have "length (fips_step1 f k w r) = length r" for f k w r
    by (induction f k w r rule: fips_step1.induct) simp_all
  then have "length (fold (\<lambda>t. fips_step1 (fips_f1 t) (fips_K1 t) (W t)) ts r) = length r" for ts r
    by (induction ts arbitrary: r) auto
  with run assms show ?thesis by (simp add: sha1_Transform_def fips_compress1_def W_def)
qed

lemma CSHA1_Finalize_absorbed:
  assumes h: "absorbed 64 sha1_Transform sha1_Initialize m h"
  shows "CSHA1_Finalize h = sha1 m"
proof -
  have bytes: "push_bit 3 (hash_bytes h) = word_of_nat (8 * length m)" using h push_bit3_length by (simp add: absorbed_def)
  have "absorb 64 sha1_Transform sha1_Initialize p =
      absorb 64 (\<lambda>H b. fips_compress1 (\<lambda>i. ReadBE32 (drop (4 * i) b)) H) sha1_Initialize p" for p
    by (rule absorb_cong [where P = "\<lambda>s. length s = 5"], rule sha1_Transform_eq) (simp_all add: sha1_Initialize_def)
  with finalize_absorbed [OF _ _ _ _ h, of 8 "WriteBE64 (push_bit 3 (hash_bytes h))"] show ?thesis
    by (simp add: CSHA1_Finalize_def CSHA1_Write_def Let_def sha1_def bytes WriteBE64_def sha1_Initialize_def)
qed

section \<open>RIPEMD-160\<close>

text \<open>
  The definition of RIPEMD-160 gives the order of the message words by two permutations, and the shift of each word in
  each of the five rounds by one table for both lines.
\<close>

definition rmd_rho :: "nat \<Rightarrow> nat" where
  "rmd_rho i = [7, 4, 13, 1, 10, 6, 15, 3, 12, 0, 9, 5, 2, 14, 11, 8] ! i"

definition rmd_pi :: "nat \<Rightarrow> nat" where
  "rmd_pi i = (9 * i + 5) mod 16"

definition rmd_shift :: "nat \<Rightarrow> nat \<Rightarrow> nat" where
  "rmd_shift j i =
    [[11, 14, 15, 12, 5, 8, 7, 9, 11, 13, 14, 15, 6, 7, 9, 8],
     [12, 13, 11, 15, 6, 9, 9, 7, 12, 15, 11, 13, 7, 8, 7, 7],
     [13, 15, 14, 11, 7, 7, 6, 8, 13, 14, 13, 12, 5, 5, 6, 9],
     [14, 11, 12, 14, 8, 6, 5, 5, 15, 12, 15, 14, 9, 9, 8, 6],
     [15, 12, 13, 13, 9, 5, 8, 6, 14, 11, 12, 11, 8, 6, 5, 5]] ! j ! i"

definition rmd_f :: "nat \<Rightarrow> uint32 \<Rightarrow> uint32 \<Rightarrow> uint32 \<Rightarrow> uint32" where
  "rmd_f j x y z =
    [x XOR y XOR z, (x AND y) OR (NOT x AND z), (x OR NOT y) XOR z, (x AND z) OR (y AND NOT z), x XOR (y OR NOT z)] ! j"

definition rmd_K1 :: "nat \<Rightarrow> uint32" where
  "rmd_K1 j = [0x00000000, 0x5A827999, 0x6ED9EBA1, 0x8F1BBCDC, 0xA953FD4E] ! j"

definition rmd_K2 :: "nat \<Rightarrow> uint32" where
  "rmd_K2 j = [0x50A28BE6, 0x5C4DD124, 0x6D703EF3, 0x7A6D76E9, 0x00000000] ! j"

fun rmd_step :: "(uint32 \<Rightarrow> uint32 \<Rightarrow> uint32 \<Rightarrow> uint32) \<Rightarrow> uint32 \<Rightarrow> uint32 \<Rightarrow> nat \<Rightarrow> uint32 list \<Rightarrow> uint32 list" where
  "rmd_step f x k s [a, b, c, d, e] = [e, word_rotl s (a + f b c d + x + k) + e, b, word_rotl 10 c, d]"
| "rmd_step f x k s r = r"

definition rmd_word1 :: "nat \<Rightarrow> nat" where
  "rmd_word1 t = (rmd_rho ^^ (t div 16)) (t mod 16)"

definition rmd_word2 :: "nat \<Rightarrow> nat" where
  "rmd_word2 t = (rmd_rho ^^ (t div 16)) (rmd_pi (t mod 16))"

definition rmd_compress :: "(nat \<Rightarrow> uint32) \<Rightarrow> uint32 list \<Rightarrow> uint32 list" where
  "rmd_compress X h =
    (let l = fold (\<lambda>t. rmd_step (rmd_f (t div 16)) (X (rmd_word1 t)) (rmd_K1 (t div 16)) (rmd_shift (t div 16) (rmd_word1 t))) [0..<80] h;
         l' = fold (\<lambda>t. rmd_step (rmd_f (4 - t div 16)) (X (rmd_word2 t)) (rmd_K2 (t div 16)) (rmd_shift (t div 16) (rmd_word2 t))) [0..<80] h
     in [h ! 1 + l ! 2 + l' ! 3, h ! 2 + l ! 3 + l' ! 4, h ! 3 + l ! 4 + l' ! 0, h ! 4 + l ! 0 + l' ! 1, h ! 0 + l ! 1 + l' ! 2])"

definition ripemd160 :: "byte list \<Rightarrow> byte list" where
  "ripemd160 m = concat (map WriteLE32w (absorb 64 (\<lambda>H b. rmd_compress (\<lambda>i. ReadLE32w (drop (4 * i) b)) H)
     [0x67452301, 0xEFCDAB89, 0x98BADCFE, 0x10325476, 0xC3D2E1F0] (fips_pad 64 (WriteLE64w (word_of_nat (8 * length m))) m)))"

lemma rmd_functions:
  "rmd_f1 = rmd_f 0" "rmd_f2 = rmd_f 1" "rmd_f3 = rmd_f 2" "rmd_f4 = rmd_f 3" "rmd_f5 = rmd_f 4"
  by (simp_all add: fun_eq_iff rmd_f_def rmd_f1_def rmd_f2_def rmd_f3_def rmd_f4_def rmd_f5_def eval_nat_numeral)

text \<open>The table of the code alternates the lines of the two sides.\<close>

definition rmd_R1 :: "nat \<Rightarrow> rmd_fn" where
  "rmd_R1 t = [R11, R21, R31, R41, R51] ! (t div 16)"

definition rmd_R2 :: "nat \<Rightarrow> rmd_fn" where
  "rmd_R2 t = [R12, R22, R32, R42, R52] ! (t div 16)"

definition rmd_pair :: "nat \<Rightarrow> rmd_entry list" where
  "rmd_pair t =
    [(rmd_R1 t, Inl (rotated 5 t), rmd_word1 t, rmd_shift (t div 16) (rmd_word1 t)),
     (rmd_R2 t, Inr (rotated 5 t), rmd_word2 t, rmd_shift (t div 16) (rmd_word2 t))]"

lemma rmd_rounds_lines: "rmd_rounds = concat (map rmd_pair [0..<80])"
  by code_simp

lemma rmd_shift_small: "t < 80 \<Longrightarrow> rmd_shift (t div 16) (rmd_word1 t) < 32 \<and> rmd_shift (t div 16) (rmd_word2 t) < 32"
proof -
  have "list_all (\<lambda>t. rmd_shift (t div 16) (rmd_word1 t) < 32 \<and> rmd_shift (t div 16) (rmd_word2 t) < 32) [0..<80]" by code_simp
  then show "t < 80 \<Longrightarrow> ?thesis" by (simp add: list_all_iff)
qed

lemma rmd_fk_R:
  assumes "t < 80"
  shows "rmd_fk (rmd_R1 t) = (rmd_f (t div 16), rmd_K1 (t div 16))" "rmd_fk (rmd_R2 t) = (rmd_f (4 - t div 16), rmd_K2 (t div 16))"
proof -
  have "t div 16 < 5" using assms by simp
  then consider "t div 16 = 0" | "t div 16 = 1" | "t div 16 = 2" | "t div 16 = 3" | "t div 16 = 4" by linarith
  then show "rmd_fk (rmd_R1 t) = (rmd_f (t div 16), rmd_K1 (t div 16))" "rmd_fk (rmd_R2 t) = (rmd_f (4 - t div 16), rmd_K2 (t div 16))"
    by (cases; simp add: rmd_R1_def rmd_R2_def rmd_K1_def rmd_K2_def rmd_functions)+
qed

lemma rol_eq: "s < 32 \<Longrightarrow> rol x s = word_rotl s x"
proof (cases "s = 0")
  case True
  have "drop_bit 32 x = 0" by (rule bit_word_eqI) (simp add: bit_simps)
  moreover have "word_rotl 0 x = x" by (rule bit_word_eqI) (simp add: bit_word_rotl_iff)
  ultimately show ?thesis using True by (simp add: rol_def)
next
  case False
  assume "s < 32"
  with False rotl_eq [of s "32 - s" x] show ?thesis by (simp add: rol_def)
qed

lemma rmd_Round_step:
  assumes r: "length r = 5" and p: "length p = 5" "distinct p" "set p = {0..<5}" and s: "s < 32"
  shows "map ((!) (rmd_Round p f x k s r)) (rotate 4 p) = rmd_step f x k s (map ((!) r) p)"
proof -
  obtain a b c d e where pe: "p = [a, b, c, d, e]" using length5 [OF p(1)] by blast
  have lt: "a < 5" "b < 5" "c < 5" "d < 5" "e < 5" using p(3) unfolding pe by auto
  have ne: "b \<noteq> a" "c \<noteq> a" "d \<noteq> a" "e \<noteq> a" "a \<noteq> c" "b \<noteq> c" "d \<noteq> c" "e \<noteq> c" using p(2) unfolding pe by auto
  have rot: "rotate 4 p = [e, a, b, c, d]" by (simp add: pe rotate_def numeral_eq_Suc)
  show ?thesis unfolding rot unfolding pe by (simp add: rmd_Round_def Let_def ne ne [symmetric] lt r s rol_eq)
qed

interpretation rmd: register_rounds 5 "\<lambda>p ((f, k), x, s). rmd_Round p f x k (s mod 32)" "\<lambda>((f, k), x, s). rmd_step f x k (s mod 32)"
  by unfold_locales (auto simp: rmd_Round_step, simp add: rmd_Round_def Let_def)

lemma rmd_fold:
  "fold (rmd_line w) (concat (map rmd_pair [0..<n])) (r1, r2) =
    (fold (\<lambda>t. rmd_R (rmd_R1 t) (rotated 5 t) (w (rmd_word1 t)) (rmd_shift (t div 16) (rmd_word1 t))) [0..<n] r1,
     fold (\<lambda>t. rmd_R (rmd_R2 t) (rotated 5 t) (w (rmd_word2 t)) (rmd_shift (t div 16) (rmd_word2 t))) [0..<n] r2)"
  by (induction n) (simp_all add: rmd_pair_def rmd_line_def)

lemma rmd_side:
  assumes "length r = 5" and fk: "\<And>t. t < 80 \<Longrightarrow> rmd_fk (R t) = (f t, k t) \<and> s t < 32"
  shows "fold (\<lambda>t. rmd_R (R t) (rotated 5 t) (x t) (s t)) [0..<80] r = fold (\<lambda>t. rmd_step (f t) (x t) (k t) (s t)) [0..<80] r"
proof -
  have "fold (\<lambda>t. rmd_R (R t) (rotated 5 t) (x t) (s t)) [0..<80] r =
      fold (\<lambda>t. (\<lambda>p ((f, k), x, s). rmd_Round p f x k (s mod 32)) (rotated 5 t) ((f t, k t), x t, s t)) [0..<80] r"
    using fk by (intro fold_cong) (simp_all add: rmd_R_def fun_eq_iff)
  also have "\<dots> = fold (\<lambda>t. (\<lambda>((f, k), x, s). rmd_step f x k (s mod 32)) ((f t, k t), x t, s t)) [0..<80] r"
    by (rule rmd.rounds_full [OF assms(1)]) simp
  also have "\<dots> = fold (\<lambda>t. rmd_step (f t) (x t) (k t) (s t)) [0..<80] r"
    using fk by (intro fold_cong) (simp_all add: fun_eq_iff)
  finally show ?thesis .
qed

lemma rmd_Transform_eq:
  assumes "length s = 5"
  shows "rmd_Transform s b = rmd_compress (\<lambda>i. ReadLE32w (drop (4 * i) b)) s \<and> length (rmd_Transform s b) = 5"
proof -
  note l = rmd_side [OF assms, of rmd_R1 "\<lambda>t. rmd_f (t div 16)" "\<lambda>t. rmd_K1 (t div 16)" "\<lambda>t. rmd_shift (t div 16) (rmd_word1 t)"]
  note r = rmd_side [OF assms, of rmd_R2 "\<lambda>t. rmd_f (4 - t div 16)" "\<lambda>t. rmd_K2 (t div 16)" "\<lambda>t. rmd_shift (t div 16) (rmd_word2 t)"]
  show ?thesis
    by (simp add: rmd_Transform_def rmd_compress_def rmd_rounds_lines rmd_fold Let_def l r rmd_fk_R rmd_shift_small)
qed

lemma CRIPEMD160_Finalize_absorbed:
  assumes h: "absorbed 64 rmd_Transform rmd_Initialize m h"
  shows "CRIPEMD160_Finalize h = ripemd160 m"
proof -
  have bytes: "push_bit 3 (hash_bytes h) = word_of_nat (8 * length m)" using h push_bit3_length by (simp add: absorbed_def)
  have "absorb 64 rmd_Transform rmd_Initialize p =
      absorb 64 (\<lambda>H b. rmd_compress (\<lambda>i. ReadLE32w (drop (4 * i) b)) H) rmd_Initialize p" for p
    by (rule absorb_cong [where P = "\<lambda>s. length s = 5"], rule rmd_Transform_eq) (simp_all add: rmd_Initialize_def)
  with finalize_absorbed [OF _ _ _ _ h, of 8 "WriteLE64w (push_bit 3 (hash_bytes h))"] show ?thesis
    by (simp add: CRIPEMD160_Finalize_def CRIPEMD160_Write_def Let_def ripemd160_def bytes WriteLE64w_def rmd_Initialize_def)
qed

end
