(* ===== verification/Hashers.thy ===== *)
theory Hashers
  imports SHA1_Correct
begin

text \<open>
  The hashers built from the basic ones: \<^verbatim>\<open>CHash256\<close>, \<^verbatim>\<open>CHash512\<close>, \<^verbatim>\<open>CHash160\<close>, the functions \<^verbatim>\<open>Hash\<close> and \<^verbatim>\<open>CHashWriter\<close> of
  \<^verbatim>\<open>src/hash.h\<close>, \<^verbatim>\<open>CHMAC_SHA256\<close>, \<^verbatim>\<open>CHMAC_SHA512\<close> and the generator \<^verbatim>\<open>RFC6979_HMAC_SHA256\<close> of \<^verbatim>\<open>src/crypto\<close>, and
  \<^verbatim>\<open>BIP32Hash\<close> of \<^verbatim>\<open>src/hash.cpp\<close>. A hasher object is created with an uninitialised buffer, which is an argument
  wherever the code creates one.
\<close>

section \<open>What a hasher promises\<close>

text \<open>
  A hasher that holds a message takes more of it, gives its digest, and after \<^verbatim>\<open>Finalize\<close> and \<^verbatim>\<open>Reset\<close> holds the empty
  message again.
\<close>

locale message_hasher =
  fixes holds :: "byte list \<Rightarrow> 'h \<Rightarrow> bool" and wr :: "byte list \<Rightarrow> 'h \<Rightarrow> 'h"
    and finalize :: "'h \<Rightarrow> byte list" and digest :: "byte list \<Rightarrow> byte list"
  assumes holds_write: "holds m h \<Longrightarrow> holds (m @ d) (wr d h)"
    and holds_finalize: "holds m h \<Longrightarrow> finalize h = digest m"
begin

lemma holds_writes: "holds m h \<Longrightarrow> holds (m @ concat ds) (fold wr ds h)"
proof (induction ds arbitrary: m h)
  case (Cons d ds)
  from Cons.IH [OF holds_write [OF Cons.prems]] show ?case by simp
qed simp

lemma digest_writes: "holds [] h \<Longrightarrow> finalize (fold wr ds h) = digest (concat ds)"
  using holds_finalize [OF holds_writes] by fastforce

end

definition CSHA256_digest :: "uint32 list hasher \<Rightarrow> byte list" where
  "CSHA256_digest h = the (CSHA256_Finalize h)"

interpretation h256: message_hasher "absorbed 64 sha256_Transform sha256_Initialize" CSHA256_Write CSHA256_digest sha256
  by unfold_locales
    (simp_all add: CSHA256_Write_def stream_Write_absorbed CSHA256_digest_def CSHA256_Finalize_absorbed)

interpretation h512: message_hasher "absorbed 128 sha512_Transform sha512_Initialize" CSHA512_Write CSHA512_Finalize sha512
  by unfold_locales (simp_all add: CSHA512_Write_def stream_Write_absorbed CSHA512_Finalize_absorbed)

interpretation h1: message_hasher "absorbed 64 sha1_Transform sha1_Initialize" CSHA1_Write CSHA1_Finalize sha1
  by unfold_locales (simp_all add: CSHA1_Write_def stream_Write_absorbed CSHA1_Finalize_absorbed)

interpretation h160: message_hasher "absorbed 64 rmd_Transform rmd_Initialize" CRIPEMD160_Write CRIPEMD160_Finalize ripemd160
  by unfold_locales (simp_all add: CRIPEMD160_Write_def stream_Write_absorbed CRIPEMD160_Finalize_absorbed)

lemma absorbed_reset: "0 < B \<Longrightarrow> absorbed B tr s0 m h \<Longrightarrow> absorbed B tr s0 [] (h\<lparr>hash_bytes := 0, hash_s := s0\<rparr>)"
  by (simp add: absorbed_def absorb_short rest_def)

section \<open>The double hashes\<close>

definition CHash256_Finalize :: "uint32 list hasher \<Rightarrow> byte list" where
  "CHash256_Finalize sha =
    (let buf = CSHA256_digest sha in CSHA256_digest (CSHA256_Write buf (CSHA256_Reset (CSHA256_finalized sha))))"

definition CHash512_Finalize :: "uint64 list hasher \<Rightarrow> byte list" where
  "CHash512_Finalize sha =
    (let buf = CSHA512_Finalize sha in CSHA512_Finalize (CSHA512_Write buf (CSHA512_Reset (CSHA512_finalized sha))))"

definition CHash160_Finalize :: "byte list \<Rightarrow> uint32 list hasher \<Rightarrow> byte list" where
  "CHash160_Finalize rbuf sha =
    (let buf = CSHA256_digest sha in CRIPEMD160_Finalize (CRIPEMD160_Write buf (CRIPEMD160_new rbuf)))"

text \<open>The overloads of \<^verbatim>\<open>Hash\<close> for one to six ranges write them one after the other.\<close>

definition Hash :: "byte list \<Rightarrow> byte list list \<Rightarrow> byte list" where
  "Hash buf ranges = CHash256_Finalize (fold CSHA256_Write ranges (CSHA256_new buf))"

definition Hash512 :: "byte list \<Rightarrow> byte list list \<Rightarrow> byte list" where
  "Hash512 buf ranges = CHash512_Finalize (fold CSHA512_Write ranges (CSHA512_new buf))"

definition Hash160 :: "byte list \<Rightarrow> byte list \<Rightarrow> byte list \<Rightarrow> byte list" where
  "Hash160 buf rbuf vch = CHash160_Finalize rbuf (CSHA256_Write vch (CSHA256_new buf))"

text \<open>A hash writer takes the serialization of an object in any number of calls of \<^verbatim>\<open>write\<close>.\<close>

definition CHashWriter_write :: "byte list \<Rightarrow> uint32 list hasher \<Rightarrow> uint32 list hasher" where
  "CHashWriter_write = CSHA256_Write"

definition CHashWriter_GetHash :: "uint32 list hasher \<Rightarrow> byte list" where
  "CHashWriter_GetHash = CHash256_Finalize"

definition SerializeHash :: "('a \<Rightarrow> byte list) \<Rightarrow> byte list \<Rightarrow> 'a \<Rightarrow> byte list" where
  "SerializeHash ser buf obj = CHashWriter_GetHash (CHashWriter_write (ser obj) (CSHA256_new buf))"

lemma h256_new: "length buf = 64 \<Longrightarrow> absorbed 64 sha256_Transform sha256_Initialize [] (CSHA256_new buf)"
  by (simp add: CSHA256_new_def absorbed_init)

lemma h512_new: "length buf = 128 \<Longrightarrow> absorbed 128 sha512_Transform sha512_Initialize [] (CSHA512_new buf)"
  by (simp add: CSHA512_new_def absorbed_init)

lemma h160_new: "length buf = 64 \<Longrightarrow> absorbed 64 rmd_Transform rmd_Initialize [] (CRIPEMD160_new buf)"
  by (simp add: CRIPEMD160_new_def absorbed_init)

lemma CHash256_digest:
  assumes "absorbed 64 sha256_Transform sha256_Initialize m h"
  shows "CHash256_Finalize h = sha256 (sha256 m)"
proof -
  have "absorbed 64 sha256_Transform sha256_Initialize [] (CSHA256_Reset (CSHA256_finalized h))"
    unfolding CSHA256_Reset_def CSHA256_finalized_def Let_def
    by (rule absorbed_reset [OF _ h256.holds_write [OF h256.holds_write [OF assms]]]) simp
  from h256.holds_finalize [OF h256.holds_write [OF this]] h256.holds_finalize [OF assms] show ?thesis
    by (simp add: CHash256_Finalize_def)
qed

lemma CHash512_digest:
  assumes "absorbed 128 sha512_Transform sha512_Initialize m h"
  shows "CHash512_Finalize h = sha512 (sha512 m)"
proof -
  have "absorbed 128 sha512_Transform sha512_Initialize [] (CSHA512_Reset (CSHA512_finalized h))"
    unfolding CSHA512_Reset_def CSHA512_finalized_def Let_def
    by (rule absorbed_reset [OF _ h512.holds_write [OF h512.holds_write [OF assms]]]) simp
  from h512.holds_finalize [OF h512.holds_write [OF this]] h512.holds_finalize [OF assms] show ?thesis
    by (simp add: CHash512_Finalize_def)
qed

lemma CHash160_digest:
  assumes "absorbed 64 sha256_Transform sha256_Initialize m h" and "length rbuf = 64"
  shows "CHash160_Finalize rbuf h = ripemd160 (sha256 m)"
  using h160.holds_finalize [OF h160.holds_write [OF h160_new [OF assms(2)]]] h256.holds_finalize [OF assms(1)]
  by (simp add: CHash160_Finalize_def)

text \<open>
  C33. \<^verbatim>\<open>Hash\<close> is SHA-256 applied twice to the concatenation of its ranges, and \<^verbatim>\<open>Hash160\<close> is RIPEMD-160 of SHA-256:
  the second hash runs in a hasher that \<^verbatim>\<open>Finalize\<close> left padded and \<^verbatim>\<open>Reset\<close> does not clear, and neither that nor
  the content of the uninitialised buffers reaches the result.
\<close>

theorem Hash_correct:
  assumes "length buf = 64" and "length rbuf = 64"
  shows "Hash buf ranges = sha256 (sha256 (concat ranges)) \<and> Hash160 buf rbuf vch = ripemd160 (sha256 vch)"
  using CHash256_digest [OF h256.holds_writes [OF h256_new [OF assms(1)], of ranges]]
    CHash160_digest [OF h256.holds_write [OF h256_new [OF assms(1)]] assms(2), of vch]
  by (simp_all add: Hash_def Hash160_def)

theorem Hash_correct_witness:
  "length (replicate 64 (0xAA :: byte)) = 64 \<and>
   Hash (replicate 64 0xAA) [[1, 2], [], [3]] = sha256 (sha256 [1, 2, 3]) \<and>
   Hash160 (replicate 64 0xAA) (replicate 64 0xAA) [1, 2, 3] = ripemd160 (sha256 [1, 2, 3])"
  using Hash_correct [of "replicate 64 0xAA" "replicate 64 0xAA" "[[1, 2], [], [3]]" "[1, 2, 3]"] by simp

section \<open>HMAC\<close>

text \<open>
  The constructors and \<^verbatim>\<open>Finalize\<close> of the two HMAC classes are the same code over their hash, with block size \<open>B\<close> and
  digest size \<open>L\<close>; \<open>t\<close>, \<open>out\<close> and \<open>inn\<close> are fresh hashers for a long key and the members \<^verbatim>\<open>outer\<close> and \<^verbatim>\<open>inner\<close>.
\<close>

definition hmac_new ::
  "nat \<Rightarrow> nat \<Rightarrow> (byte list \<Rightarrow> 'h \<Rightarrow> 'h) \<Rightarrow> ('h \<Rightarrow> byte list) \<Rightarrow> 'h \<Rightarrow> 'h \<Rightarrow> 'h \<Rightarrow> byte list \<Rightarrow> 'h \<times> 'h" where
  "hmac_new B L wr fin t out inn key =
    (let rkey = (if length key \<le> B then key @ replicate (B - length key) 0 else fin (wr key t) @ replicate (B - L) 0);
         rkey1 = map (\<lambda>b. b XOR 0x5c) rkey;
         rkey2 = map (\<lambda>b. b XOR (0x5c XOR 0x36)) rkey1
     in (wr rkey1 out, wr rkey2 inn))"

definition hmac_Write :: "(byte list \<Rightarrow> 'h \<Rightarrow> 'h) \<Rightarrow> byte list \<Rightarrow> 'h \<times> 'h \<Rightarrow> 'h \<times> 'h" where
  "hmac_Write wr data h = (case h of (outer, inner) \<Rightarrow> (outer, wr data inner))"

definition hmac_Finalize :: "(byte list \<Rightarrow> 'h \<Rightarrow> 'h) \<Rightarrow> ('h \<Rightarrow> byte list) \<Rightarrow> 'h \<times> 'h \<Rightarrow> byte list" where
  "hmac_Finalize wr fin h = (case h of (outer, inner) \<Rightarrow> fin (wr (fin inner) outer))"

text \<open>RFC 2104.\<close>

definition rfc2104_key :: "nat \<Rightarrow> (byte list \<Rightarrow> byte list) \<Rightarrow> byte list \<Rightarrow> byte list" where
  "rfc2104_key B H key = (let k = (if length key \<le> B then key else H key) in k @ replicate (B - length k) 0)"

definition rfc2104 :: "nat \<Rightarrow> (byte list \<Rightarrow> byte list) \<Rightarrow> byte list \<Rightarrow> byte list \<Rightarrow> byte list" where
  "rfc2104 B H key m =
    (let k = rfc2104_key B H key in H (map (\<lambda>b. b XOR 0x5c) k @ H (map (\<lambda>b. b XOR 0x36) k @ m)))"

lemma xor_pads: "(b XOR 0x5c) XOR 0x6a = b XOR (0x36 :: byte)"
  by (simp add: xor.assoc)

context message_hasher
begin

lemma hmac:
  assumes fresh: "holds [] t" "holds [] out" "holds [] inn" and L: "length (digest key) = L" "L \<le> B"
  shows "hmac_Finalize wr finalize (fold (hmac_Write wr) ds (hmac_new B L wr finalize t out inn key)) =
    rfc2104 B digest key (concat ds)"
proof -
  define k where "k = rfc2104_key B digest key"
  have t: "finalize (wr key t) = digest key" using holds_finalize [OF holds_write [OF fresh(1)]] by simp
  have new: "hmac_new B L wr finalize t out inn key = (wr (map (\<lambda>b. b XOR 0x5c) k) out, wr (map (\<lambda>b. b XOR 0x36) k) inn)"
    using L by (simp add: hmac_new_def k_def rfc2104_key_def Let_def t xor_pads comp_def)
  have writes: "fold (hmac_Write wr) ds (out', inn') = (out', fold wr ds inn')" for out' inn' ds
    by (induction ds arbitrary: inn') (simp_all add: hmac_Write_def)
  have inner: "finalize (fold wr ds (wr (map (\<lambda>b. b XOR 0x36) k) inn)) = digest (map (\<lambda>b. b XOR 0x36) k @ concat ds)"
    using holds_finalize [OF holds_writes [OF holds_write [OF fresh(3)]]] by simp
  have outer: "finalize (wr x (wr (map (\<lambda>b. b XOR 0x5c) k) out)) = digest (map (\<lambda>b. b XOR 0x5c) k @ x)" for x
    using holds_finalize [OF holds_write [OF holds_write [OF fresh(2)]]] by simp
  show ?thesis unfolding new writes by (simp add: hmac_Finalize_def inner outer rfc2104_def Let_def flip: k_def)
qed

end

text \<open>The lengths of the digests.\<close>

lemma absorb_inv:
  assumes "\<And>s b. P s \<Longrightarrow> P (tr s b)" and "P s"
  shows "P (absorb B tr s m)"
  using assms
proof (induction B tr s m rule: absorb.induct)
  case (1 B tr s m)
  have "P (tr s (take B m))" by (rule "1.prems"(1) [OF "1.prems"(2)])
  with "1.IH" [OF _ "1.prems"(1)] "1.prems"(2) show ?case by (subst absorb.simps) simp
qed

lemma length_concat_map: "(\<And>x. length (f x) = n) \<Longrightarrow> length (concat (map f xs)) = n * length xs"
  by (induction xs) simp_all

lemma length_sha256: "length (sha256 m) = 32"
proof -
  have "length (concat (map WriteBE32 xs)) = 4 * length xs" for xs by (rule length_concat_map) (simp add: WriteBE32_def)
  moreover have "length (absorb 64 (\<lambda>H b. fips_compress S0 S1 s0 s1 K (f b) H) sha256_Initialize p) = 8" for S0 S1 s0 s1 K f p
    by (rule absorb_inv) (simp_all add: length_fips_compress sha256_Initialize_def)
  ultimately show ?thesis by (simp add: sha256_def)
qed

lemma length_sha512: "length (sha512 m) = 64"
proof -
  have "length (concat (map WriteBE64 xs)) = 8 * length xs" for xs by (rule length_concat_map) (simp add: WriteBE64_def)
  moreover have "length (absorb 128 (\<lambda>H b. fips_compress S0 S1 s0 s1 K (f b) H) sha512_Initialize p) = 8" for S0 S1 s0 s1 K f p
    by (rule absorb_inv) (simp_all add: length_fips_compress sha512_Initialize_def)
  ultimately show ?thesis by (simp add: sha512_def)
qed

definition CHMAC_SHA256_new :: "byte list \<Rightarrow> byte list \<Rightarrow> uint32 list hasher \<times> uint32 list hasher" where
  "CHMAC_SHA256_new buf key =
    hmac_new 64 32 CSHA256_Write CSHA256_digest (CSHA256_new buf) (CSHA256_new buf) (CSHA256_new buf) key"

definition CHMAC_SHA256_Write :: "byte list \<Rightarrow> uint32 list hasher \<times> uint32 list hasher \<Rightarrow> uint32 list hasher \<times> uint32 list hasher" where
  "CHMAC_SHA256_Write = hmac_Write CSHA256_Write"

definition CHMAC_SHA256_Finalize :: "uint32 list hasher \<times> uint32 list hasher \<Rightarrow> byte list" where
  "CHMAC_SHA256_Finalize = hmac_Finalize CSHA256_Write CSHA256_digest"

definition CHMAC_SHA512_new :: "byte list \<Rightarrow> byte list \<Rightarrow> uint64 list hasher \<times> uint64 list hasher" where
  "CHMAC_SHA512_new buf key =
    hmac_new 128 64 CSHA512_Write CSHA512_Finalize (CSHA512_new buf) (CSHA512_new buf) (CSHA512_new buf) key"

definition CHMAC_SHA512_Write :: "byte list \<Rightarrow> uint64 list hasher \<times> uint64 list hasher \<Rightarrow> uint64 list hasher \<times> uint64 list hasher" where
  "CHMAC_SHA512_Write = hmac_Write CSHA512_Write"

definition CHMAC_SHA512_Finalize :: "uint64 list hasher \<times> uint64 list hasher \<Rightarrow> byte list" where
  "CHMAC_SHA512_Finalize = hmac_Finalize CSHA512_Write CSHA512_Finalize"

lemma CHMAC_SHA256_digest:
  "length buf = 64 \<Longrightarrow> CHMAC_SHA256_Finalize (fold CHMAC_SHA256_Write ds (CHMAC_SHA256_new buf key)) = rfc2104 64 sha256 key (concat ds)"
  unfolding CHMAC_SHA256_Finalize_def CHMAC_SHA256_Write_def CHMAC_SHA256_new_def
  by (rule h256.hmac) (simp_all add: h256_new length_sha256)

lemma CHMAC_SHA512_digest:
  "length buf = 128 \<Longrightarrow> CHMAC_SHA512_Finalize (fold CHMAC_SHA512_Write ds (CHMAC_SHA512_new buf key)) = rfc2104 128 sha512 key (concat ds)"
  unfolding CHMAC_SHA512_Finalize_def CHMAC_SHA512_Write_def CHMAC_SHA512_new_def
  by (rule h512.hmac) (simp_all add: h512_new length_sha512)

definition BIP32Hash :: "byte list \<Rightarrow> byte list \<Rightarrow> uint32 \<Rightarrow> byte \<Rightarrow> byte list \<Rightarrow> byte list" where
  "BIP32Hash buf chainCode nChild header data =
    (let num = [ucast (drop_bit 24 nChild AND 0xFF), ucast (drop_bit 16 nChild AND 0xFF), ucast (drop_bit 8 nChild AND 0xFF),
                ucast (nChild AND 0xFF)]
     in CHMAC_SHA512_Finalize (CHMAC_SHA512_Write num (CHMAC_SHA512_Write (take 32 data) (CHMAC_SHA512_Write [header]
          (CHMAC_SHA512_new buf chainCode)))))"

lemma ucast_byte: "(ucast (drop_bit k n AND 0xFF) :: byte) = word_of_nat (unat (n :: 'a::len word) div 2 ^ k)"
proof -
  have m: "(0xFF :: 'a word) = mask 8" by (simp add: mask_eq_exp_minus_1)
  have "(ucast (drop_bit k n AND 0xFF) :: byte) = ucast (drop_bit k n)"
    unfolding m by (rule bit_word_eqI) (auto simp: bit_simps dest: bit_imp_le_length)
  also have "\<dots> = word_of_nat (unat (drop_bit k n))" by simp
  finally show ?thesis unfolding unat_drop_bit_eq drop_bit_eq_div [where 'a = nat] .
qed

lemma WriteBE32_bytes:
  "WriteBE32 n = [ucast (drop_bit 24 n AND 0xFF), ucast (drop_bit 16 n AND 0xFF), ucast (drop_bit 8 n AND 0xFF), ucast (n AND 0xFF)]"
proof -
  have "le_bytes 4 k = [word_of_nat k, word_of_nat (k div 2 ^ 8), word_of_nat (k div 2 ^ 16), word_of_nat (k div 2 ^ 24)]" for k
  proof -
    have "le_bytes (Suc (Suc (Suc (Suc 0)))) k =
        [word_of_nat k, word_of_nat (k div 256), word_of_nat (k div 256 div 256), word_of_nat (k div 256 div 256 div 256)]"
      by simp
    moreover have "Suc (Suc (Suc (Suc 0))) = 4" by simp
    ultimately show ?thesis by (simp only: div_mult2_eq [symmetric]) simp
  qed
  then show ?thesis using ucast_byte [of 0 n] by (simp add: WriteBE32_def ucast_byte)
qed

text \<open>
  C34. The HMAC classes compute the HMAC of RFC 2104 with SHA-256 and SHA-512, for keys of any length and messages
  written in any number of pieces, and \<^verbatim>\<open>BIP32Hash\<close> the HMAC-SHA512 of the header, the key and the big-endian child
  number under the chain code.
\<close>

theorem HMAC_correct:
  assumes "length buf = 64" and "length buf' = 128" and "length data = 32"
  shows "CHMAC_SHA256_Finalize (fold CHMAC_SHA256_Write ds (CHMAC_SHA256_new buf key)) = rfc2104 64 sha256 key (concat ds) \<and>
    CHMAC_SHA512_Finalize (fold CHMAC_SHA512_Write ds (CHMAC_SHA512_new buf' key)) = rfc2104 128 sha512 key (concat ds) \<and>
    BIP32Hash buf' key nChild header data = rfc2104 128 sha512 key (header # data @ WriteBE32 nChild)"
  using CHMAC_SHA256_digest [OF assms(1)] CHMAC_SHA512_digest [OF assms(2)]
    CHMAC_SHA512_digest [OF assms(2), of "[[header], data, WriteBE32 nChild]"] assms(3)
  by (simp add: BIP32Hash_def Let_def WriteBE32_bytes)

theorem HMAC_correct_witness:
  "length (replicate 64 (0 :: byte)) = 64 \<and>
   CHMAC_SHA256_Finalize (fold CHMAC_SHA256_Write [[1], [2]] (CHMAC_SHA256_new (replicate 64 0) [7])) = rfc2104 64 sha256 [7] [1, 2] \<and>
   BIP32Hash (replicate 128 0) [7] 5 1 (replicate 32 9) = rfc2104 128 sha512 [7] (1 # replicate 32 9 @ [0, 0, 0, 5])"
proof -
  have five: "WriteBE32 5 = [0, 0, 0, 5]" by (simp add: WriteBE32_bytes)
  show ?thesis
    using HMAC_correct [of "replicate 64 0" "replicate 128 0" "replicate 32 9" "[[1], [2]]" "[7]" 5 1] by (simp add: five)
qed

section \<open>The generator of RFC 6979\<close>

record rfc6979 =
  rfc_V :: "byte list"
  rfc_K :: "byte list"
  rfc_retry :: bool

definition rfc_hmac :: "byte list \<Rightarrow> byte list \<Rightarrow> byte list list \<Rightarrow> byte list" where
  "rfc_hmac buf K ds = CHMAC_SHA256_Finalize (fold CHMAC_SHA256_Write ds (CHMAC_SHA256_new buf K))"

definition RFC6979_new :: "byte list \<Rightarrow> byte list \<Rightarrow> byte list \<Rightarrow> rfc6979" where
  "RFC6979_new buf key msg =
    (let V0 = replicate 32 1; K0 = replicate 32 0;
         K1 = rfc_hmac buf K0 [V0, [0], key, msg];
         V1 = rfc_hmac buf K1 [V0];
         K2 = rfc_hmac buf K1 [V1, [1], key, msg];
         V2 = rfc_hmac buf K2 [V1]
     in \<lparr>rfc_V = V2, rfc_K = K2, rfc_retry = False\<rparr>)"

fun RFC6979_loop :: "byte list \<Rightarrow> byte list \<Rightarrow> byte list \<Rightarrow> nat \<Rightarrow> byte list \<times> byte list" where
  "RFC6979_loop buf K V outputlen =
    (if outputlen > 0 then
       let V' = rfc_hmac buf K [V]; len = min outputlen 32; (out, V'') = RFC6979_loop buf K V' (outputlen - len)
       in (take len V' @ out, V'')
     else ([], V))"

declare RFC6979_loop.simps [simp del]

definition RFC6979_Generate :: "byte list \<Rightarrow> nat \<Rightarrow> rfc6979 \<Rightarrow> byte list \<times> rfc6979" where
  "RFC6979_Generate buf outputlen g =
    (let g1 = (if rfc_retry g then
                 let K1 = rfc_hmac buf (rfc_K g) [rfc_V g, [0]] in g\<lparr>rfc_K := K1, rfc_V := rfc_hmac buf K1 [rfc_V g]\<rparr>
               else g);
         (out, V) = RFC6979_loop buf (rfc_K g1) (rfc_V g1) outputlen
     in (out, g1\<lparr>rfc_V := V, rfc_retry := True\<rparr>))"

text \<open>The loop gives the first bytes of the iterated HMAC of the state.\<close>

lemma RFC6979_loop_eq:
  assumes buf: "length buf = 64"
  shows "fst (RFC6979_loop buf K V n) =
    take n (concat (map (\<lambda>i. ((\<lambda>v. rfc2104 64 sha256 K v) ^^ Suc i) V) [0..<(n + 31) div 32]))"
  using assms
proof (induction buf K V n rule: RFC6979_loop.induct)
  case (1 buf K V n)
  let ?h = "\<lambda>v. rfc2104 64 sha256 K v"
  have V': "rfc_hmac buf K [V] = ?h V" using CHMAC_SHA256_digest [OF "1.prems", where ds = "[V]" and key = K] by (simp add: rfc_hmac_def)
  show ?case
  proof (cases "n = 0")
    case False
    have len: "length (?h V) = 32" by (simp add: rfc2104_def Let_def length_sha256)
    have k: "(n + 31) div 32 = Suc ((n - min n 32 + 31) div 32)" using False by (auto simp: min_def)
    have upt: "map f [0..<Suc j] = f 0 # map (\<lambda>i. f (Suc i)) [0..<j]" for f :: "nat \<Rightarrow> byte list" and j
      by (simp only: upt_conv_Cons map_Suc_upt [symmetric] zero_less_Suc) (simp add: comp_def del: upt_Suc)
    have ih: "fst (RFC6979_loop buf K (?h V) (n - min n 32)) =
        take (n - min n 32) (concat (map (\<lambda>i. (?h ^^ Suc (Suc i)) V) [0..<(n - min n 32 + 31) div 32]))"
      using "1.IH" [OF _ V' [symmetric] refl "1.prems"] False V' by (simp add: funpow_swap1)
    show ?thesis
      using False ih len by (subst RFC6979_loop.simps) (simp add: V' k upt Let_def split_beta min_def del: upt_Suc)
  qed (simp add: RFC6979_loop.simps)
qed

end
