(* ===== verification/SipHash.thy ===== *)
theory SipHash
  imports Hash_Stream Crypto_Common
begin

text \<open>
  SipHash-2-4 of \<^verbatim>\<open>src/hash.cpp\<close>: the class \<^verbatim>\<open>CSipHasher\<close>, which takes bytes or aligned words, and the specialised
  functions for a 256-bit value and a 256-bit value with 32 bits after it. All are proved to compute SipHash of the
  bytes they stand for. A \<^verbatim>\<open>uint256\<close> is its 32 bytes in memory.
\<close>

section \<open>The code\<close>

type_synonym sip_v = "uint64 \<times> uint64 \<times> uint64 \<times> uint64"

definition ROTL64 :: "uint64 \<Rightarrow> nat \<Rightarrow> uint64" where
  "ROTL64 x b = push_bit b x OR drop_bit (64 - b) x"

definition SIPROUND :: "sip_v \<Rightarrow> sip_v" where
  "SIPROUND v =
    (case v of (v0, v1, v2, v3) \<Rightarrow>
     let v0 = v0 + v1; v1 = ROTL64 v1 13; v1 = v1 XOR v0;
         v0 = ROTL64 v0 32;
         v2 = v2 + v3; v3 = ROTL64 v3 16; v3 = v3 XOR v2;
         v0 = v0 + v3; v3 = ROTL64 v3 21; v3 = v3 XOR v0;
         v2 = v2 + v1; v1 = ROTL64 v1 17; v1 = v1 XOR v2;
         v2 = ROTL64 v2 32
     in (v0, v1, v2, v3))"

record siphasher =
  sip_v :: sip_v
  sip_tmp :: uint64
  sip_count :: nat

definition xor_v3 :: "uint64 \<Rightarrow> sip_v \<Rightarrow> sip_v" where
  "xor_v3 d v = (case v of (v0, v1, v2, v3) \<Rightarrow> (v0, v1, v2, v3 XOR d))"

definition xor_v0 :: "uint64 \<Rightarrow> sip_v \<Rightarrow> sip_v" where
  "xor_v0 d v = (case v of (v0, v1, v2, v3) \<Rightarrow> (v0 XOR d, v1, v2, v3))"

definition xor_v2 :: "uint64 \<Rightarrow> sip_v \<Rightarrow> sip_v" where
  "xor_v2 d v = (case v of (v0, v1, v2, v3) \<Rightarrow> (v0, v1, v2 XOR d, v3))"

definition CSipHasher_new :: "uint64 \<Rightarrow> uint64 \<Rightarrow> siphasher" where
  "CSipHasher_new k0 k1 =
    \<lparr>sip_v = (0x736f6d6570736575 XOR k0, 0x646f72616e646f6d XOR k1, 0x6c7967656e657261 XOR k0, 0x7465646279746573 XOR k1),
     sip_tmp = 0, sip_count = 0\<rparr>"

text \<open>The assertion that a multiple of eight bytes was written fails with \<open>None\<close>.\<close>

definition CSipHasher_Write64 :: "uint64 \<Rightarrow> siphasher \<Rightarrow> siphasher option" where
  "CSipHasher_Write64 data h =
    (if sip_count h mod 8 \<noteq> 0 then None
     else Some (h\<lparr>sip_v := xor_v0 data (SIPROUND (SIPROUND (xor_v3 data (sip_v h)))), sip_count := sip_count h + 8\<rparr>))"

text \<open>One turn of the loop of \<^verbatim>\<open>Write\<close>, for the byte at the pointer.\<close>

definition CSipHasher_byte :: "byte \<Rightarrow> siphasher \<Rightarrow> siphasher" where
  "CSipHasher_byte b h =
    (let t = sip_tmp h OR push_bit (8 * (sip_count h mod 8)) (ucast b); c = sip_count h + 1
     in if c mod 8 = 0
        then \<lparr>sip_v = xor_v0 t (SIPROUND (SIPROUND (xor_v3 t (sip_v h)))), sip_tmp = 0, sip_count = c\<rparr>
        else \<lparr>sip_v = sip_v h, sip_tmp = t, sip_count = c\<rparr>)"

definition CSipHasher_Write :: "byte list \<Rightarrow> siphasher \<Rightarrow> siphasher" where
  "CSipHasher_Write data = fold CSipHasher_byte data"

definition sip_result :: "sip_v \<Rightarrow> uint64" where
  "sip_result v = (case v of (v0, v1, v2, v3) \<Rightarrow> v0 XOR v1 XOR v2 XOR v3)"

definition CSipHasher_Finalize :: "siphasher \<Rightarrow> uint64" where
  "CSipHasher_Finalize h =
    (let t = sip_tmp h OR push_bit 56 (word_of_nat (sip_count h));
         v = xor_v2 0xFF (xor_v0 t (SIPROUND (SIPROUND (xor_v3 t (sip_v h)))))
     in sip_result (SIPROUND (SIPROUND (SIPROUND (SIPROUND v)))))"

definition GetUint64 :: "byte list \<Rightarrow> nat \<Rightarrow> uint64" where
  "GetUint64 val pos =
    (let ptr = drop (pos * 8) val
     in ucast (ptr ! 0) OR push_bit 8 (ucast (ptr ! 1)) OR push_bit 16 (ucast (ptr ! 2)) OR push_bit 24 (ucast (ptr ! 3)) OR
        push_bit 32 (ucast (ptr ! 4)) OR push_bit 40 (ucast (ptr ! 5)) OR push_bit 48 (ucast (ptr ! 6)) OR push_bit 56 (ucast (ptr ! 7)))"

definition SipHashUint256 :: "uint64 \<Rightarrow> uint64 \<Rightarrow> byte list \<Rightarrow> uint64" where
  "SipHashUint256 k0 k1 val =
    (let d = GetUint64 val 0;
         v = (0x736f6d6570736575 XOR k0, 0x646f72616e646f6d XOR k1, 0x6c7967656e657261 XOR k0, 0x7465646279746573 XOR k1 XOR d);
         v = xor_v0 d (SIPROUND (SIPROUND v));
         d = GetUint64 val 1;
         v = xor_v0 d (SIPROUND (SIPROUND (xor_v3 d v)));
         d = GetUint64 val 2;
         v = xor_v0 d (SIPROUND (SIPROUND (xor_v3 d v)));
         d = GetUint64 val 3;
         v = xor_v0 d (SIPROUND (SIPROUND (xor_v3 d v)));
         v = xor_v0 (push_bit 59 4) (SIPROUND (SIPROUND (xor_v3 (push_bit 59 4) v)));
         v = xor_v2 0xFF v
     in sip_result (SIPROUND (SIPROUND (SIPROUND (SIPROUND v)))))"

definition SipHashUint256Extra :: "uint64 \<Rightarrow> uint64 \<Rightarrow> byte list \<Rightarrow> uint32 \<Rightarrow> uint64" where
  "SipHashUint256Extra k0 k1 val extra =
    (let d = GetUint64 val 0;
         v = (0x736f6d6570736575 XOR k0, 0x646f72616e646f6d XOR k1, 0x6c7967656e657261 XOR k0, 0x7465646279746573 XOR k1 XOR d);
         v = xor_v0 d (SIPROUND (SIPROUND v));
         d = GetUint64 val 1;
         v = xor_v0 d (SIPROUND (SIPROUND (xor_v3 d v)));
         d = GetUint64 val 2;
         v = xor_v0 d (SIPROUND (SIPROUND (xor_v3 d v)));
         d = GetUint64 val 3;
         v = xor_v0 d (SIPROUND (SIPROUND (xor_v3 d v)));
         d = push_bit 56 36 OR ucast extra;
         v = xor_v0 d (SIPROUND (SIPROUND (xor_v3 d v)));
         v = xor_v2 0xFF v
     in sip_result (SIPROUND (SIPROUND (SIPROUND (SIPROUND v)))))"

section \<open>SipHash-2-4\<close>

text \<open>
  The definition of the hash: the message in words of eight bytes, little endian, and a last word of the remaining
  bytes with the length modulo 256 in the highest byte.
\<close>

definition sip_word :: "uint64 \<Rightarrow> sip_v \<Rightarrow> sip_v" where
  "sip_word d v = xor_v0 d (SIPROUND (SIPROUND (xor_v3 d v)))"

definition sip_init :: "uint64 \<Rightarrow> uint64 \<Rightarrow> sip_v" where
  "sip_init k0 k1 = (0x736f6d6570736575 XOR k0, 0x646f72616e646f6d XOR k1, 0x6c7967656e657261 XOR k0, 0x7465646279746573 XOR k1)"

definition le_word :: "byte list \<Rightarrow> uint64" where
  "le_word bs = word_of_nat (le_nat bs)"

definition siphash24 :: "uint64 \<Rightarrow> uint64 \<Rightarrow> byte list \<Rightarrow> uint64" where
  "siphash24 k0 k1 m =
    (let pad = replicate (7 - length m mod 8) 0 @ [word_of_nat (length m)];
         v = absorb 8 (\<lambda>v b. sip_word (le_word b) v) (sip_init k0 k1) (m @ pad)
     in sip_result (SIPROUND (SIPROUND (SIPROUND (SIPROUND (xor_v2 0xFF v))))))"

lemma or_push_bit_nat:
  assumes "a < 2 ^ k"
  shows "word_of_nat a OR push_bit k (word_of_nat b) = (word_of_nat (a + b * 2 ^ k) :: 'a::len word)"
proof -
  have "\<not> bit a i" if "k \<le> i" for i using assms that by (metis bit_take_bit_iff leD take_bit_nat_eq_self_iff)
  then have "word_of_nat a AND push_bit k (word_of_nat b) = (0 :: 'a word)"
    by (intro bit_word_eqI) (auto simp: bit_simps)
  then have "word_of_nat a OR push_bit k (word_of_nat b) = word_of_nat a + (push_bit k (word_of_nat b) :: 'a word)"
    by (simp add: disjunctive_add_eq_or)
  then show ?thesis by (simp add: push_bit_eq_mult)
qed

lemma le_nat_snoc: "le_nat (bs @ [b]) = le_nat bs + unat b * 256 ^ length bs"
  by (induction bs) (simp_all add: algebra_simps)

lemma le_word_snoc: "le_word bs OR push_bit (8 * length bs) (ucast b) = le_word (bs @ [b])"
proof -
  have "le_nat bs < 2 ^ (8 * length bs)" using le_nat_less [of bs] by (simp add: power_mult)
  from or_push_bit_nat [OF this, of "unat b", where 'a = 64] show ?thesis
    by (simp add: le_word_def le_nat_snoc power_mult)
qed

section \<open>The hasher\<close>

definition sip_holds :: "uint64 \<Rightarrow> uint64 \<Rightarrow> byte list \<Rightarrow> siphasher \<Rightarrow> bool" where
  "sip_holds k0 k1 m h \<longleftrightarrow> sip_v h = absorb 8 (\<lambda>v b. sip_word (le_word b) v) (sip_init k0 k1) m \<and>
    sip_tmp h = le_word (rest 8 m) \<and> sip_count h = length m"

lemma sip_holds_new: "sip_holds k0 k1 [] (CSipHasher_new k0 k1)"
  by (simp add: sip_holds_def CSipHasher_new_def absorb_short sip_init_def rest_def le_word_def)

lemma rest_snoc:
  assumes "0 < B"
  shows "Suc (length m) mod B \<noteq> 0 \<Longrightarrow> rest B (m @ [x]) = rest B m @ [x]"
    and "Suc (length m) mod B \<noteq> 0 \<Longrightarrow> absorb B tr s (m @ [x]) = absorb B tr s m"
    and "Suc (length m) mod B = 0 \<Longrightarrow> rest B (m @ [x]) = []"
    and "Suc (length m) mod B = 0 \<Longrightarrow> absorb B tr s (m @ [x]) = tr (absorb B tr s m) (rest B m @ [x])"
proof -
  have len: "length (rest B m @ [x]) = Suc (length m mod B)" using length_rest [OF assms, of m] by simp
  have s: "absorb B tr s (m @ [x]) = absorb B tr (absorb B tr s m) (rest B m @ [x])" by (rule absorb_append [OF assms])
  have r: "rest B (m @ [x]) = rest B (rest B m @ [x])" by (rule rest_append [OF assms])
  {
    assume "Suc (length m) mod B \<noteq> 0"
    then have lt: "length (rest B m @ [x]) < B" unfolding len using mod_less_divisor [OF assms, of "length m"] by (simp add: mod_Suc split: if_splits)
    show "rest B (m @ [x]) = rest B m @ [x]" unfolding r using lt by (simp add: rest_def [of B "rest B m @ [x]"])
    show "absorb B tr s (m @ [x]) = absorb B tr s m" unfolding s by (rule absorb_short [OF lt])
  }
  assume "Suc (length m) mod B = 0"
  then have B: "length (rest B m @ [x]) = B" unfolding len using assms by (simp add: mod_Suc split: if_splits)
  show "rest B (m @ [x]) = []" unfolding r using B assms by (simp add: rest_def [of B "rest B m @ [x]"])
  show "absorb B tr s (m @ [x]) = tr (absorb B tr s m) (rest B m @ [x])"
    unfolding s using absorb_block [OF assms B, of tr "absorb B tr s m" "[]"] absorb_short [of "[]" B] assms by simp
qed

lemma sip_holds_byte:
  assumes "sip_holds k0 k1 m h"
  shows "sip_holds k0 k1 (m @ [b]) (CSipHasher_byte b h)"
proof -
  have h: "sip_v h = absorb 8 (\<lambda>v b. sip_word (le_word b) v) (sip_init k0 k1) m" "sip_tmp h = le_word (rest 8 m)" "sip_count h = length m"
    using assms by (simp_all add: sip_holds_def)
  have t: "sip_tmp h OR push_bit (8 * (sip_count h mod 8)) (ucast b) = le_word (rest 8 m @ [b])"
    using le_word_snoc [of "rest 8 m" b] length_rest [of 8 m] by (simp add: h)
  show ?thesis
    unfolding sip_holds_def CSipHasher_byte_def Let_def t
    by (cases "Suc (length m) mod 8 = 0") (simp_all add: h rest_snoc sip_word_def le_word_def)
qed

lemma sip_holds_Write: "sip_holds k0 k1 m h \<Longrightarrow> sip_holds k0 k1 (m @ data) (CSipHasher_Write data h)"
proof (induction data arbitrary: m h)
  case (Cons b data)
  from Cons.IH [OF sip_holds_byte [OF Cons.prems]] show ?case by (simp add: CSipHasher_Write_def)
qed (simp add: CSipHasher_Write_def)

lemma sip_holds_Write64:
  assumes h: "sip_holds k0 k1 m h" and m: "length m mod 8 = 0"
  obtains h' where "CSipHasher_Write64 x h = Some h'" "sip_holds k0 k1 (m @ WriteLE64w x) h'"
proof -
  have nil: "rest 8 m = []" using length_rest [of 8 m] m by simp
  have "absorb 8 tr s (m @ WriteLE64w x) = tr (absorb 8 tr s m) (WriteLE64w x)" for tr and s :: sip_v
    using absorb_append [of 8 tr s m "WriteLE64w x"] absorb_block [of 8 "WriteLE64w x" tr "absorb 8 tr s m" "[]"] nil
    by (simp add: WriteLE64w_def absorb_short)
  moreover have "rest 8 (m @ WriteLE64w x) = []" using length_rest [of 8 "m @ WriteLE64w x"] m by (simp add: WriteLE64w_def)
  moreover have "le_word (WriteLE64w x) = x" using unsigned_less [of x, where 'a = nat] by (simp add: le_word_def WriteLE64w_def le_nat_le_bytes)
  ultimately have "sip_holds k0 k1 (m @ WriteLE64w x)
      (h\<lparr>sip_v := xor_v0 x (SIPROUND (SIPROUND (xor_v3 x (sip_v h)))), sip_count := sip_count h + 8\<rparr>)"
    using h nil by (simp add: sip_holds_def sip_word_def) (simp add: WriteLE64w_def)
  then show thesis using h m that by (simp add: CSipHasher_Write64_def sip_holds_def)
qed

text \<open>The last word is the remaining bytes with the length in the highest byte.\<close>

lemma le_nat_zeros: "le_nat (bs @ replicate k 0) = le_nat bs"
proof (induction bs)
  case Nil
  show ?case by (induction k) simp_all
qed simp

lemma sip_last_word:
  assumes "length r < 8"
  shows "le_word r OR push_bit 56 (word_of_nat n) = le_word (r @ replicate (7 - length r) 0 @ [word_of_nat n])"
proof -
  have "push_bit 56 (ucast (word_of_nat n :: byte)) = (push_bit 56 (word_of_nat n) :: uint64)"
    by (rule bit_word_eqI) (auto simp: bit_simps)
  then show ?thesis
    using le_word_snoc [of "r @ replicate (7 - length r) 0" "word_of_nat n"] assms by (simp add: le_word_def le_nat_zeros)
qed

lemma sip_holds_Finalize:
  assumes "sip_holds k0 k1 m h"
  shows "CSipHasher_Finalize h = siphash24 k0 k1 m"
proof -
  let ?pad = "replicate (7 - length m mod 8) 0 @ [word_of_nat (length m)]"
  have len: "length (rest 8 m) = length m mod 8" by (rule length_rest) simp
  have t: "sip_tmp h OR push_bit 56 (word_of_nat (sip_count h)) = le_word (rest 8 m @ ?pad)"
    using sip_last_word [of "rest 8 m" "length m"] assms by (simp add: sip_holds_def len)
  have "length (rest 8 m @ ?pad) = 8" unfolding length_append len by simp
  then have "absorb 8 tr s (m @ ?pad) = tr (absorb 8 tr s m) (rest 8 m @ ?pad)" for tr and s :: sip_v
    using absorb_append [of 8 tr s m ?pad] absorb_block [of 8 "rest 8 m @ ?pad" tr "absorb 8 tr s m" "[]"] by (simp add: absorb_short)
  then show ?thesis
    using assms unfolding CSipHasher_Finalize_def siphash24_def Let_def t
    by (simp add: sip_holds_def sip_word_def)
qed

section \<open>The specialised functions\<close>

lemma GetUint64_le_word:
  assumes "pos * 8 + 8 \<le> length val"
  shows "GetUint64 val pos = le_word (take 8 (drop (pos * 8) val))"
proof -
  define p where "p = drop (pos * 8) val"
  have "8 \<le> length p" using assms by (simp add: p_def)
  then have eight: "take 8 p = [p ! 0, p ! 1, p ! 2, p ! 3, p ! 4, p ! 5, p ! 6, p ! 7]"
    by (intro nth_equalityI) (auto simp: less_Suc_eq numeral_eq_Suc nth_Cons')
  have zero: "le_word [] = 0" by (simp add: le_word_def)
  show ?thesis
    unfolding GetUint64_def Let_def p_def [symmetric] eight
    using le_word_snoc [of "[]" "p ! 0"] le_word_snoc [of "[p ! 0]" "p ! 1"] le_word_snoc [of "[p ! 0, p ! 1]" "p ! 2"]
      le_word_snoc [of "[p ! 0, p ! 1, p ! 2]" "p ! 3"] le_word_snoc [of "[p ! 0, p ! 1, p ! 2, p ! 3]" "p ! 4"]
      le_word_snoc [of "[p ! 0, p ! 1, p ! 2, p ! 3, p ! 4]" "p ! 5"]
      le_word_snoc [of "[p ! 0, p ! 1, p ! 2, p ! 3, p ! 4, p ! 5]" "p ! 6"]
      le_word_snoc [of "[p ! 0, p ! 1, p ! 2, p ! 3, p ! 4, p ! 5, p ! 6]" "p ! 7"]
    by (simp add: zero or.assoc [symmetric])
qed

text \<open>Four words make 32 bytes.\<close>

lemma four_words:
  assumes "length val = 32"
  shows "absorb 8 (\<lambda>v b. sip_word (le_word b) v) v (val @ m) = absorb 8 (\<lambda>v b. sip_word (le_word b) v)
    (sip_word (GetUint64 val 3) (sip_word (GetUint64 val 2) (sip_word (GetUint64 val 1) (sip_word (GetUint64 val 0) v)))) m"
proof -
  have cut: "absorb 8 tr v (drop k val @ m) = absorb 8 tr (tr v (take 8 (drop k val))) (drop (k + 8) val @ m)"
    if "k + 8 \<le> 32" for k tr and v :: sip_v
  proof -
    have "drop k val = take 8 (drop k val) @ drop (k + 8) val" by (metis append_take_drop_id drop_drop add.commute)
    then have eq: "drop k val @ m = take 8 (drop k val) @ drop (k + 8) val @ m" by (metis append_assoc)
    show ?thesis unfolding eq by (rule absorb_block) (use that assms in simp_all)
  qed
  show ?thesis
    using cut [of 0] cut [of 8] cut [of 16] cut [of 24] assms by (simp add: GetUint64_le_word)
qed

lemma sip_init_xor: "xor_v3 d (sip_init k0 k1) =
    (0x736f6d6570736575 XOR k0, 0x646f72616e646f6d XOR k1, 0x6c7967656e657261 XOR k0, 0x7465646279746573 XOR k1 XOR d)"
  by (simp add: sip_init_def xor_v3_def xor.assoc)

lemma SipHashUint256_eq:
  assumes "length val = 32"
  shows "SipHashUint256 k0 k1 val = siphash24 k0 k1 val"
proof -
  have "le_word (replicate 7 0) = 0" using le_nat_zeros [of "[]" 7] by (simp add: le_word_def)
  then have pad: "le_word (replicate 7 0 @ [32]) = push_bit 59 4"
    using le_word_snoc [of "replicate 7 0" 32] by (simp add: push_bit_eq_mult)
  have "absorb 8 (\<lambda>v b. sip_word (le_word b) v) v (replicate 7 0 @ [32]) = sip_word (push_bit 59 4) v" for v
    using absorb_block [of 8 "replicate 7 0 @ [32]" "\<lambda>v b. sip_word (le_word b) v" v "[]"] pad by (simp add: absorb_short)
  then show ?thesis
    using four_words [OF assms, of "sip_init k0 k1" "replicate 7 0 @ [32]"] assms
    by (simp add: SipHashUint256_def siphash24_def Let_def sip_word_def sip_init_xor)
qed

lemma SipHashUint256Extra_eq:
  assumes "length val = 32"
  shows "SipHashUint256Extra k0 k1 val extra = siphash24 k0 k1 (val @ WriteLE32w extra)"
proof -
  let ?pad = "WriteLE32w extra @ replicate 3 0 @ [36]"
  have "le_word (WriteLE32w extra) = ucast extra"
    using unsigned_less [of extra, where 'a = nat] by (simp add: le_word_def WriteLE32w_def le_nat_le_bytes)
  then have pad: "le_word ?pad = push_bit 56 36 OR ucast extra"
    using sip_last_word [of "WriteLE32w extra" 36] by (simp add: WriteLE32w_def or.commute)
  have "absorb 8 (\<lambda>v b. sip_word (le_word b) v) v ?pad = sip_word (push_bit 56 36 OR ucast extra) v" for v
    using absorb_block [of 8 ?pad "\<lambda>v b. sip_word (le_word b) v" v "[]"] pad by (simp add: absorb_short WriteLE32w_def)
  then show ?thesis
    using four_words [OF assms, of "sip_init k0 k1" ?pad] assms
    by (simp add: SipHashUint256Extra_def siphash24_def Let_def sip_word_def sip_init_xor WriteLE32w_def)
qed

text \<open>
  Writing a word of 64 bits is writing its eight little-endian bytes when a multiple of eight bytes was written
  before, and otherwise the assertion fails.
\<close>

lemma CSipHasher_Write64_bytes:
  assumes "sip_holds k0 k1 m h"
  shows "CSipHasher_Write64 x h = (if length m mod 8 = 0 then Some (CSipHasher_Write (WriteLE64w x) h) else None)"
proof (cases "length m mod 8 = 0")
  case True
  obtain h' where h': "CSipHasher_Write64 x h = Some h'" "sip_holds k0 k1 (m @ WriteLE64w x) h'"
    by (rule sip_holds_Write64 [OF assms True])
  have "h' = CSipHasher_Write (WriteLE64w x) h"
    using h'(2) sip_holds_Write [OF assms, of "WriteLE64w x"] by (simp add: sip_holds_def)
  with h' True show ?thesis by simp
qed (use assms in \<open>simp add: CSipHasher_Write64_def sip_holds_def\<close>)



end
