(* ===== verification/ChaCha20.thy ===== *)
theory ChaCha20
  imports Crypto_Common
begin

text \<open>
  The stream cipher of \<^verbatim>\<open>src/crypto/chacha20.cpp\<close>, the generator behind \<^verbatim>\<open>FastRandomContext\<close>. The state \<^verbatim>\<open>input\<close> is a list of
  sixteen words, of which the words 12 and 13 are a counter of 64 bits. \<^verbatim>\<open>Output\<close> is proved to give the keystream in
  counter mode from the position of the last \<^verbatim>\<open>Seek\<close>.
\<close>

section \<open>The code\<close>

definition rotl32 :: "uint32 \<Rightarrow> nat \<Rightarrow> uint32" where
  "rotl32 v c = push_bit c v OR drop_bit (32 - c) v"

definition QUARTERROUND :: "nat \<Rightarrow> nat \<Rightarrow> nat \<Rightarrow> nat \<Rightarrow> uint32 list \<Rightarrow> uint32 list" where
  "QUARTERROUND ia ib ic idd x =
    (let a = x ! ia; b = x ! ib; c = x ! ic; d = x ! idd;
         a = a + b; d = rotl32 (d XOR a) 16;
         c = c + d; b = rotl32 (b XOR c) 12;
         a = a + b; d = rotl32 (d XOR a) 8;
         c = c + d; b = rotl32 (b XOR c) 7
     in x[ia := a, ib := b, ic := c, idd := d])"

definition ascii :: "string \<Rightarrow> byte list" where
  "ascii = map (\<lambda>c. word_of_nat (of_char c))"

definition SetKey :: "byte list \<Rightarrow> uint32 list" where
  "SetKey k =
    (let (k', constants) = (if length k = 32 then (drop 16 k, ascii ''expand 32-byte k'') else (k, ascii ''expand 16-byte k''))
     in map (\<lambda>i. ReadLE32w (drop (4 * i) constants)) [0..<4] @
        map (\<lambda>i. ReadLE32w (drop (4 * i) k)) [0..<4] @
        map (\<lambda>i. ReadLE32w (drop (4 * i) k')) [0..<4] @ [0, 0, 0, 0])"

definition ChaCha20_new :: "uint32 list" where
  "ChaCha20_new = replicate 16 0"

definition SetIV :: "uint64 \<Rightarrow> uint32 list \<Rightarrow> uint32 list" where
  "SetIV iv input = input[14 := ucast iv, 15 := ucast (drop_bit 32 iv)]"

definition Seek :: "uint64 \<Rightarrow> uint32 list \<Rightarrow> uint32 list" where
  "Seek pos input = input[12 := ucast pos, 13 := ucast (drop_bit 32 pos)]"

definition double_round :: "uint32 list \<Rightarrow> uint32 list" where
  "double_round x =
    QUARTERROUND 3 4 9 14 (QUARTERROUND 2 7 8 13 (QUARTERROUND 1 6 11 12 (QUARTERROUND 0 5 10 15
      (QUARTERROUND 3 7 11 15 (QUARTERROUND 2 6 10 14 (QUARTERROUND 1 5 9 13 (QUARTERROUND 0 4 8 12 x)))))))"

text \<open>The 64 bytes the loop makes of \<^verbatim>\<open>j\<close>, and the increment of the counter in it.\<close>

definition chacha_block :: "uint32 list \<Rightarrow> byte list" where
  "chacha_block j = concat (map WriteLE32w (map2 (+) ((double_round ^^ 10) j) j))"

definition next_counter :: "uint32 list \<Rightarrow> uint32 list" where
  "next_counter j = (let j = j[12 := j ! 12 + 1] in if j ! 12 = 0 then j[13 := j ! 13 + 1] else j)"

function Output_loop :: "uint32 list \<Rightarrow> nat \<Rightarrow> byte list \<times> uint32 list" where
  "Output_loop j bytes =
    (let c = chacha_block j; j' = next_counter j
     in if bytes \<le> 64 then (take bytes c, j')
        else let (out, j'') = Output_loop j' (bytes - 64) in (c @ out, j''))"
  by pat_completeness auto
termination by (relation "measure snd") auto

declare Output_loop.simps [simp del]

definition Output :: "nat \<Rightarrow> uint32 list \<Rightarrow> byte list \<times> uint32 list" where
  "Output bytes input =
    (if bytes = 0 then ([], input)
     else let (out, j) = Output_loop input bytes in (out, input[12 := j ! 12, 13 := j ! 13]))"

section \<open>The keystream\<close>

lemma length_QUARTERROUND [simp]: "length (QUARTERROUND ia ib ic idd x) = length x"
  unfolding QUARTERROUND_def Let_def by (simp only: length_list_update)

lemma length_double_round [simp]: "length (double_round x) = length x"
  by (simp add: double_round_def)

lemma length_chacha_block: "length j = 16 \<Longrightarrow> length (chacha_block j) = 64"
proof -
  assume j: "length j = 16"
  have "length ((double_round ^^ n) j) = 16" for n by (induction n) (simp_all add: j)
  moreover have "length (concat (map WriteLE32w xs)) = 4 * length xs" for xs by (induction xs) (simp_all add: WriteLE32w_def)
  ultimately show ?thesis by (simp add: chacha_block_def j del: map_map)
qed

lemma length_Seek [simp]: "length (Seek pos st) = length st"
  by (simp add: Seek_def)

text \<open>The two words count as one of 64 bits, with the carry.\<close>

lemma ucast_low: "ucast (word_of_nat p :: uint64) = (word_of_nat p :: uint32)"
  by (rule bit_word_eqI) (simp add: bit_simps)

lemma ucast_high: "ucast (drop_bit 32 (word_of_nat p :: uint64)) = (word_of_nat (p div 2 ^ 32) :: uint32)"
  unfolding drop_bit_eq_div [where 'a = nat, symmetric] by (rule bit_word_eqI) (auto simp: bit_simps)

lemma next_counter_Seek:
  assumes "length st = 16"
  shows "next_counter (Seek pos st) = Seek (pos + 1) st"
proof -
  define p where "p = unat pos"
  have pos: "pos = word_of_nat p" "pos + 1 = word_of_nat (Suc p)" by (simp_all add: p_def)
  have casts: "(ucast pos :: uint32) = word_of_nat p" "(ucast (pos + 1) :: uint32) = word_of_nat p + 1"
    "(ucast (drop_bit 32 pos) :: uint32) = word_of_nat (p div 2 ^ 32)"
    "(ucast (drop_bit 32 (pos + 1)) :: uint32) = word_of_nat (Suc p div 2 ^ 32)"
    unfolding pos(2) unfolding pos(1) ucast_low ucast_high by simp_all
  have zero: "(word_of_nat p + 1 :: uint32) = 0 \<longleftrightarrow> Suc p mod 2 ^ 32 = 0"
  proof -
    have "(word_of_nat q :: uint32) = 0 \<longleftrightarrow> q mod 2 ^ 32 = 0" for q by (simp add: word_of_nat_eq_0_iff dvd_eq_mod_eq_0)
    from this [of "Suc p"] show ?thesis by (simp only: of_nat_Suc add.commute)
  qed
  show ?thesis
    using zero assms unfolding next_counter_def Seek_def casts
    by (simp add: Let_def div_Suc list_update_swap nth_list_update add.commute)
qed

lemma Output_loop_Seek:
  assumes "length st = 16" and "0 < n"
  shows "Output_loop (Seek pos st) n =
    (take n (concat (map (\<lambda>i. chacha_block (Seek (pos + word_of_nat i) st)) [0..<(n + 63) div 64])), Seek (pos + word_of_nat ((n + 63) div 64)) st)"
  using assms(2)
proof (induction n arbitrary: pos rule: less_induct)
  case (less n)
  have len: "length (chacha_block (Seek pos st)) = 64" using assms(1) by (simp add: length_chacha_block)
  have step: "next_counter (Seek pos st) = Seek (pos + 1) st" by (rule next_counter_Seek [OF assms(1)])
  show ?case
  proof (cases "n \<le> 64")
    case True
    then have "(n + 63) div 64 = 1" using less.prems by simp
    with True len step show ?thesis by (subst Output_loop.simps) (simp add: Let_def)
  next
    case False
    define k where "k = (n - 64 + 63) div 64"
    have k: "(n + 63) div 64 = Suc k" using False by (simp add: k_def)
    have upt: "map f [0..<Suc j] = f 0 # map (\<lambda>i. f (Suc i)) [0..<j]" for f :: "nat \<Rightarrow> byte list" and j
      by (simp only: upt_conv_Cons map_Suc_upt [symmetric] zero_less_Suc) (simp add: comp_def del: upt_Suc)
    have "Output_loop (Seek (pos + 1) st) (n - 64) =
        (take (n - 64) (concat (map (\<lambda>i. chacha_block (Seek (pos + 1 + word_of_nat i) st)) [0..<k])), Seek (pos + 1 + word_of_nat k) st)"
      using less.IH [of "n - 64" "pos + 1"] False by (simp add: k_def)
    then show ?thesis
      using False len step unfolding k upt by (subst Output_loop.simps) (simp add: Let_def add.assoc)
  qed
qed

text \<open>
  C36. After \<^verbatim>\<open>Seek(pos)\<close>, \<^verbatim>\<open>Output\<close> returns the requested number of bytes of the keystream whose blocks are those of the
  64-bit counter values from \<^verbatim>\<open>pos\<close> on, and leaves the generator at the first block not used: the carry between the
  two words of the counter is right, also when the counter wraps.
\<close>

theorem ChaCha20_Output_keystream:
  assumes "length st = 16"
  shows "Output n (Seek pos st) =
    (take n (concat (map (\<lambda>i. chacha_block (Seek (pos + word_of_nat i) st)) [0..<(n + 63) div 64])),
     Seek (pos + word_of_nat ((n + 63) div 64)) st)"
proof (cases "n = 0")
  case False
  have "(Seek pos st)[12 := Seek p st ! 12, 13 := Seek p st ! 13] = Seek p st" for p
    using assms by (simp add: Seek_def list_update_swap)
  with Output_loop_Seek [OF assms, of n pos] False show ?thesis by (simp add: Output_def)
qed (simp add: Output_def)

theorem ChaCha20_Output_keystream_witness:
  "length (SetKey (replicate 32 7)) = 16 \<and>
   Output 100 (Seek 0xFFFFFFFF (SetKey (replicate 32 7))) =
     (take 100 (chacha_block (Seek 0xFFFFFFFF (SetKey (replicate 32 7))) @ chacha_block (Seek 0x100000000 (SetKey (replicate 32 7)))),
      Seek 0x100000001 (SetKey (replicate 32 7)))"
proof -
  have len: "length (SetKey (replicate 32 7)) = 16" by (simp add: SetKey_def)
  have "[0..<(100 + 63) div 64] = [0, 1]" by (simp add: upt_rec)
  with ChaCha20_Output_keystream [OF len, where n = 100 and pos = "0xFFFFFFFF"] len show ?thesis by simp
qed

end
