(* ===== verification/AES_CBC.thy ===== *)
theory AES_CBC
  imports Prelude
begin

text \<open>
  Cipher block chaining, \<^verbatim>\<open>CBCEncrypt\<close> and \<^verbatim>\<open>CBCDecrypt\<close> of \<^verbatim>\<open>src/crypto/aes.cpp\<close>. They are templates over the block cipher,
  which is an argument of the definitions here as there. Both return the number of bytes written, which is the
  length of the result; a return of zero is the empty list.
\<close>

definition AES_BLOCKSIZE :: nat where "AES_BLOCKSIZE = 16"

definition xor_bytes :: "byte list \<Rightarrow> byte list \<Rightarrow> byte list" where
  "xor_bytes a b = map2 (XOR) a b"

text \<open>The loop over the full blocks returns what it wrote, the last \<^verbatim>\<open>mixed\<close> and the data that remains.\<close>

function cbc_encrypt_blocks ::
  "(byte list \<Rightarrow> byte list) \<Rightarrow> byte list \<Rightarrow> byte list \<Rightarrow> byte list \<times> byte list \<times> byte list" where
  "cbc_encrypt_blocks enc mixed data =
    (if AES_BLOCKSIZE \<le> length data then
       let c = enc (xor_bytes mixed (take AES_BLOCKSIZE data));
           (out, mixed', rest) = cbc_encrypt_blocks enc c (drop AES_BLOCKSIZE data)
       in (c @ out, mixed', rest)
     else ([], mixed, data))"
  by pat_completeness auto
termination by (relation "measure (\<lambda>(enc, mixed, data). length data)") (auto simp: AES_BLOCKSIZE_def)

declare cbc_encrypt_blocks.simps [simp del]

definition CBCEncrypt :: "(byte list \<Rightarrow> byte list) \<Rightarrow> byte list \<Rightarrow> byte list \<Rightarrow> bool \<Rightarrow> byte list" where
  "CBCEncrypt enc iv data pad =
    (let padsize = length data mod AES_BLOCKSIZE
     in if data = [] then []
        else if \<not> pad \<and> padsize \<noteq> 0 then []
        else case cbc_encrypt_blocks enc iv data of (out, mixed, rest) \<Rightarrow>
          if pad then
            out @ enc (xor_bytes mixed (take padsize rest @ replicate (AES_BLOCKSIZE - padsize) (word_of_nat (AES_BLOCKSIZE - padsize))))
          else out)"

function cbc_decrypt_blocks :: "(byte list \<Rightarrow> byte list) \<Rightarrow> byte list \<Rightarrow> byte list \<Rightarrow> byte list" where
  "cbc_decrypt_blocks dec prev data =
    (if data \<noteq> [] then
       xor_bytes (dec (take AES_BLOCKSIZE data)) prev @ cbc_decrypt_blocks dec (take AES_BLOCKSIZE data) (drop AES_BLOCKSIZE data)
     else [])"
  by pat_completeness auto
termination by (relation "measure (\<lambda>(dec, prev, data). length data)") (auto simp: AES_BLOCKSIZE_def)

declare cbc_decrypt_blocks.simps [simp del]

text \<open>
  The padding check reads the last block from its end: \<open>i\<close> counts down from the block size, and the byte compared is
  the one at \<open>i\<close> places into the last block.
\<close>

definition padding_fails :: "byte list \<Rightarrow> nat \<Rightarrow> bool" where
  "padding_fails out padsize =
    fold (\<lambda>i fail. fail \<or> (i > AES_BLOCKSIZE - padsize \<and> unat (out ! (length out - 1 - (AES_BLOCKSIZE - i))) \<noteq> padsize))
      (rev [1..<Suc AES_BLOCKSIZE]) False"

definition CBCDecrypt :: "(byte list \<Rightarrow> byte list) \<Rightarrow> byte list \<Rightarrow> byte list \<Rightarrow> bool \<Rightarrow> byte list" where
  "CBCDecrypt dec iv data pad =
    (if data = [] then []
     else if length data mod AES_BLOCKSIZE \<noteq> 0 then []
     else let out = cbc_decrypt_blocks dec iv data
          in if pad then
               let padsize = unat (last out);
                   fail = (padsize = 0 \<or> padsize > AES_BLOCKSIZE);
                   padsize = padsize * (if fail then 0 else 1);
                   fail = (fail \<or> padding_fails out padsize);
                   written = length out - padsize
               in take (written * (if fail then 0 else 1)) out
             else out)"

section \<open>Round trip\<close>

lemma xor_bytes_cancel: "length a = length b \<Longrightarrow> xor_bytes (xor_bytes b a) b = a"
  by (induction a b rule: list_induct2) (simp_all add: xor_bytes_def xor.commute xor.left_commute)

lemma length_xor_bytes [simp]: "length (xor_bytes a b) = min (length a) (length b)"
  by (simp add: xor_bytes_def)

lemma fold_or: "fold (\<lambda>i fail. fail \<or> P i) xs b = (b \<or> (\<exists>i\<in>set xs. P i))"
  by (induction xs arbitrary: b) auto

lemma padding_ok:
  assumes "0 < k" "k \<le> AES_BLOCKSIZE"
  shows "\<not> padding_fails (m @ replicate k (word_of_nat k)) k"
proof -
  have "unat (word_of_nat k :: byte) = k" using assms by (simp add: unat_of_nat AES_BLOCKSIZE_def)
  then show ?thesis
    using assms unfolding padding_fails_def fold_or by (auto simp: AES_BLOCKSIZE_def nth_append)
qed

lemma cbc_decrypt_block:
  assumes "length c = AES_BLOCKSIZE"
  shows "cbc_decrypt_blocks dec prev (c @ u) = xor_bytes (dec c) prev @ cbc_decrypt_blocks dec c u"
  using assms by (subst cbc_decrypt_blocks.simps) (auto simp: AES_BLOCKSIZE_def)

text \<open>The full blocks decrypt to the data they came from, and chain to whatever follows.\<close>

lemma cbc_blocks_roundtrip:
  assumes cipher: "\<And>b. length b = AES_BLOCKSIZE \<Longrightarrow> length (enc b) = AES_BLOCKSIZE \<and> dec (enc b) = b"
    and iv: "length iv = AES_BLOCKSIZE" and run: "cbc_encrypt_blocks enc iv data = (out, mixed, r)"
  shows "length mixed = AES_BLOCKSIZE \<and> length r < AES_BLOCKSIZE \<and> AES_BLOCKSIZE dvd length out \<and>
    (\<exists>d. data = d @ r \<and> length d = length out \<and> (\<forall>u. cbc_decrypt_blocks dec iv (out @ u) = d @ cbc_decrypt_blocks dec mixed u))"
  using iv run
proof (induction "length data" arbitrary: data iv out mixed r rule: less_induct)
  case less
  show ?case
  proof (cases "AES_BLOCKSIZE \<le> length data")
    case True
    let ?b = "take AES_BLOCKSIZE data"
    define c where "c = enc (xor_bytes iv ?b)"
    have c: "length c = AES_BLOCKSIZE" "dec c = xor_bytes iv ?b"
      using cipher [of "xor_bytes iv ?b"] True less.prems(1) by (simp_all add: c_def)
    obtain out' where out': "cbc_encrypt_blocks enc c (drop AES_BLOCKSIZE data) = (out', mixed, r)" "out = c @ out'"
      using less.prems(2) True by (subst (asm) cbc_encrypt_blocks.simps) (auto simp: c_def Let_def split: prod.splits)
    have shorter: "length (drop AES_BLOCKSIZE data) < length data" using True by (simp add: AES_BLOCKSIZE_def)
    obtain d where "length mixed = AES_BLOCKSIZE" "length r < AES_BLOCKSIZE" "AES_BLOCKSIZE dvd length out'"
      "drop AES_BLOCKSIZE data = d @ r" "length d = length out'"
      "\<forall>u. cbc_decrypt_blocks dec c (out' @ u) = d @ cbc_decrypt_blocks dec mixed u"
      using less.hyps [OF _ c(1) out'(1)] shorter by blast
    moreover have "data = (?b @ d) @ r" using \<open>drop AES_BLOCKSIZE data = d @ r\<close> by (metis append_assoc append_take_drop_id)
    moreover have "xor_bytes (dec c) iv = ?b" unfolding c(2) by (rule xor_bytes_cancel) (simp add: True less.prems(1))
    ultimately show ?thesis using out'(2) c(1) True by (auto simp: cbc_decrypt_block)
  next
    case False
    then show ?thesis using less.prems by (subst (asm) cbc_encrypt_blocks.simps) auto
  qed
qed

text \<open>
  C37. Decrypting what \<^verbatim>\<open>CBCEncrypt\<close> wrote gives the data back, with the padding for data of any length, and without
  it for whole blocks: for any block cipher whose \<^verbatim>\<open>Decrypt\<close> inverts its \<^verbatim>\<open>Encrypt\<close> on blocks.
\<close>

theorem CBC_roundtrip:
  assumes cipher: "\<And>b. length b = AES_BLOCKSIZE \<Longrightarrow> length (enc b) = AES_BLOCKSIZE \<and> dec (enc b) = b"
    and iv: "length iv = AES_BLOCKSIZE" and data: "pad \<or> length data mod AES_BLOCKSIZE = 0"
  shows "CBCDecrypt dec iv (CBCEncrypt enc iv data pad) pad = data"
proof (cases "data = []")
  case False
  obtain out mixed r where run: "cbc_encrypt_blocks enc iv data = (out, mixed, r)" by (metis prod_cases3)
  obtain d where rt: "length mixed = AES_BLOCKSIZE" "length r < AES_BLOCKSIZE" "AES_BLOCKSIZE dvd length out"
    "data = d @ r" "length d = length out"
    "\<And>u. cbc_decrypt_blocks dec iv (out @ u) = d @ cbc_decrypt_blocks dec mixed u"
    using cbc_blocks_roundtrip [OF cipher iv run] by auto
  have r: "length data mod AES_BLOCKSIZE = length r" using rt(2-5) by (auto elim!: dvdE)
  show ?thesis
  proof (cases pad)
    case True
    define k where "k = AES_BLOCKSIZE - length r"
    define b where "b = r @ replicate k (word_of_nat k)"
    have "unat (word_of_nat n :: byte) = n" if "n \<le> AES_BLOCKSIZE" for n
      using that by (simp add: unat_of_nat AES_BLOCKSIZE_def)
    moreover have "0 < k" "k \<le> AES_BLOCKSIZE" using rt(2) by (auto simp: k_def)
    ultimately have k: "0 < k" "k \<le> AES_BLOCKSIZE" "unat (word_of_nat k :: byte) = k" by auto
    have b: "length b = AES_BLOCKSIZE" using rt(2) by (simp add: b_def k_def)
    define c where "c = enc (xor_bytes mixed b)"
    have c: "length c = AES_BLOCKSIZE" "xor_bytes (dec c) mixed = b"
      using cipher [of "xor_bytes mixed b"] rt(1) b xor_bytes_cancel [of b mixed] by (simp_all add: c_def)
    have "CBCEncrypt enc iv data pad = out @ c"
      using False True run r by (simp add: CBCEncrypt_def Let_def c_def b_def flip: k_def)
    moreover have "cbc_decrypt_blocks dec iv (out @ c) = d @ b"
      using rt(6) [of c] cbc_decrypt_block [OF c(1), of dec mixed "[]"] c(2) by (simp add: cbc_decrypt_blocks.simps)
    moreover have "\<not> padding_fails (d @ b) k" unfolding b_def using padding_ok [OF k(1,2), of "d @ r"] by simp
    moreover have "last (d @ b) = word_of_nat k" using k(1) by (simp add: b_def)
    moreover have "length (out @ c) mod AES_BLOCKSIZE = 0" "out @ c \<noteq> []" using rt(3) c(1) by (auto simp: AES_BLOCKSIZE_def)
    ultimately show ?thesis using True k rt(4) by (auto simp: CBCDecrypt_def Let_def b_def)
  next
    case nopad: False
    then have "r = []" using data r by simp
    moreover have "CBCEncrypt enc iv data pad = out" using False nopad data run by (simp add: CBCEncrypt_def Let_def)
    moreover have "cbc_decrypt_blocks dec iv out = d" using rt(6) [of "[]"] by (simp add: cbc_decrypt_blocks.simps)
    ultimately show ?thesis using False nopad rt(3-5) by (auto simp: CBCDecrypt_def Let_def)
  qed
qed (simp add: CBCEncrypt_def CBCDecrypt_def)

theorem CBC_roundtrip_witness:
  "length (replicate 16 (5 :: byte)) = AES_BLOCKSIZE \<and>
   CBCDecrypt rev (replicate 16 5) (CBCEncrypt rev (replicate 16 5) [1, 2, 3] True) True = [1, 2, 3]"
  using CBC_roundtrip [of rev rev "replicate 16 5" True "[1, 2, 3]"] by (simp add: AES_BLOCKSIZE_def)

end
