(* ===== verification/Block.thy ===== *)
theory Block
  imports Transaction Hashers
begin

text \<open>
  Block headers, blocks and locators, \<^verbatim>\<open>src/primitives/block.h\<close> and \<^verbatim>\<open>src/primitives/block.cpp\<close>: their fields, the wire format with the fields
  that depend on the version, and the block hash. The digest \<^verbatim>\<open>HashQuark\<close> of the headers before version 4 is a parameter.
\<close>

record CBlockHeader =
  bh_nVersion :: int
  bh_hashPrevBlock :: uint256
  bh_hashMerkleRoot :: uint256
  bh_nTime :: uint32
  bh_nBits :: uint32
  bh_nNonce :: uint32
  bh_nAccumulatorCheckpoint :: uint256
  bh_hashFinalSaplingRoot :: uint256

definition BLOCK_CURRENT_VERSION :: int where "BLOCK_CURRENT_VERSION = 9"

definition CBlockHeader_SetNull :: CBlockHeader where
  "CBlockHeader_SetNull =
    \<lparr>bh_nVersion = BLOCK_CURRENT_VERSION, bh_hashPrevBlock = 0, bh_hashMerkleRoot = 0, bh_nTime = 0, bh_nBits = 0,
     bh_nNonce = 0, bh_nAccumulatorCheckpoint = 0, bh_hashFinalSaplingRoot = 0\<rparr>"

definition CBlockHeader_IsNull :: "CBlockHeader \<Rightarrow> bool" where
  "CBlockHeader_IsNull h \<longleftrightarrow> bh_nBits h = 0"

definition ser_CBlockHeader :: "CBlockHeader \<Rightarrow> byte list" where
  "ser_CBlockHeader h =
    ser_int32 (bh_nVersion h) @ ser_uint256 (bh_hashPrevBlock h) @ ser_uint256 (bh_hashMerkleRoot h) @
    ser_uint32 (bh_nTime h) @ ser_uint32 (bh_nBits h) @ ser_uint32 (bh_nNonce h) @
    (if bh_nVersion h > 3 \<and> bh_nVersion h < 7 then ser_uint256 (bh_nAccumulatorCheckpoint h) else []) @
    (if bh_nVersion h \<ge> 8 then ser_uint256 (bh_hashFinalSaplingRoot h) else [])"

text \<open>The reader overwrites the fields of an object: a field that is not on the wire keeps its value.\<close>

definition unser_CBlockHeader :: "CBlockHeader \<Rightarrow> CBlockHeader reader" where
  "unser_CBlockHeader h0 =
    read_then unser_int32 (\<lambda>version.
    read_then unser_uint256 (\<lambda>prev.
    read_then unser_uint256 (\<lambda>merkle.
    read_then unser_uint32 (\<lambda>time.
    read_then unser_uint32 (\<lambda>bits.
    read_then unser_uint32 (\<lambda>nonce.
    read_then (if version > 3 \<and> version < 7 then unser_uint256 else read_return (bh_nAccumulatorCheckpoint h0)) (\<lambda>acc.
    read_then (if version \<ge> 8 then unser_uint256 else read_return (bh_hashFinalSaplingRoot h0)) (\<lambda>sapling.
    read_return
      \<lparr>bh_nVersion = version, bh_hashPrevBlock = prev, bh_hashMerkleRoot = merkle, bh_nTime = time, bh_nBits = bits,
       bh_nNonce = nonce, bh_nAccumulatorCheckpoint = acc, bh_hashFinalSaplingRoot = sapling\<rparr>))))))))"

text \<open>Before version 4 the six fields are laid out in memory as they are on the wire.\<close>

definition CBlockHeader_GetHash :: "(byte list \<Rightarrow> uint256) \<Rightarrow> byte list \<Rightarrow> CBlockHeader \<Rightarrow> uint256" where
  "CBlockHeader_GetHash HashQuark buf h =
    (if bh_nVersion h < 4
     then HashQuark (ser_int32 (bh_nVersion h) @ ser_uint256 (bh_hashPrevBlock h) @ ser_uint256 (bh_hashMerkleRoot h) @
       ser_uint32 (bh_nTime h) @ ser_uint32 (bh_nBits h) @ ser_uint32 (bh_nNonce h))
     else word_of_nat (le_nat (SerializeHash ser_CBlockHeader buf h)))"

definition GetBlockTime :: "CBlockHeader \<Rightarrow> int" where
  "GetBlockTime h = uint (bh_nTime h)"

record CBlock =
  blk_header :: CBlockHeader
  vtx :: "CTransaction list"
  vchBlockSig :: "byte list"
  fChecked :: bool

definition CBlock_SetNull :: CBlock where
  "CBlock_SetNull = \<lparr>blk_header = CBlockHeader_SetNull, vtx = [], vchBlockSig = [], fChecked = False\<rparr>"

definition CBlock_IsProofOfStake :: "CBlock \<Rightarrow> bool" where
  "CBlock_IsProofOfStake b \<longleftrightarrow> length (vtx b) > 1 \<and> IsCoinStake (vtx b ! 1)"

definition CBlock_IsProofOfWork :: "CBlock \<Rightarrow> bool" where
  "CBlock_IsProofOfWork b \<longleftrightarrow> \<not> CBlock_IsProofOfStake b"

definition CBlock_GetBlockHeader :: "CBlock \<Rightarrow> CBlockHeader" where
  "CBlock_GetBlockHeader b =
    (let h = blk_header b; version = bh_nVersion h
     in CBlockHeader_SetNull
       \<lparr>bh_nVersion := version, bh_hashPrevBlock := bh_hashPrevBlock h, bh_hashMerkleRoot := bh_hashMerkleRoot h,
        bh_nTime := bh_nTime h, bh_nBits := bh_nBits h, bh_nNonce := bh_nNonce h,
        bh_nAccumulatorCheckpoint := (if version > 3 \<and> version < 7 then bh_nAccumulatorCheckpoint h else 0),
        bh_hashFinalSaplingRoot := (if version \<ge> 8 then bh_hashFinalSaplingRoot h else 0)\<rparr>)"

definition ser_CBlock :: "CBlock \<Rightarrow> byte list" where
  "ser_CBlock b =
    ser_CBlockHeader (blk_header b) @ ser_vector SerializeTransaction (vtx b) @
    (if length (vtx b) > 1 \<and> IsCoinStake (vtx b ! 1) then ser_bytes (vchBlockSig b) else [])"

definition unser_CBlock :: "CBlock \<Rightarrow> CBlock reader" where
  "unser_CBlock b0 =
    read_then (unser_CBlockHeader (blk_header b0)) (\<lambda>h.
    read_then (unser_vector UnserializeTransaction) (\<lambda>txs.
    read_then (if length txs > 1 \<and> IsCoinStake (txs ! 1) then unser_bytes else read_return (vchBlockSig b0)) (\<lambda>sig.
    read_return (b0\<lparr>blk_header := h, vtx := txs, vchBlockSig := sig\<rparr>))))"

text \<open>A locator carries the version of the stream, which the reader ignores; hashing leaves it out.\<close>

definition ser_CBlockLocator :: "bool \<Rightarrow> int \<Rightarrow> uint256 list \<Rightarrow> byte list" where
  "ser_CBlockLocator gethash version vHave = (if gethash then [] else ser_int32 version) @ ser_vector ser_uint256 vHave"

definition unser_CBlockLocator :: "bool \<Rightarrow> uint256 list reader" where
  "unser_CBlockLocator gethash =
    (if gethash then unser_vector unser_uint256 else read_then unser_int32 (\<lambda>_. unser_vector unser_uint256))"

section \<open>Round trips\<close>

text \<open>A header whose fields off the wire are null, as the constructor and \<^verbatim>\<open>GetBlockHeader\<close> leave them.\<close>

definition header_ok :: "CBlockHeader \<Rightarrow> bool" where
  "header_ok h \<longleftrightarrow> int_ok 32 (bh_nVersion h) \<and>
    (bh_nVersion h > 3 \<and> bh_nVersion h < 7 \<or> bh_nAccumulatorCheckpoint h = 0) \<and>
    (bh_nVersion h \<ge> 8 \<or> bh_hashFinalSaplingRoot h = 0)"

definition block_ok :: "CBlock \<Rightarrow> bool" where
  "block_ok b \<longleftrightarrow> header_ok (blk_header b) \<and> length (vtx b) \<le> MAX_SIZE \<and> list_all tx_ok (vtx b) \<and>
    length (vchBlockSig b) \<le> MAX_SIZE \<and> (CBlock_IsProofOfStake b \<or> vchBlockSig b = []) \<and> \<not> fChecked b"

lemma read_then_return: "read_then (read_return x) f = f x"
  by (simp add: read_then_def read_return_def fun_eq_iff)

interpretation c_header: codec ser_CBlockHeader "unser_CBlockHeader CBlockHeader_SetNull" header_ok
proof
  fix h :: CBlockHeader and rest
  assume "header_ok h"
  then show "unser_CBlockHeader CBlockHeader_SetNull (ser_CBlockHeader h @ rest) = Inr (h, rest)"
    unfolding header_ok_def
    by (cases h) (auto simp: ser_CBlockHeader_def unser_CBlockHeader_def CBlockHeader_SetNull_def leaf_codecs
        c_int32.read_then_ser read_then_return read_return_def' split: if_splits)
qed

interpretation c_block: codec ser_CBlock "unser_CBlock CBlock_SetNull" block_ok
proof
  fix b :: CBlock and rest
  assume "block_ok b"
  then show "unser_CBlock CBlock_SetNull (ser_CBlock b @ rest) = Inr (b, rest)"
    unfolding block_ok_def CBlock_IsProofOfStake_def
    by (cases b) (auto simp: ser_CBlock_def unser_CBlock_def CBlock_SetNull_def c_header.read_then_ser c_txs.read_then_ser
        c_bytes.read_then_ser read_then_return read_return_def' split: if_splits)
qed

lemma header_ok_GetBlockHeader: "int_ok 32 (bh_nVersion (blk_header b)) \<Longrightarrow> header_ok (CBlock_GetBlockHeader b)"
  by (auto simp: header_ok_def CBlock_GetBlockHeader_def CBlockHeader_SetNull_def Let_def)

text \<open>Dropping the fields off the wire changes neither the serialized header nor the hash.\<close>

lemma ser_GetBlockHeader: "ser_CBlockHeader (CBlock_GetBlockHeader b) = ser_CBlockHeader (blk_header b)"
  by (simp add: ser_CBlockHeader_def CBlock_GetBlockHeader_def CBlockHeader_SetNull_def Let_def)

lemma GetHash_GetBlockHeader: "CBlockHeader_GetHash Q buf (CBlock_GetBlockHeader b) = CBlockHeader_GetHash Q buf (blk_header b)"
  by (simp add: CBlockHeader_GetHash_def SerializeHash_def ser_GetBlockHeader)
     (simp add: CBlock_GetBlockHeader_def CBlockHeader_SetNull_def Let_def)

text \<open>
  C25. A block survives the network and the disk: what is written for a header or a block, with the checkpoint only for
  versions 4 to 6, the Sapling root only from version 8 and the signature only for a proof of stake, is read back
  as the same object, with the rest of the stream left untouched.
\<close>

theorem block_roundtrip:
  assumes "block_ok b"
  shows "unser_CBlock CBlock_SetNull (ser_CBlock b @ tail) = Inr (b, tail) \<and>
    unser_CBlockHeader CBlockHeader_SetNull (ser_CBlockHeader (CBlock_GetBlockHeader b) @ tail) = Inr (CBlock_GetBlockHeader b, tail)"
  using assms c_block.roundtrip [OF assms, of tail] c_header.roundtrip [OF header_ok_GetBlockHeader, of b tail]
  by (simp add: block_ok_def header_ok_def)

definition sample_block :: CBlock where
  "sample_block = CBlock_SetNull\<lparr>blk_header := CBlockHeader_SetNull\<lparr>bh_nVersion := 5, bh_nBits := 0x1e0ffff0, bh_nAccumulatorCheckpoint := 7\<rparr>, vtx := [sample_tx]\<rparr>"

lemma sample_block_ok: "block_ok sample_block"
proof -
  have "tx_ok sample_tx"
    by (simp add: tx_ok_def sample_tx_def txin_ok_def txout_ok_def sapling_ok_def SaplingTxData_empty_def int_ok_def
        MAX_SIZE_def CTxOut_new_def isSaplingVersion_def)
  then show ?thesis
    by (simp add: block_ok_def sample_block_def CBlock_SetNull_def CBlockHeader_SetNull_def header_ok_def int_ok_def MAX_SIZE_def
        CBlock_IsProofOfStake_def)
qed

lemma block_roundtrip_witness:
  "unser_CBlock CBlock_SetNull (ser_CBlock sample_block @ [1, 2]) = Inr (sample_block, [1, 2]) \<and>
   bh_nAccumulatorCheckpoint (CBlock_GetBlockHeader sample_block) = 7"
proof -
  from block_roundtrip [OF sample_block_ok, of "[1, 2]"] show ?thesis
    by (simp add: sample_block_def CBlock_GetBlockHeader_def CBlock_SetNull_def CBlockHeader_SetNull_def)
qed

end
