(* ===== verification/Params.thy ===== *)
theory Params
  imports Transaction
begin

text \<open>
  The consensus parameters and the schedule of network upgrades, \<^verbatim>\<open>src/consensus/params.h\<close> and \<^verbatim>\<open>src/consensus/upgrades.cpp\<close>. The
  values of \<^verbatim>\<open>src/chainparams.cpp\<close> are the fields of the record \<open>Params\<close>, which every rule takes as an argument. A height
  that a caller must keep from being negative is a natural number, so the assertion on it always holds.
\<close>

datatype UpgradeIndex =
    BASE_NETWORK | UPGRADE_POS | UPGRADE_POS_V2 | UPGRADE_ZC | UPGRADE_ZC_V2 | UPGRADE_BIP65 | UPGRADE_ZC_PUBLIC
  | UPGRADE_V3_4 | UPGRADE_V4_0 | UPGRADE_V5_0 | UPGRADE_V6_0 | UPGRADE_TESTDUMMY

definition upgrade_indices :: "UpgradeIndex list" where
  "upgrade_indices =
    [BASE_NETWORK, UPGRADE_POS, UPGRADE_POS_V2, UPGRADE_ZC, UPGRADE_ZC_V2, UPGRADE_BIP65, UPGRADE_ZC_PUBLIC,
     UPGRADE_V3_4, UPGRADE_V4_0, UPGRADE_V5_0, UPGRADE_V6_0, UPGRADE_TESTDUMMY]"

record NetworkUpgrade =
  nProtocolVersion :: int
  nActivationHeight :: int
  hashActivationBlock :: "uint256 option"

definition ALWAYS_ACTIVE :: int where "ALWAYS_ACTIVE = 0"
definition NO_ACTIVATION_HEIGHT :: int where "NO_ACTIVATION_HEIGHT = - 1"

record Params =
  hashGenesisBlock :: uint256
  powLimit :: uint256
  posLimitV1 :: uint256
  posLimitV2 :: uint256
  nBudgetCycleBlocks :: int
  nCoinbaseMaturity :: int
  nFutureTimeDriftPoW :: int
  nFutureTimeDriftPoS :: int
  nMaxMoneyOut :: CAmount
  nStakeMinAge :: int
  nStakeMinDepth :: int
  nTargetTimespan :: int
  nTargetTimespanV2 :: int
  nTargetSpacing :: int
  nTimeSlotLength :: int
  nMaxProposalPayments :: int
  nDevFee :: int
  height_last_invalid_UTXO :: int
  height_last_ZC_AccumCheckpoint :: int
  nPassionBadBlockTime :: int
  nPassionBadBlockBits :: uint32
  vUpgrades :: "UpgradeIndex \<Rightarrow> NetworkUpgrade"

section \<open>Upgrades\<close>

datatype UpgradeState = UPGRADE_DISABLED | UPGRADE_PENDING | UPGRADE_ACTIVE

definition NetworkUpgradeState :: "nat \<Rightarrow> Params \<Rightarrow> UpgradeIndex \<Rightarrow> UpgradeState" where
  "NetworkUpgradeState nHeight params idx =
    (let act = nActivationHeight (vUpgrades params idx)
     in if act = NO_ACTIVATION_HEIGHT then UPGRADE_DISABLED
        else if int nHeight \<ge> act then UPGRADE_ACTIVE else UPGRADE_PENDING)"

definition NetworkUpgradeActive :: "nat \<Rightarrow> Params \<Rightarrow> UpgradeIndex \<Rightarrow> bool" where
  "NetworkUpgradeActive nHeight params idx \<longleftrightarrow> NetworkUpgradeState nHeight params idx = UPGRADE_ACTIVE"

text \<open>The loops count through the enumeration, \<open>CurrentEpoch\<close> downwards; \<open>BASE_NETWORK\<close> is left out of both.\<close>

definition CurrentEpoch :: "nat \<Rightarrow> Params \<Rightarrow> UpgradeIndex" where
  "CurrentEpoch nHeight params =
    (case find (NetworkUpgradeActive nHeight params) (rev (tl upgrade_indices)) of Some idx \<Rightarrow> idx | None \<Rightarrow> BASE_NETWORK)"

definition IsActivationHeight :: "int \<Rightarrow> Params \<Rightarrow> UpgradeIndex \<Rightarrow> bool" where
  "IsActivationHeight nHeight params idx \<longleftrightarrow>
    (if idx = BASE_NETWORK then False else nHeight \<ge> 0 \<and> nHeight = nActivationHeight (vUpgrades params idx))"

definition IsActivationHeightForAnyUpgrade :: "int \<Rightarrow> Params \<Rightarrow> bool" where
  "IsActivationHeightForAnyUpgrade nHeight params \<longleftrightarrow>
    (if nHeight < 0 then False
     else list_ex (\<lambda>idx. nHeight = nActivationHeight (vUpgrades params idx)) (tl upgrade_indices))"

definition NextEpoch :: "int \<Rightarrow> Params \<Rightarrow> UpgradeIndex option" where
  "NextEpoch nHeight params =
    (if nHeight < 0 then None
     else find (\<lambda>idx. NetworkUpgradeState (nat nHeight) params idx = UPGRADE_PENDING) (tl upgrade_indices))"

definition NextActivationHeight :: "int \<Rightarrow> Params \<Rightarrow> int option" where
  "NextActivationHeight nHeight params = map_option (\<lambda>idx. nActivationHeight (vUpgrades params idx)) (NextEpoch nHeight params)"

section \<open>Rules with a parameter\<close>

definition IsTimeProtocolV2 :: "Params \<Rightarrow> nat \<Rightarrow> bool" where
  "IsTimeProtocolV2 params nHeight \<longleftrightarrow> NetworkUpgradeActive nHeight params UPGRADE_V4_0"

definition TargetTimespan :: "Params \<Rightarrow> bool \<Rightarrow> int" where
  "TargetTimespan params fV2 = (if fV2 then nTargetTimespanV2 params else nTargetTimespan params)"

definition ProofOfStakeLimit :: "Params \<Rightarrow> bool \<Rightarrow> uint256" where
  "ProofOfStakeLimit params fV2 = (if fV2 then posLimitV2 params else posLimitV1 params)"

definition MoneyRange :: "Params \<Rightarrow> CAmount \<Rightarrow> bool" where
  "MoneyRange params v \<longleftrightarrow> v \<ge> 0 \<and> v \<le> nMaxMoneyOut params"

definition FutureBlockTimeDrift :: "Params \<Rightarrow> nat \<Rightarrow> int" where
  "FutureBlockTimeDrift params nHeight =
    (if IsTimeProtocolV2 params nHeight then nTimeSlotLength params - 1
     else if NetworkUpgradeActive nHeight params UPGRADE_POS then nFutureTimeDriftPoS params else nFutureTimeDriftPoW params)"

text \<open>Block times are not negative, so the remainder of C++ is the remainder of the integers.\<close>

definition IsValidBlockTimeStamp :: "Params \<Rightarrow> nat \<Rightarrow> nat \<Rightarrow> bool" where
  "IsValidBlockTimeStamp params nTime nHeight \<longleftrightarrow>
    (if \<not> IsTimeProtocolV2 params nHeight then True else int nTime mod nTimeSlotLength params = 0)"

text \<open>The age is compared in unsigned arithmetic of 32 bits, into which \<^verbatim>\<open>nStakeMinAge\<close> is converted.\<close>

definition HasStakeMinAgeOrDepth :: "Params \<Rightarrow> nat \<Rightarrow> uint32 \<Rightarrow> nat \<Rightarrow> uint32 \<Rightarrow> bool" where
  "HasStakeMinAgeOrDepth params contextHeight contextTime utxoFromBlockHeight utxoFromBlockTime \<longleftrightarrow>
    (if \<not> NetworkUpgradeActive contextHeight params UPGRADE_V3_4
     then utxoFromBlockTime + word_of_int (nStakeMinAge params) \<le> contextTime
     else int contextHeight - int utxoFromBlockHeight \<ge> nStakeMinDepth params)"

section \<open>The schedule\<close>

lemma active_mono: "NetworkUpgradeActive h params idx \<Longrightarrow> h \<le> h' \<Longrightarrow> NetworkUpgradeActive h' params idx"
  by (auto simp: NetworkUpgradeActive_def NetworkUpgradeState_def Let_def split: if_splits)

text \<open>Between two heights no upgrade activates exactly when no activation height lies between them.\<close>

lemma activation_step:
  assumes "\<forall>idx. - 1 \<le> nActivationHeight (vUpgrades params idx)"
  shows "NetworkUpgradeActive (Suc h) params idx \<longleftrightarrow>
    NetworkUpgradeActive h params idx \<or> nActivationHeight (vUpgrades params idx) = int (Suc h)"
  by (auto simp: NetworkUpgradeActive_def NetworkUpgradeState_def Let_def NO_ACTIVATION_HEIGHT_def)

end
