(* ===== verification/Chain_Index.thy ===== *)
theory Chain_Index
  imports Block Params "HOL-Library.Monad_Syntax"
begin

text \<open>
  The entries of the block index, \<^verbatim>\<open>src/chain.h\<close> and \<^verbatim>\<open>src/chain.cpp\<close>, with their skip list. Entries are objects that point to each
  other, so they live in a store from addresses to entries; a null pointer is \<open>None\<close>. An operation that follows a null or
  dangling pointer, or fails an assertion, is undefined: its result is \<open>None\<close>. A height is never negative and is a natural number.
\<close>

section \<open>Index entries\<close>

type_synonym ptr = nat

record CBlockIndex =
  phashBlock :: "uint256 option"
  pprev :: "ptr option"
  pskip :: "ptr option"
  nHeight :: nat
  nFile :: int
  nDataPos :: uint32
  nUndoPos :: uint32
  nChainWork :: uint256
  nTx :: uint32
  nChainTx :: uint32
  nStatus :: uint32
  vStakeModifier :: "byte list"
  nFlags :: uint32
  nSaplingValue :: int
  nChainSaplingValue :: "int option"
  bi_nVersion :: int
  bi_hashMerkleRoot :: uint256
  bi_hashFinalSaplingRoot :: uint256
  bi_nTime :: uint32
  bi_nBits :: uint32
  bi_nNonce :: uint32
  bi_nAccumulatorCheckpoint :: uint256
  nSequenceId :: uint32
  nTimeMax :: uint32

type_synonym block_store = "ptr \<rightharpoonup> CBlockIndex"

definition CBlockIndex_new :: CBlockIndex where
  "CBlockIndex_new =
    \<lparr>phashBlock = None, pprev = None, pskip = None, nHeight = 0, nFile = 0, nDataPos = 0, nUndoPos = 0, nChainWork = 0, nTx = 0,
     nChainTx = 0, nStatus = 0, vStakeModifier = [], nFlags = 0, nSaplingValue = 0, nChainSaplingValue = None, bi_nVersion = 0,
     bi_hashMerkleRoot = 0, bi_hashFinalSaplingRoot = 0, bi_nTime = 0, bi_nBits = 0, bi_nNonce = 0,
     bi_nAccumulatorCheckpoint = 0, nSequenceId = 0, nTimeMax = 0\<rparr>"

text \<open>The flags of \<^verbatim>\<open>enum BlockStatus\<close> and of \<^verbatim>\<open>nFlags\<close>.\<close>

definition BLOCK_VALID_HEADER :: uint32 where "BLOCK_VALID_HEADER = 1"
definition BLOCK_VALID_TREE :: uint32 where "BLOCK_VALID_TREE = 2"
definition BLOCK_VALID_TRANSACTIONS :: uint32 where "BLOCK_VALID_TRANSACTIONS = 3"
definition BLOCK_VALID_CHAIN :: uint32 where "BLOCK_VALID_CHAIN = 4"
definition BLOCK_VALID_SCRIPTS :: uint32 where "BLOCK_VALID_SCRIPTS = 5"

definition BLOCK_VALID_MASK :: uint32 where
  "BLOCK_VALID_MASK =
    BLOCK_VALID_HEADER OR BLOCK_VALID_TREE OR BLOCK_VALID_TRANSACTIONS OR BLOCK_VALID_CHAIN OR BLOCK_VALID_SCRIPTS"

definition BLOCK_HAVE_DATA :: uint32 where "BLOCK_HAVE_DATA = 8"
definition BLOCK_HAVE_UNDO :: uint32 where "BLOCK_HAVE_UNDO = 16"
definition BLOCK_FAILED_VALID :: uint32 where "BLOCK_FAILED_VALID = 32"
definition BLOCK_FAILED_CHILD :: uint32 where "BLOCK_FAILED_CHILD = 64"
definition BLOCK_FAILED_MASK :: uint32 where "BLOCK_FAILED_MASK = BLOCK_FAILED_VALID OR BLOCK_FAILED_CHILD"

definition BLOCK_PROOF_OF_STAKE :: uint32 where "BLOCK_PROOF_OF_STAKE = push_bit 0 1"
definition BLOCK_STAKE_ENTROPY :: uint32 where "BLOCK_STAKE_ENTROPY = push_bit 1 1"
definition BLOCK_STAKE_MODIFIER :: uint32 where "BLOCK_STAKE_MODIFIER = push_bit 2 1"

lemmas status_defs = BLOCK_VALID_HEADER_def BLOCK_VALID_TREE_def BLOCK_VALID_TRANSACTIONS_def BLOCK_VALID_CHAIN_def
  BLOCK_VALID_SCRIPTS_def BLOCK_VALID_MASK_def BLOCK_HAVE_DATA_def BLOCK_HAVE_UNDO_def BLOCK_FAILED_VALID_def
  BLOCK_FAILED_CHILD_def BLOCK_FAILED_MASK_def

definition bi_IsProofOfStake :: "CBlockIndex \<Rightarrow> bool" where
  "bi_IsProofOfStake b \<longleftrightarrow> nFlags b AND BLOCK_PROOF_OF_STAKE \<noteq> 0"

definition SetProofOfStake :: "CBlockIndex \<Rightarrow> CBlockIndex" where
  "SetProofOfStake b = b\<lparr>nFlags := nFlags b OR BLOCK_PROOF_OF_STAKE\<rparr>"

definition GeneratedStakeModifier :: "CBlockIndex \<Rightarrow> bool" where
  "GeneratedStakeModifier b \<longleftrightarrow> nFlags b AND BLOCK_STAKE_MODIFIER \<noteq> 0"

definition bi_GetBlockTime :: "CBlockIndex \<Rightarrow> int" where
  "bi_GetBlockTime b = uint (bi_nTime b)"

definition CBlockIndex_of_block :: "CBlock \<Rightarrow> CBlockIndex" where
  "CBlockIndex_of_block block =
    (let h = blk_header block;
         b = CBlockIndex_new
           \<lparr>bi_nVersion := bh_nVersion h, bi_hashMerkleRoot := bh_hashMerkleRoot h,
            bi_hashFinalSaplingRoot := bh_hashFinalSaplingRoot h, bi_nTime := bh_nTime h, bi_nBits := bh_nBits h, bi_nNonce := bh_nNonce h\<rparr>;
         b = (if bh_nVersion h > 3 \<and> bh_nVersion h < 7 then b\<lparr>bi_nAccumulatorCheckpoint := bh_nAccumulatorCheckpoint h\<rparr> else b)
     in if CBlock_IsProofOfStake block then SetProofOfStake b else b)"

section \<open>Positions, validity and values\<close>

record CDiskBlockPos =
  pos_nFile :: int
  pos_nPos :: uint32

definition CDiskBlockPos_SetNull :: CDiskBlockPos where "CDiskBlockPos_SetNull = \<lparr>pos_nFile = - 1, pos_nPos = 0\<rparr>"

definition CDiskBlockPos_IsNull :: "CDiskBlockPos \<Rightarrow> bool" where
  "CDiskBlockPos_IsNull pos \<longleftrightarrow> pos_nFile pos = - 1"

definition GetBlockPos :: "CBlockIndex \<Rightarrow> CDiskBlockPos" where
  "GetBlockPos b = (if nStatus b AND BLOCK_HAVE_DATA \<noteq> 0 then \<lparr>pos_nFile = nFile b, pos_nPos = nDataPos b\<rparr> else CDiskBlockPos_SetNull)"

definition GetUndoPos :: "CBlockIndex \<Rightarrow> CDiskBlockPos" where
  "GetUndoPos b = (if nStatus b AND BLOCK_HAVE_UNDO \<noteq> 0 then \<lparr>pos_nFile = nFile b, pos_nPos = nUndoPos b\<rparr> else CDiskBlockPos_SetNull)"

definition bi_IsValid :: "uint32 \<Rightarrow> CBlockIndex \<Rightarrow> bool option" where
  "bi_IsValid nUpTo b =
    (if nUpTo AND NOT BLOCK_VALID_MASK \<noteq> 0 then None
     else if nStatus b AND BLOCK_FAILED_MASK \<noteq> 0 then Some False
     else Some (nStatus b AND BLOCK_VALID_MASK \<ge> nUpTo))"

definition RaiseValidity :: "uint32 \<Rightarrow> CBlockIndex \<Rightarrow> (bool \<times> CBlockIndex) option" where
  "RaiseValidity nUpTo b =
    (if nUpTo AND NOT BLOCK_VALID_MASK \<noteq> 0 then None
     else if nStatus b AND BLOCK_FAILED_MASK \<noteq> 0 then Some (False, b)
     else if nStatus b AND BLOCK_VALID_MASK < nUpTo
       then Some (True, b\<lparr>nStatus := (nStatus b AND NOT BLOCK_VALID_MASK) OR nUpTo\<rparr>)
     else Some (False, b))"

definition SetChainSaplingValue :: "block_store \<Rightarrow> CBlockIndex \<Rightarrow> CBlockIndex option" where
  "SetChainSaplingValue st b =
    (case pprev b of
       None \<Rightarrow> Some (b\<lparr>nChainSaplingValue := Some (nSaplingValue b)\<rparr>)
     | Some q \<Rightarrow> do {
         prev \<leftarrow> st q;
         Some (b\<lparr>nChainSaplingValue := map_option (\<lambda>v. wrap64 (v + nSaplingValue b)) (nChainSaplingValue prev)\<rparr>)
       })"

definition bi_GetBlockHeader :: "block_store \<Rightarrow> CBlockIndex \<Rightarrow> CBlockHeader option" where
  "bi_GetBlockHeader st b = do {
     prev \<leftarrow> (case pprev b of None \<Rightarrow> Some 0 | Some q \<Rightarrow> do { b' \<leftarrow> st q; phashBlock b' });
     Some (CBlockHeader_SetNull
       \<lparr>bh_nVersion := bi_nVersion b, bh_hashPrevBlock := prev, bh_hashMerkleRoot := bi_hashMerkleRoot b,
        bh_nTime := bi_nTime b, bh_nBits := bi_nBits b, bh_nNonce := bi_nNonce b,
        bh_nAccumulatorCheckpoint := (if bi_nVersion b > 3 \<and> bi_nVersion b < 7 then bi_nAccumulatorCheckpoint b else 0),
        bh_hashFinalSaplingRoot := (if bi_nVersion b \<ge> 8 then bi_hashFinalSaplingRoot b else 0)\<rparr>)
   }"

section \<open>Times\<close>

text \<open>The times of up to \<open>i\<close> blocks, the given one first.\<close>

definition nMedianTimeSpan :: nat where "nMedianTimeSpan = 11"

fun past_times :: "block_store \<Rightarrow> nat \<Rightarrow> ptr option \<Rightarrow> int list option" where
  "past_times st (Suc i) (Some p) = do { b \<leftarrow> st p; ts \<leftarrow> past_times st i (pprev b); Some (bi_GetBlockTime b # ts) }"
| "past_times st _ _ = Some []"

definition GetMedianTimePast :: "block_store \<Rightarrow> ptr \<Rightarrow> int option" where
  "GetMedianTimePast st p = do {
     ts \<leftarrow> past_times st nMedianTimeSpan (Some p);
     let pbegin = sort (rev ts);
     Some (pbegin ! (length pbegin div 2))
   }"

definition MaxFutureBlockTime :: "Params \<Rightarrow> int \<Rightarrow> CBlockIndex \<Rightarrow> int" where
  "MaxFutureBlockTime params GetAdjustedTime b = GetAdjustedTime + FutureBlockTimeDrift params (nHeight b + 1)"

definition MinPastBlockTime :: "Params \<Rightarrow> block_store \<Rightarrow> ptr \<Rightarrow> int option" where
  "MinPastBlockTime params st p = do {
     b \<leftarrow> st p;
     if \<not> IsTimeProtocolV2 params (nHeight b + 1) then GetMedianTimePast st p
     else if int (nHeight b + 1) = nActivationHeight (vUpgrades params UPGRADE_V4_0)
       then Some (bi_GetBlockTime b - FutureBlockTimeDrift params (nHeight b) + FutureBlockTimeDrift params (nHeight b + 1))
     else Some (bi_GetBlockTime b)
   }"

section \<open>The skip list\<close>

definition InvertLowestOne :: "nat \<Rightarrow> nat" where
  "InvertLowestOne n = n AND (n - 1)"

definition GetSkipHeight :: "nat \<Rightarrow> nat" where
  "GetSkipHeight height =
    (if height < 2 then 0
     else if height AND 1 \<noteq> 0 then InvertLowestOne (InvertLowestOne (height - 1)) + 1
     else InvertLowestOne height)"

lemma InvertLowestOne_le: "InvertLowestOne n \<le> n - 1"
proof -
  have "int n AND int (n - 1) \<le> int (n - 1)" by (rule AND_upper2) simp
  then show ?thesis unfolding InvertLowestOne_def by (simp only: of_nat_and_eq [symmetric] of_nat_le_iff)
qed

lemma GetSkipHeight_less: "0 < height \<Longrightarrow> GetSkipHeight height < height"
  using InvertLowestOne_le [of "InvertLowestOne (height - 1)"] InvertLowestOne_le [of "height - 1"] InvertLowestOne_le [of height]
  by (auto simp: GetSkipHeight_def)

text \<open>The loop of \<^verbatim>\<open>GetAncestor\<close>: \<^verbatim>\<open>pindexWalk\<close> and \<^verbatim>\<open>heightWalk\<close> move back together.\<close>

function GetAncestor_loop :: "block_store \<Rightarrow> ptr option \<Rightarrow> nat \<Rightarrow> nat \<Rightarrow> ptr option option" where
  "GetAncestor_loop st pindexWalk heightWalk height =
    (if heightWalk > height then
       let heightSkip = GetSkipHeight heightWalk; heightSkipPrev = GetSkipHeight (heightWalk - 1)
       in do {
         p \<leftarrow> pindexWalk;
         b \<leftarrow> st p;
         if heightSkip = height \<or> heightSkip > height \<and> \<not> (heightSkipPrev < heightSkip - 2 \<and> heightSkipPrev \<ge> height)
         then GetAncestor_loop st (pskip b) heightSkip height
         else GetAncestor_loop st (pprev b) (heightWalk - 1) height
       }
     else Some pindexWalk)"
  by pat_completeness auto
termination
  by (relation "measure (\<lambda>(st, p, heightWalk, height). heightWalk)") (auto intro: GetSkipHeight_less)

declare GetAncestor_loop.simps [simp del]

definition GetAncestor :: "block_store \<Rightarrow> ptr \<Rightarrow> int \<Rightarrow> ptr option option" where
  "GetAncestor st p height = do {
     b \<leftarrow> st p;
     if height > int (nHeight b) \<or> height < 0 then Some None
     else GetAncestor_loop st (Some p) (nHeight b) (nat height)
   }"

text \<open>\<^verbatim>\<open>BuildSkip\<close> of an entry, which may not be in the store yet.\<close>

definition BuildSkip :: "block_store \<Rightarrow> CBlockIndex \<Rightarrow> CBlockIndex option" where
  "BuildSkip st b =
    (case pprev b of
       None \<Rightarrow> Some b
     | Some q \<Rightarrow> do { s \<leftarrow> GetAncestor st q (int (GetSkipHeight (nHeight b))); Some (b\<lparr>pskip := s\<rparr>) })"

section \<open>The tree of blocks\<close>

text \<open>The entry \<open>n\<close> steps back.\<close>

fun up :: "block_store \<Rightarrow> nat \<Rightarrow> ptr \<Rightarrow> ptr option" where
  "up st 0 p = Some p"
| "up st (Suc n) p = do { b \<leftarrow> st p; q \<leftarrow> pprev b; up st n q }"

definition entry_ok :: "block_store \<Rightarrow> CBlockIndex \<Rightarrow> bool" where
  "entry_ok st b \<longleftrightarrow>
    (case pprev b of
       None \<Rightarrow> nHeight b = 0
     | Some q \<Rightarrow>
        (case st q of
           None \<Rightarrow> False
         | Some b' \<Rightarrow> nHeight b = Suc (nHeight b') \<and> pskip b = up st (nHeight b' - GetSkipHeight (nHeight b)) q))"

definition index_ok :: "block_store \<Rightarrow> bool" where
  "index_ok st \<longleftrightarrow> (\<forall>p b. st p = Some b \<longrightarrow> entry_ok st b)"

text \<open>Properties that relate each entry to its parent, such as the largest time on the way to a block.\<close>

definition parent :: "block_store \<Rightarrow> CBlockIndex \<Rightarrow> CBlockIndex option" where
  "parent st b = (case pprev b of None \<Rightarrow> None | Some q \<Rightarrow> st q)"

definition local_ok :: "(CBlockIndex \<Rightarrow> CBlockIndex option \<Rightarrow> bool) \<Rightarrow> block_store \<Rightarrow> bool" where
  "local_ok R st \<longleftrightarrow> (\<forall>p b. st p = Some b \<longrightarrow> R b (parent st b))"

definition times_ok :: "block_store \<Rightarrow> bool" where
  "times_ok = local_ok (\<lambda>b pb. nTimeMax b = (case pb of None \<Rightarrow> bi_nTime b | Some c \<Rightarrow> max (nTimeMax c) (bi_nTime b)))"

lemma index_ok_prev:
  assumes "index_ok st" "st p = Some b" "pprev b = Some q"
  obtains b' where "st q = Some b'" "nHeight b = Suc (nHeight b')" "pskip b = up st (nHeight b' - GetSkipHeight (nHeight b)) q"
  using assms by (force simp: index_ok_def entry_ok_def split: option.splits)

lemma index_ok_genesis: "index_ok st \<Longrightarrow> st p = Some b \<Longrightarrow> pprev b = None \<Longrightarrow> nHeight b = 0"
  by (force simp: index_ok_def entry_ok_def)

lemma index_ok_zero:
  assumes "index_ok st" "st p = Some b"
  shows "nHeight b = 0 \<longleftrightarrow> pprev b = None"
proof (cases "pprev b")
  case (Some q)
  obtain b' where "st q = Some b'" "nHeight b = Suc (nHeight b')" by (rule index_ok_prev [OF assms Some])
  with Some show ?thesis by simp
qed (use index_ok_genesis [OF assms] in simp)

lemma up_total:
  assumes "index_ok st" "st p = Some b" "n \<le> nHeight b"
  obtains q b' where "up st n p = Some q" "st q = Some b'" "nHeight b' = nHeight b - n"
  using assms(2,3)
proof (induction n arbitrary: p b thesis)
  case (Suc n)
  obtain q where q: "pprev b = Some q" using index_ok_genesis [OF assms(1) Suc.prems(2)] Suc.prems(3) by (cases "pprev b") auto
  obtain b' where b': "st q = Some b'" "nHeight b = Suc (nHeight b')" by (rule index_ok_prev [OF assms(1) Suc.prems(2) q])
  show ?case
    by (rule Suc.IH [of q b']) (use Suc.prems q b' in auto)
qed simp

lemma up_add: "up st (m + n) p = up st m p \<bind> up st n"
proof (induction m arbitrary: p)
  case (Suc m)
  then show ?case by (cases "st p") (auto split: Option.bind_splits)
qed simp

lemma GetAncestor_loop_up:
  assumes ok: "index_ok st" and "st p = Some b" "h \<le> nHeight b"
  shows "GetAncestor_loop st (Some p) (nHeight b) h = Some (up st (nHeight b - h) p)"
  using assms(2,3)
proof (induction "nHeight b" arbitrary: p b rule: less_induct)
  case less
  show ?case
  proof (cases "h < nHeight b")
    case True
    obtain q where q: "pprev b = Some q" using index_ok_genesis [OF ok less.prems(1)] True by (cases "pprev b") auto
    obtain b' where b': "st q = Some b'" "nHeight b = Suc (nHeight b')" "pskip b = up st (nHeight b' - GetSkipHeight (nHeight b)) q"
      by (rule index_ok_prev [OF ok less.prems(1) q])
    let ?s = "GetSkipHeight (nHeight b)"
    have s: "?s \<le> nHeight b'" using GetSkipHeight_less [of "nHeight b"] b'(2) by simp
    obtain r c where r: "up st (nHeight b' - ?s) q = Some r" "st r = Some c" "nHeight c = ?s"
      by (rule up_total [OF ok b'(1), of "nHeight b' - ?s"]) (use s in auto)
    have skip: "up st (nHeight b - h) p = up st (?s - h) r" if "h \<le> ?s"
    proof -
      have "nHeight b - h = Suc ((nHeight b' - ?s) + (?s - h))" using that s b'(2) by simp
      then show ?thesis using less.prems(1) q r(1) by (simp add: up_add)
    qed
    have prev: "up st (nHeight b - h) p = up st (nHeight b' - h) q"
    proof -
      have "nHeight b - h = Suc (nHeight b' - h)" using True b'(2) by simp
      then show ?thesis using less.prems(1) q by simp
    qed
    show ?thesis
      using less.hyps [of c r] less.hyps [of b' q] s r b' skip prev True less.prems q
      by (subst GetAncestor_loop.simps) (auto simp: Let_def less_Suc_eq_le)
  qed (use less.prems in \<open>simp add: GetAncestor_loop.simps\<close>)
qed

lemma GetAncestor_up:
  assumes "index_ok st" "st p = Some b"
  shows "GetAncestor st p height =
    Some (if height > int (nHeight b) \<or> height < 0 then None else up st (nHeight b - nat height) p)"
  using GetAncestor_loop_up [OF assms, of "nat height"] assms(2) by (auto simp: GetAncestor_def)

section \<open>Walking back\<close>

text \<open>The loop \<^verbatim>\<open>while (p && P(p)) p = p->pprev\<close>; not returning is \<open>None\<close> as well.\<close>

partial_function (option) walk_prev :: "(ptr \<Rightarrow> CBlockIndex \<Rightarrow> bool) \<Rightarrow> block_store \<Rightarrow> ptr option \<Rightarrow> ptr option option" where
  "walk_prev P st p =
    (case p of
       None \<Rightarrow> Some None
     | Some q \<Rightarrow> do { b \<leftarrow> st q; if P q b then walk_prev P st (pprev b) else Some (Some q) })"

declare walk_prev.simps [code]

partial_function (option) LastCommonAncestor_loop ::
  "block_store \<Rightarrow> ptr option \<Rightarrow> ptr option \<Rightarrow> (ptr option \<times> ptr option) option" where
  "LastCommonAncestor_loop st pa pb =
    (if pa \<noteq> pb \<and> pa \<noteq> None \<and> pb \<noteq> None then do {
       a \<leftarrow> pa; b \<leftarrow> pb;
       ba \<leftarrow> st a; bb \<leftarrow> st b;
       LastCommonAncestor_loop st (pprev ba) (pprev bb)
     } else Some (pa, pb))"

declare LastCommonAncestor_loop.simps [code]

definition LastCommonAncestor :: "block_store \<Rightarrow> ptr \<Rightarrow> ptr \<Rightarrow> ptr option option" where
  "LastCommonAncestor st pa pb = do {
     ba \<leftarrow> st pa; bb \<leftarrow> st pb;
     (pa', pb') \<leftarrow>
       (if nHeight ba > nHeight bb then do { q \<leftarrow> GetAncestor st pa (int (nHeight bb)); Some (q, Some pb) }
        else if nHeight bb > nHeight ba then do { q \<leftarrow> GetAncestor st pb (int (nHeight ba)); Some (Some pa, q) }
        else Some (Some pa, Some pb));
     (qa, qb) \<leftarrow> LastCommonAncestor_loop st pa' pb';
     if qa = qb then Some qa else None
   }"

text \<open>An entry and all entries before it, down to the genesis block.\<close>

definition path :: "block_store \<Rightarrow> ptr \<Rightarrow> ptr list" where
  "path st p = (case st p of None \<Rightarrow> [] | Some b \<Rightarrow> map (\<lambda>n. the (up st n p)) [0..<Suc (nHeight b)])"

lemma path_Cons:
  assumes "index_ok st" "st p = Some b"
  shows "path st p = p # (case pprev b of None \<Rightarrow> [] | Some q \<Rightarrow> path st q)"
proof (cases "pprev b")
  case None
  then show ?thesis using index_ok_genesis [OF assms None] assms(2) by (simp add: path_def)
next
  case (Some q)
  obtain b' where b': "st q = Some b'" "nHeight b = Suc (nHeight b')" by (rule index_ok_prev [OF assms Some])
  have "[0..<Suc (nHeight b)] = 0 # map Suc [0..<Suc (nHeight b')]" 
    unfolding b'(2) by (simp add: map_Suc_upt upt_conv_Cons del: upt_Suc)
  then show ?thesis using Some b' assms(2) by (simp add: path_def del: upt_Suc)
qed

lemma walk_prev_path:
  assumes ok: "index_ok st" and "st p = Some b"
  shows "walk_prev P st (Some p) = Some (find (\<lambda>r. \<not> P r (the (st r))) (path st p))"
  using assms(2)
proof (induction "nHeight b" arbitrary: p b)
  case 0
  then have "pprev b = None" using index_ok_zero [OF ok 0(2)] by simp
  then show ?case using 0 by (simp add: walk_prev.simps [of P st "Some p"] walk_prev.simps [of P st None] path_Cons [OF ok 0(2)])
next
  case (Suc h)
  then obtain q where q: "pprev b = Some q" using index_ok_genesis [OF ok Suc.prems] by (cases "pprev b") auto
  obtain b' where b': "st q = Some b'" "nHeight b = Suc (nHeight b')" by (rule index_ok_prev [OF ok Suc.prems q])
  show ?case using Suc.hyps b' Suc.prems q by (simp add: walk_prev.simps [of P st "Some p"] path_Cons [OF ok Suc.prems])
qed

section \<open>Ancestors\<close>

definition is_ancestor :: "block_store \<Rightarrow> ptr \<Rightarrow> ptr \<Rightarrow> bool" where
  "is_ancestor st a p \<longleftrightarrow> a \<in> set (path st p)"

lemma is_ancestor_up:
  assumes "index_ok st" "st p = Some b"
  shows "is_ancestor st a p \<longleftrightarrow> (\<exists>n. up st n p = Some a)"
proof -
  have "n \<le> nHeight b" if "up st n p = Some a" for n a
    using that assms(2)
  proof (induction n arbitrary: p b)
    case (Suc n)
    then obtain q where q: "pprev b = Some q" "up st n q = Some a" by (auto split: Option.bind_splits)
    obtain b' where b': "st q = Some b'" "nHeight b = Suc (nHeight b')" by (rule index_ok_prev [OF assms(1) Suc.prems(2) q(1)])
    show ?case using Suc.IH [OF q(2) b'(1)] b'(2) by simp
  qed simp
  moreover have "\<exists>q. up st n p = Some q" if "n \<le> nHeight b" for n
    by (rule up_total [OF assms that]) blast
  moreover have "set (path st p) = (\<lambda>n. the (up st n p)) ` {..nHeight b}"
    using assms(2) by (simp add: path_def atLeast0LessThan lessThan_Suc_atMost del: upt_Suc)
  ultimately show ?thesis unfolding is_ancestor_def by (metis (no_types, lifting) atMost_iff image_iff option.sel)
qed

lemma up_height:
  assumes "index_ok st" "st p = Some b" "up st n p = Some q"
  shows "\<exists>b'. st q = Some b' \<and> nHeight b = nHeight b' + n"
  using assms(2,3)
proof (induction n arbitrary: p b)
  case (Suc n)
  then obtain r where r: "pprev b = Some r" "up st n r = Some q" by (auto split: Option.bind_splits)
  obtain b' where b': "st r = Some b'" "nHeight b = Suc (nHeight b')" by (rule index_ok_prev [OF assms(1) Suc.prems(1) r(1)])
  from Suc.IH [OF b'(1) r(2)] b'(2) show ?case by auto
qed simp

lemma is_ancestor_trans:
  assumes "index_ok st" "st p = Some b" "is_ancestor st q p" "is_ancestor st r q"
  shows "is_ancestor st r p"
proof -
  obtain n where n: "up st n p = Some q" using assms(1-3) by (auto simp: is_ancestor_up)
  obtain b' where b': "st q = Some b'" using up_height [OF assms(1,2) n] by auto
  obtain m where "up st m q = Some r" using assms(1,4) b' by (auto simp: is_ancestor_up)
  then have "up st (n + m) p = Some r" by (simp add: up_add n)
  then show ?thesis using assms(1,2) by (auto simp: is_ancestor_up)
qed

text \<open>The blocks of a tree have one genesis block.\<close>

definition one_root :: "block_store \<Rightarrow> bool" where
  "one_root st \<longleftrightarrow> (\<forall>p q b c. st p = Some b \<and> st q = Some c \<and> pprev b = None \<and> pprev c = None \<longrightarrow> p = q)"

definition meets :: "block_store \<Rightarrow> ptr \<Rightarrow> ptr \<Rightarrow> ptr \<Rightarrow> bool" where
  "meets st c a b \<longleftrightarrow> is_ancestor st c a \<and> is_ancestor st c b \<and>
    (\<forall>d. is_ancestor st d a \<and> is_ancestor st d b \<longrightarrow> is_ancestor st d c)"

lemma is_ancestor_refl: "index_ok st \<Longrightarrow> st p = Some b \<Longrightarrow> is_ancestor st p p"
  by (auto simp: is_ancestor_up intro: exI [of _ 0])

lemma is_ancestor_prev:
  assumes "index_ok st" "st p = Some b" "a \<noteq> p"
  shows "is_ancestor st a p \<longleftrightarrow> (\<exists>q. pprev b = Some q \<and> is_ancestor st a q)"
  using assms(3) by (cases "pprev b") (simp_all add: is_ancestor_def path_Cons [OF assms(1,2)])

lemma LastCommonAncestor_loop_meets:
  assumes ok: "index_ok st" "one_root st" and "st a = Some ba" "st b = Some bb" "nHeight ba = nHeight bb"
  shows "\<exists>c. LastCommonAncestor_loop st (Some a) (Some b) = Some (Some c, Some c) \<and> meets st c a b"
  using assms(3-)
proof (induction "nHeight ba" arbitrary: a b ba bb)
  case 0
  then have "pprev ba = None" "pprev bb = None" by (metis index_ok_zero ok(1))+
  then have "a = b" using ok(2) 0 unfolding one_root_def by blast
  then show ?case
    using 0 is_ancestor_refl [OF ok(1) 0(2)] by (auto simp: LastCommonAncestor_loop.simps meets_def)
next
  case (Suc h)
  show ?case
  proof (cases "a = b")
    case True
    then show ?thesis
      using Suc.prems is_ancestor_refl [OF ok(1) Suc.prems(1)] by (auto simp: LastCommonAncestor_loop.simps meets_def)
  next
    case False
    obtain a' b' where prev: "pprev ba = Some a'" "pprev bb = Some b'"
      using index_ok_zero [OF ok(1) Suc.prems(1)] index_ok_zero [OF ok(1) Suc.prems(2)] Suc.hyps(2) Suc.prems(3)
      by (cases "pprev ba"; cases "pprev bb") auto
    obtain ca where ca: "st a' = Some ca" "nHeight ba = Suc (nHeight ca)" by (rule index_ok_prev [OF ok(1) Suc.prems(1) prev(1)])
    obtain cb where cb: "st b' = Some cb" "nHeight bb = Suc (nHeight cb)" by (rule index_ok_prev [OF ok(1) Suc.prems(2) prev(2)])
    from Suc.hyps(1) [OF _ ca(1) cb(1)] ca cb Suc.hyps(2) Suc.prems(3) obtain c where
      c: "LastCommonAncestor_loop st (Some a') (Some b') = Some (Some c, Some c)" "meets st c a' b'" by auto
    have not: "\<not> (is_ancestor st a b)" "\<not> (is_ancestor st b a)"
      using Suc.prems False up_height [OF ok(1)] by (force simp: is_ancestor_up [OF ok(1)])+
    have sub: "is_ancestor st d a' \<Longrightarrow> is_ancestor st d a" "is_ancestor st d b' \<Longrightarrow> is_ancestor st d b" for d
      using prev Suc.prems by (auto simp: is_ancestor_def path_Cons [OF ok(1)])
    have "is_ancestor st d c" if "is_ancestor st d a" "is_ancestor st d b" for d
      using that not c(2) prev is_ancestor_prev [OF ok(1) Suc.prems(1), of d] is_ancestor_prev [OF ok(1) Suc.prems(2), of d]
      by (metis meets_def option.inject)
    then have "meets st c a b" using c(2) sub by (auto simp: meets_def)
    then show ?thesis using c(1) False Suc.prems prev by (auto simp: LastCommonAncestor_loop.simps [of st "Some a" "Some b"])
  qed
qed

lemma GetAncestor_total:
  assumes "index_ok st" "st p = Some b" "h \<le> nHeight b"
  obtains q b' where "GetAncestor st p (int h) = Some (Some q)" "st q = Some b'" "nHeight b' = h" "is_ancestor st q p"
proof -
  obtain q b' where q: "up st (nHeight b - h) p = Some q" "st q = Some b'" "nHeight b' = nHeight b - (nHeight b - h)"
    by (rule up_total [OF assms(1,2), of "nHeight b - h"]) simp
  show thesis
    by (rule that [of q b']) (use q assms in \<open>auto simp: GetAncestor_up is_ancestor_up\<close>)
qed

lemma meets_sym: "meets st c a b \<longleftrightarrow> meets st c b a"
  by (auto simp: meets_def)

lemma meets_lower:
  assumes ok: "index_ok st" and "st a = Some ba" "st b = Some bb" "is_ancestor st a' a" "st a' = Some ba'"
    "nHeight ba' = nHeight bb" "meets st c a' b"
  shows "meets st c a b"
proof -
  have "is_ancestor st d a'" if d: "is_ancestor st d a" "is_ancestor st d b" for d
  proof -
    obtain n where n: "up st n a = Some d" using d(1) assms by (auto simp: is_ancestor_up)
    obtain k where k: "up st k a = Some a'" using assms by (auto simp: is_ancestor_up)
    obtain j where j: "up st j b = Some d" using d(2) assms by (auto simp: is_ancestor_up)
    obtain bd where bd: "st d = Some bd" "nHeight ba = nHeight bd + n" using up_height [OF ok assms(2) n] by auto
    have "nHeight bb = nHeight bd + j" "nHeight ba = nHeight ba' + k"
      using up_height [OF ok assms(3) j] up_height [OF ok assms(2) k] bd assms(5) by auto
    then have "n = k + j" using bd assms(6) by simp
    then have "up st j a' = Some d" using n k by (simp add: up_add)
    then show ?thesis using ok assms(5) by (auto simp: is_ancestor_up)
  qed
  then show ?thesis using assms is_ancestor_trans [OF ok assms(2,4)] by (auto simp: meets_def)
qed

lemma LastCommonAncestor_meets:
  assumes ok: "index_ok st" "one_root st" and a: "st a = Some ba" and b: "st b = Some bb"
  shows "\<exists>c. LastCommonAncestor st a b = Some (Some c) \<and> meets st c a b"
proof (cases "nHeight ba" "nHeight bb" rule: linorder_cases)
  case less
  obtain q b' where q: "GetAncestor st b (int (nHeight ba)) = Some (Some q)" "st q = Some b'" "nHeight b' = nHeight ba" "is_ancestor st q b"
    by (rule GetAncestor_total [OF ok(1) b, of "nHeight ba"]) (use less in simp)
  obtain c where c: "LastCommonAncestor_loop st (Some a) (Some q) = Some (Some c, Some c)" "meets st c a q"
    using LastCommonAncestor_loop_meets [OF ok a q(2)] q(3) by auto
  have "meets st c b a" by (rule meets_lower [OF ok(1) b a q(4,2,3)]) (use c in \<open>simp add: meets_sym\<close>)
  then show ?thesis using less a b q c by (auto simp: LastCommonAncestor_def meets_sym)
next
  case equal
  from LastCommonAncestor_loop_meets [OF ok a b equal] show ?thesis using a b equal by (auto simp: LastCommonAncestor_def)
next
  case greater
  obtain q b' where q: "GetAncestor st a (int (nHeight bb)) = Some (Some q)" "st q = Some b'" "nHeight b' = nHeight bb" "is_ancestor st q a"
    by (rule GetAncestor_total [OF ok(1) a, of "nHeight bb"]) (use greater in simp)
  obtain c where c: "LastCommonAncestor_loop st (Some q) (Some b) = Some (Some c, Some c)" "meets st c q b"
    using LastCommonAncestor_loop_meets [OF ok q(2) b] q(3) by auto
  have "meets st c a b" by (rule meets_lower [OF ok(1) a b q(4,2,3) c(2)])
  then show ?thesis using greater a b q c by (auto simp: LastCommonAncestor_def)
qed

section \<open>New entries\<close>

lemma up_insert:
  assumes "index_ok st" "st p = None" "st q = Some b"
  shows "up (st(p \<mapsto> x)) n q = up st n q"
  using assms(3)
proof (induction n arbitrary: q b)
  case (Suc n)
  then have "q \<noteq> p" using assms(2) by auto
  show ?case
  proof (cases "pprev b")
    case (Some r)
    obtain b' where "st r = Some b'" "nHeight b = Suc (nHeight b')" by (rule index_ok_prev [OF assms(1) Suc.prems Some])
    then show ?thesis using Suc Some \<open>q \<noteq> p\<close> by simp
  qed (use Suc.prems \<open>q \<noteq> p\<close> in simp)
qed simp

lemma path_insert:
  assumes "index_ok st" "st p = None" "st q = Some b"
  shows "path (st(p \<mapsto> x)) q = path st q"
proof -
  have "q \<noteq> p" using assms by auto
  then show ?thesis using assms(3) up_insert [OF assms] by (simp add: path_def del: upt_Suc)
qed

lemma entry_ok_insert:
  assumes "index_ok st" "st p = None" "entry_ok st b"
  shows "entry_ok (st(p \<mapsto> x)) b"
proof (cases "pprev b")
  case (Some q)
  then obtain b' where b': "st q = Some b'" using assms(3) by (cases "st q") (auto simp: entry_ok_def)
  then have "q \<noteq> p" using assms(2) by auto
  then show ?thesis using Some b' assms(3) up_insert [OF assms(1,2) b'] by (simp add: entry_ok_def)
qed (use assms(3) in \<open>simp add: entry_ok_def\<close>)

lemma index_ok_insert:
  assumes "index_ok st" "st p = None" "entry_ok st b"
  shows "index_ok (st(p \<mapsto> b))"
  using assms entry_ok_insert [OF assms(1,2)] by (auto simp: index_ok_def)

lemma local_ok_insert:
  assumes "index_ok st" "st p = None" "local_ok R st" "entry_ok st b" "R b (parent st b)"
  shows "local_ok R (st(p \<mapsto> b))"
proof -
  have "parent (st(p \<mapsto> b)) c = parent st c" if "entry_ok st c" for c
    using that assms(2) by (auto simp: parent_def entry_ok_def split: option.splits)
  then show ?thesis using assms by (auto simp: local_ok_def index_ok_def)
qed

text \<open>An entry may be changed in all fields but those of the tree.\<close>

definition same_tree :: "CBlockIndex \<Rightarrow> CBlockIndex \<Rightarrow> bool" where
  "same_tree b c \<longleftrightarrow> pprev b = pprev c \<and> pskip b = pskip c \<and> nHeight b = nHeight c"

lemma up_same_tree: "st p = Some b \<Longrightarrow> same_tree b c \<Longrightarrow> up (st(p \<mapsto> c)) n q = up st n q"
  by (induction n arbitrary: q) (auto simp: same_tree_def split: Option.bind_splits)

lemma path_same_tree: "st p = Some b \<Longrightarrow> same_tree b c \<Longrightarrow> path (st(p \<mapsto> c)) q = path st q"
  by (auto simp: path_def up_same_tree same_tree_def simp del: upt_Suc split: option.splits)

lemma index_ok_same_tree:
  assumes "index_ok st" "st p = Some b" "same_tree b c"
  shows "index_ok (st(p \<mapsto> c))"
  unfolding index_ok_def
proof (intro allI impI)
  have up: "up (st(p \<mapsto> c)) n r = up st n r" for n r using assms(2,3) by (rule up_same_tree)
  fix q d assume "(st(p \<mapsto> c)) q = Some d"
  then obtain d' where d': "st q = Some d'" "same_tree d' d"
    using assms(2,3) by (auto simp: same_tree_def split: if_splits)
  then have "entry_ok st d'" using assms(1) by (auto simp: index_ok_def)
  then show "entry_ok (st(p \<mapsto> c)) d"
    using d'(2) assms(2,3) unfolding entry_ok_def
    by (auto simp: up same_tree_def split: option.splits)
qed

lemma local_ok_update:
  assumes "st p = Some b" "same_tree b c" "local_ok R st"
    and "\<And>pb. R b pb \<Longrightarrow> R c pb" "\<And>d. R d (Some b) \<Longrightarrow> R d (Some c)"
  shows "local_ok R (st(p \<mapsto> c))"
  unfolding local_ok_def
proof (intro allI impI)
  fix q d assume d: "(st(p \<mapsto> c)) q = Some d"
  have "parent st b = parent st c" using assms(2) by (simp add: parent_def same_tree_def)
  then have "R c (parent st c)" using assms(1,3,4) by (metis local_ok_def)
  then have "R d (parent st d)"
    using d assms(3) by (auto simp: local_ok_def split: if_splits)
  then show "R d (parent (st(p \<mapsto> c)) d)"
    using assms(1,5) by (auto simp: parent_def split: option.splits)
qed

end
