(* ===== verification/Active_Chain.thy ===== *)
theory Active_Chain
  imports Chain_Index
begin

text \<open>
  The active chain, class \<^verbatim>\<open>CChain\<close> of \<^verbatim>\<open>src/chain.h\<close> and \<^verbatim>\<open>src/chain.cpp\<close>: a vector with the entry of every height. The lemmas show that
  after \<open>SetTip\<close> the vector is the path from the genesis block to the tip, that \<open>FindFork\<close> and \<open>LastCommonAncestor\<close> find the block where two
  branches part, and that the binary search by time finds the earliest block.
\<close>

type_synonym CChain = "ptr option list"

definition CChain_Genesis :: "CChain \<Rightarrow> ptr option" where
  "CChain_Genesis v = (if length v > 0 then v ! 0 else None)"

definition CChain_Tip :: "block_store \<Rightarrow> bool \<Rightarrow> CChain \<Rightarrow> ptr option option" where
  "CChain_Tip st fProofOfStake v =
    (if length v < 1 then Some None
     else let pindex = v ! (length v - 1)
          in if fProofOfStake then walk_prev (\<lambda>_ b. pprev b \<noteq> None \<and> \<not> bi_IsProofOfStake b) st pindex else Some pindex)"

definition CChain_at :: "CChain \<Rightarrow> int \<Rightarrow> ptr option" where
  "CChain_at v h = (if h < 0 \<or> h \<ge> int (length v) then None else v ! nat h)"

text \<open>Comparing two empty chains reads before the start of both vectors.\<close>

definition CChain_equal :: "CChain \<Rightarrow> CChain \<Rightarrow> bool option" where
  "CChain_equal a b =
    (if length a = length b then if a = [] then None else Some (a ! (length a - 1) = b ! (length b - 1)) else Some False)"

definition CChain_Contains :: "block_store \<Rightarrow> CChain \<Rightarrow> ptr \<Rightarrow> bool option" where
  "CChain_Contains st v p = do { b \<leftarrow> st p; Some (CChain_at v (int (nHeight b)) = Some p) }"

definition CChain_Next :: "block_store \<Rightarrow> CChain \<Rightarrow> ptr \<Rightarrow> ptr option option" where
  "CChain_Next st v p = do {
     b \<leftarrow> st p;
     c \<leftarrow> CChain_Contains st v p;
     Some (if c then CChain_at v (int (nHeight b) + 1) else None)
   }"

definition CChain_Height :: "CChain \<Rightarrow> int" where
  "CChain_Height v = int (length v) - 1"

text \<open>\<^verbatim>\<open>resize\<close> drops the end of the vector or fills it with null pointers.\<close>

definition resize :: "nat \<Rightarrow> CChain \<Rightarrow> CChain" where
  "resize n v = take n v @ replicate (n - length v) None"

partial_function (option) SetTip_loop :: "block_store \<Rightarrow> ptr option \<Rightarrow> CChain \<Rightarrow> CChain option" where
  "SetTip_loop st pindex v =
    (case pindex of
       None \<Rightarrow> Some v
     | Some p \<Rightarrow> do {
         b \<leftarrow> st p;
         if nHeight b < length v
         then if v ! nHeight b \<noteq> Some p then SetTip_loop st (pprev b) (v[nHeight b := Some p]) else Some v
         else None
       })"

declare SetTip_loop.simps [code]

definition SetTip :: "block_store \<Rightarrow> ptr option \<Rightarrow> CChain \<Rightarrow> CChain option" where
  "SetTip st pindex v =
    (case pindex of None \<Rightarrow> Some [] | Some p \<Rightarrow> do { b \<leftarrow> st p; SetTip_loop st pindex (resize (nHeight b + 1) v) })"

partial_function (option) GetLocator_loop :: "block_store \<Rightarrow> CChain \<Rightarrow> ptr option \<Rightarrow> nat \<Rightarrow> uint256 list \<Rightarrow> uint256 list option" where
  "GetLocator_loop st v pindex nStep vHave =
    (case pindex of
       None \<Rightarrow> Some vHave
     | Some p \<Rightarrow> do {
         b \<leftarrow> st p;
         hash \<leftarrow> phashBlock b;
         let vHave' = vHave @ [hash];
         if nHeight b = 0 then Some vHave'
         else do {
           c \<leftarrow> CChain_Contains st v p;
           q \<leftarrow> (if c then Some (CChain_at v (int (nHeight b - nStep))) else GetAncestor st p (int (nHeight b - nStep)));
           GetLocator_loop st v q (if length vHave' > 10 then nStep * 2 else nStep) vHave'
         }
       })"

declare GetLocator_loop.simps [code]

definition GetLocator :: "block_store \<Rightarrow> CChain \<Rightarrow> ptr option \<Rightarrow> uint256 list option" where
  "GetLocator st v pindex = do {
     p \<leftarrow> (if pindex = None then CChain_Tip st False v else Some pindex);
     GetLocator_loop st v p 1 []
   }"

definition FindFork :: "block_store \<Rightarrow> CChain \<Rightarrow> ptr option \<Rightarrow> ptr option option" where
  "FindFork st v pindex =
    (case pindex of
       None \<Rightarrow> Some None
     | Some p \<Rightarrow> do {
         b \<leftarrow> st p;
         p' \<leftarrow> (if int (nHeight b) > CChain_Height v then GetAncestor st p (CChain_Height v) else Some (Some p));
         walk_prev (\<lambda>q c. CChain_at v (int (nHeight c)) \<noteq> Some q) st p'
       })"

text \<open>\<^verbatim>\<open>std::lower_bound\<close>: halve the range until it is empty; the first index at which the predicate fails.\<close>

function lower_bound :: "(nat \<Rightarrow> bool option) \<Rightarrow> nat \<Rightarrow> nat \<Rightarrow> nat option" where
  "lower_bound cmp first len =
    (if len > 0 then do {
       c \<leftarrow> cmp (first + len div 2);
       if c then lower_bound cmp (first + len div 2 + 1) (len - len div 2 - 1) else lower_bound cmp first (len div 2)
     } else Some first)"
  by pat_completeness auto
termination
  by (relation "measure (\<lambda>(cmp, first, len). len)") auto

declare lower_bound.simps [simp del]

definition FindEarliestAtLeast :: "block_store \<Rightarrow> int \<Rightarrow> CChain \<Rightarrow> ptr option option" where
  "FindEarliestAtLeast st time v = do {
     i \<leftarrow> lower_bound (\<lambda>i. do { p \<leftarrow> v ! i; b \<leftarrow> st p; Some (uint (nTimeMax b) < time) }) 0 (length v);
     Some (if i = length v then None else v ! i)
   }"

section \<open>The vector is the path to the tip\<close>

definition chain_of :: "block_store \<Rightarrow> ptr \<Rightarrow> CChain" where
  "chain_of st p = map Some (rev (path st p))"

definition chain_ok :: "block_store \<Rightarrow> CChain \<Rightarrow> bool" where
  "chain_ok st v \<longleftrightarrow> v = [] \<or> (\<exists>p b. st p = Some b \<and> v = chain_of st p)"

lemma length_path: "index_ok st \<Longrightarrow> st p = Some b \<Longrightarrow> length (path st p) = Suc (nHeight b)"
  by (simp add: path_def)

lemma chain_of_Suc:
  assumes "index_ok st" "st p = Some b"
  shows "chain_of st p = (case pprev b of None \<Rightarrow> [] | Some q \<Rightarrow> chain_of st q) @ [Some p]"
  using path_Cons [OF assms] by (simp add: chain_of_def split: option.splits)

lemma take_chain_of:
  assumes "index_ok st" "st p = Some b" "h \<le> nHeight b"
  shows "\<exists>q. chain_of st p ! h = Some q \<and> take (Suc h) (chain_of st p) = chain_of st q \<and> is_ancestor st q p \<and> (\<exists>c. st q = Some c \<and> nHeight c = h)"
  using assms(2,3)
proof (induction "nHeight b - h" arbitrary: p b)
  case 0
  have "length (chain_of st p) = Suc h" using length_path [OF assms(1) 0(2)] 0 by (simp add: chain_of_def)
  then show ?case
    using 0 is_ancestor_refl [OF assms(1) 0(2)] chain_of_Suc [OF assms(1) 0(2)] 
    by (intro exI [of _ p]) (auto simp: nth_append split: option.splits)
next
  case (Suc n)
  then obtain q where q: "pprev b = Some q" using index_ok_zero [OF assms(1) Suc.prems(1)] by (cases "pprev b") auto
  obtain b' where b': "st q = Some b'" "nHeight b = Suc (nHeight b')" by (rule index_ok_prev [OF assms(1) Suc.prems(1) q])
  have len: "length (chain_of st q) = Suc (nHeight b')" using length_path [OF assms(1) b'(1)] by (simp add: chain_of_def)
  have "n = nHeight b' - h" "h \<le> nHeight b'" using Suc.hyps(2) b'(2) by linarith+
  from Suc.hyps(1) [OF this(1) b'(1) this(2)] obtain r where
    r: "chain_of st q ! h = Some r" "take (Suc h) (chain_of st q) = chain_of st r" "is_ancestor st r q" "\<exists>c. st r = Some c \<and> nHeight c = h"
    by auto
  have "is_ancestor st r p" using r(3) q by (simp add: is_ancestor_def path_Cons [OF assms(1) Suc.prems(1)])
  then show ?case
    using r len q Suc.hyps(2) b'(2) chain_of_Suc [OF assms(1) Suc.prems(1)] by (intro exI [of _ r]) (auto simp: nth_append)
qed

definition closed_below :: "block_store \<Rightarrow> CChain \<Rightarrow> nat \<Rightarrow> bool" where
  "closed_below st v n \<longleftrightarrow> (\<forall>h < n. \<forall>q. v ! h = Some q \<longrightarrow> take (Suc h) v = chain_of st q)"

lemma SetTip_loop_correct:
  assumes ok: "index_ok st" and "st p = Some b" "nHeight b < length v" "closed_below st v (Suc (nHeight b))"
  shows "SetTip_loop st (Some p) v = Some (chain_of st p @ drop (Suc (nHeight b)) v)"
  using assms(2-)
proof (induction "nHeight b" arbitrary: p b v)
  case 0
  then have prev: "pprev b = None" using index_ok_zero [OF ok 0(2)] by simp
  obtain x v' where v: "v = x # v'" using 0 by (cases v) auto
  show ?case
    using 0 prev chain_of_Suc [OF ok 0(2)]
    by (auto simp: v SetTip_loop.simps [of st "Some p"] SetTip_loop.simps [of st None])
next
  case (Suc h)
  then obtain q where q: "pprev b = Some q" using index_ok_zero [OF ok Suc.prems(1)] by (cases "pprev b") auto
  obtain b' where b': "st q = Some b'" "nHeight b = Suc (nHeight b')" by (rule index_ok_prev [OF ok Suc.prems(1) q])
  show ?case
  proof (cases "v ! nHeight b = Some p")
    case True
    then have "take (Suc (nHeight b)) v = chain_of st p" using Suc.prems(3) by (simp add: closed_below_def)
    then show ?thesis using True Suc.prems by (simp add: SetTip_loop.simps [of st "Some p"]) (metis append_take_drop_id)
  next
    case False
    let ?v = "v[nHeight b := Some p]"
    have "closed_below st ?v (Suc (nHeight b'))"
      using Suc.prems(3) b'(2) by (auto simp: closed_below_def)
    then have "SetTip_loop st (Some q) ?v = Some (chain_of st q @ drop (Suc (nHeight b')) ?v)"
      using Suc.hyps b' Suc.prems(2) by auto
    moreover have "drop (Suc (nHeight b')) ?v = Some p # drop (Suc (nHeight b)) v"
      using Suc.prems(2) b'(2) by (simp add: Cons_nth_drop_Suc [symmetric])
    ultimately show ?thesis
      using False Suc.prems q chain_of_Suc [OF ok Suc.prems(1)] by (simp add: SetTip_loop.simps [of st "Some p"])
  qed
qed

lemma SetTip_correct:
  assumes ok: "index_ok st" "chain_ok st v" and p: "st p = Some b"
  shows "SetTip st (Some p) v = Some (chain_of st p)"
proof -
  let ?v = "resize (nHeight b + 1) v"
  have len: "length ?v = Suc (nHeight b)" by (simp add: resize_def)
  have "closed_below st ?v (Suc (nHeight b))"
    unfolding closed_below_def
  proof (intro allI impI)
    fix h q assume h: "h < Suc (nHeight b)" and q: "?v ! h = Some q"
    then have lt: "h < length v" by (rule_tac ccontr) (simp add: resize_def nth_append)
    then have *: "v ! h = Some q" "take (Suc h) ?v = take (Suc h) v" using h q by (simp_all add: resize_def nth_append)
    from lt ok(2) obtain t c where t: "st t = Some c" "v = chain_of st t" by (auto simp: chain_ok_def)
    have "h \<le> nHeight c" using lt t length_path [OF ok(1) t(1)] by (simp add: chain_of_def)
    with * take_chain_of [OF ok(1) t(1), of h] t show "take (Suc h) ?v = chain_of st q" by auto
  qed
  with SetTip_loop_correct [OF ok(1) p, of ?v] len p show ?thesis by (simp add: SetTip_def)
qed

section \<open>Forks\<close>

lemma ancestor_unique:
  assumes "index_ok st" "st p = Some b" "is_ancestor st q p" "is_ancestor st r p"
    and "st q = Some bq" "st r = Some br" "nHeight bq = nHeight br"
  shows "q = r"
proof -
  obtain m n where "up st m p = Some q" "up st n p = Some r" using assms(1-4) by (auto simp: is_ancestor_up)
  moreover from this have "m = n"
    using up_height [OF assms(1,2)] assms(5-7) by (metis add_left_cancel option.inject)
  ultimately show ?thesis by simp
qed

lemma at_chain_of:
  assumes ok: "index_ok st" and t: "st t = Some c" and q: "st q = Some bq"
  shows "CChain_at (chain_of st t) (int (nHeight bq)) = Some q \<longleftrightarrow> is_ancestor st q t"
proof -
  have len: "length (chain_of st t) = Suc (nHeight c)" using length_path [OF ok t] by (simp add: chain_of_def)
  show ?thesis
  proof (cases "nHeight bq \<le> nHeight c")
    case True
    obtain r br where r: "chain_of st t ! nHeight bq = Some r" "is_ancestor st r t" "st r = Some br" "nHeight br = nHeight bq"
      using take_chain_of [OF ok t True] by auto
    then have "is_ancestor st q t \<Longrightarrow> q = r" using ancestor_unique [OF ok t] q by blast
    then show ?thesis using r True len by (auto simp: CChain_at_def)
  next
    case False
    then have "\<not> is_ancestor st q t" using up_height [OF ok t, of _ q] q by (auto simp: is_ancestor_up [OF ok t])
    then show ?thesis using False len by (simp add: CChain_at_def)
  qed
qed

lemma path_dom: "index_ok st \<Longrightarrow> st p = Some b \<Longrightarrow> q \<in> set (path st p) \<Longrightarrow> \<exists>c. st q = Some c"
  using up_height [of st p b _ q] by (auto simp: is_ancestor_up is_ancestor_def [symmetric])

lemma path_suffix:
  assumes "index_ok st" "st p = Some b" "path st p = xs @ c # ys"
  shows "path st c = c # ys"
  using assms(2,3)
proof (induction xs arbitrary: p b)
  case Nil
  then show ?case using path_Cons [OF assms(1) Nil.prems(1)] by auto
next
  case (Cons x xs)
  then obtain q where q: "pprev b = Some q" "path st q = xs @ c # ys"
    using path_Cons [OF assms(1) Cons.prems(1)] by (auto split: option.splits)
  obtain b' where "st q = Some b'" "nHeight b = Suc (nHeight b')" by (rule index_ok_prev [OF assms(1) Cons.prems(1) q(1)])
  then show ?case using Cons.IH q(2) by blast
qed

lemma common_root:
  assumes "index_ok st" "one_root st" "st p = Some b" "st t = Some c"
  shows "\<exists>g. is_ancestor st g p \<and> is_ancestor st g t"
proof -
  obtain g bg where g: "up st (nHeight b) p = Some g" "st g = Some bg" "nHeight bg = 0"
    by (rule up_total [OF assms(1,3), of "nHeight b"]) auto
  obtain g' bg' where g': "up st (nHeight c) t = Some g'" "st g' = Some bg'" "nHeight bg' = 0"
    by (rule up_total [OF assms(1,4), of "nHeight c"]) auto
  have "g = g'" using assms(2) g g' index_ok_zero [OF assms(1)] unfolding one_root_def by blast
  then show ?thesis using g g' assms by (auto simp: is_ancestor_up)
qed

lemma walk_to_fork:
  assumes ok: "index_ok st" "one_root st" and p: "st p = Some b" and t: "st t = Some c"
  shows "\<exists>f. walk_prev (\<lambda>q c. CChain_at (chain_of st t) (int (nHeight c)) \<noteq> Some q) st (Some p) = Some (Some f) \<and> meets st f p t"
proof -
  let ?P = "\<lambda>r. \<not> CChain_at (chain_of st t) (int (nHeight (the (st r)))) \<noteq> Some r"
  have P: "?P r \<longleftrightarrow> is_ancestor st r t" if "r \<in> set (path st p)" for r
    using path_dom [OF ok(1) p that] at_chain_of [OF ok(1) t] by auto
  obtain g where "g \<in> set (path st p)" "is_ancestor st g t"
    using common_root [OF ok p t] by (auto simp: is_ancestor_def)
  then have "find ?P (path st p) \<noteq> None" using P by (auto simp: find_None_iff)
  then obtain f where f: "find ?P (path st p) = Some f" by blast
  then obtain i where i: "i < length (path st p)" "f = path st p ! i" "?P f" "\<forall>j < i. \<not> ?P (path st p ! j)"
    unfolding find_Some_iff by blast
  have split: "path st p = take i (path st p) @ f # drop (Suc i) (path st p)" using i by (simp add: id_take_nth_drop)
  have fp: "is_ancestor st f p" "is_ancestor st f t" using i P [of f] by (auto simp: is_ancestor_def)
  have "is_ancestor st d f" if d: "is_ancestor st d p" "is_ancestor st d t" for d
  proof -
    have "d \<notin> set (take i (path st p))"
    proof
      assume "d \<in> set (take i (path st p))"
      then obtain j where "j < i" "j < length (path st p)" "d = path st p ! j" by (auto simp: in_set_conv_nth)
      then show False using i(4) P [of d] d(2) by auto
    qed
    moreover have "d \<in> set (take i (path st p) @ f # drop (Suc i) (path st p))" using d(1) split by (simp add: is_ancestor_def)
    ultimately have "d \<in> set (f # drop (Suc i) (path st p))" by simp
    then show ?thesis unfolding is_ancestor_def by (simp only: path_suffix [OF ok(1) p split])
  qed
  then have "meets st f p t" using fp by (auto simp: meets_def)
  then show ?thesis using walk_prev_path [OF ok(1) p] f by simp
qed

lemma FindFork_meets:
  assumes ok: "index_ok st" "one_root st" and p: "st p = Some b" and t: "st t = Some c"
  shows "\<exists>f. FindFork st (chain_of st t) (Some p) = Some (Some f) \<and> meets st f p t"
proof -
  have H: "CChain_Height (chain_of st t) = int (nHeight c)"
    using length_path [OF ok(1) t] by (simp add: chain_of_def CChain_Height_def)
  show ?thesis
  proof (cases "nHeight b > nHeight c")
    case True
    obtain q b' where q: "GetAncestor st p (int (nHeight c)) = Some (Some q)" "st q = Some b'" "nHeight b' = nHeight c" "is_ancestor st q p"
      by (rule GetAncestor_total [OF ok(1) p, of "nHeight c"]) (use True in simp)
    from walk_to_fork [OF ok q(2) t] obtain f where
      f: "walk_prev (\<lambda>q d. CChain_at (chain_of st t) (int (nHeight d)) \<noteq> Some q) st (Some q) = Some (Some f)" "meets st f q t" by blast
    have "meets st f p t" by (rule meets_lower [OF ok(1) p t q(4,2,3) f(2)])
    then show ?thesis using True p H q f by (auto simp: FindFork_def)
  next
    case False
    then show ?thesis using walk_to_fork [OF ok p t] p H by (auto simp: FindFork_def)
  qed
qed

lemma meets_unique:
  assumes "index_ok st" "st a = Some ba" "meets st c a b" "meets st d a b"
  shows "c = d"
proof -
  have anc: "is_ancestor st c d" "is_ancestor st d c" "is_ancestor st c a" "is_ancestor st d a"
    using assms(3,4) by (auto simp: meets_def)
  obtain bc bd where s: "st c = Some bc" "st d = Some bd"
    using anc(3,4) path_dom [OF assms(1,2), of c] path_dom [OF assms(1,2), of d] by (auto simp: is_ancestor_def)
  obtain m n where "up st m d = Some c" "up st n c = Some d" using anc(1,2) s by (auto simp: is_ancestor_up [OF assms(1)])
  then have "nHeight bd = nHeight bc + m" "nHeight bc = nHeight bd + n" using up_height [OF assms(1)] s by force+
  then show ?thesis using ancestor_unique [OF assms(1,2) anc(3,4) s] by simp
qed

section \<open>Searching by time\<close>

lemma lower_bound_correct:
  assumes "\<And>i. first \<le> i \<Longrightarrow> i < first + len \<Longrightarrow> cmp i = Some (P i)"
    and "\<And>i j. first \<le> i \<Longrightarrow> i \<le> j \<Longrightarrow> j < first + len \<Longrightarrow> P j \<Longrightarrow> P i"
  shows "\<exists>r. lower_bound cmp first len = Some r \<and> first \<le> r \<and> r \<le> first + len \<and>
    (\<forall>i. first \<le> i \<and> i < r \<longrightarrow> P i) \<and> (\<forall>i. r \<le> i \<and> i < first + len \<longrightarrow> \<not> P i)"
  using assms
proof (induction cmp first len rule: lower_bound.induct)
  case (1 cmp first len)
  show ?case
  proof (cases "len = 0")
    case False
    let ?m = "first + len div 2"
    have m: "first \<le> ?m" "?m < first + len" using False by simp_all
    have c: "cmp ?m = Some (P ?m)" using "1.prems"(1) m by simp
    show ?thesis
    proof (cases "P ?m")
      case True
      have sum: "?m + 1 + (len - len div 2 - 1) = first + len" using False by simp
      from "1.IH"(1) [of True] False c True "1.prems" sum obtain r where
        r: "lower_bound cmp (?m + 1) (len - len div 2 - 1) = Some r" "?m + 1 \<le> r" "r \<le> first + len"
          "\<forall>i. ?m + 1 \<le> i \<and> i < r \<longrightarrow> P i" "\<forall>i. r \<le> i \<and> i < first + len \<longrightarrow> \<not> P i" by fastforce
      have "P i" if "first \<le> i" "i < r" for i
        using that r(4) "1.prems"(2) [of i ?m] m True by (cases "i \<le> ?m") auto
      then show ?thesis using r c True False by (intro exI [of _ r]) (auto simp: lower_bound.simps [of cmp first len])
    next
      case F: False
      from "1.IH"(2) [of False] False c F "1.prems" obtain r where
        r: "lower_bound cmp first (len div 2) = Some r" "first \<le> r" "r \<le> ?m"
          "\<forall>i. first \<le> i \<and> i < r \<longrightarrow> P i" "\<forall>i. r \<le> i \<and> i < ?m \<longrightarrow> \<not> P i" by fastforce
      have "\<not> P i" if "r \<le> i" "i < first + len" for i
        using that r(5) r(2) "1.prems"(2) [of ?m i] m F by (cases "i < ?m") auto
      then show ?thesis using r c F False by (intro exI [of _ r]) (auto simp: lower_bound.simps [of cmp first len])
    qed
  qed (auto simp: lower_bound.simps)
qed

lemma nTimeMax_path:
  assumes ok: "index_ok st" "times_ok st" and "st p = Some b"
  shows "uint (nTimeMax b) < x \<longleftrightarrow> (\<forall>q \<in> set (path st p). bi_GetBlockTime (the (st q)) < x)"
  using assms(3)
proof (induction "nHeight b" arbitrary: p b)
  case 0
  then have "pprev b = None" using index_ok_zero [OF ok(1) 0(2)] by simp
  moreover from this have "nTimeMax b = bi_nTime b" using ok(2) 0(2) by (force simp: times_ok_def local_ok_def parent_def)
  ultimately show ?case using 0(2) by (simp add: path_Cons [OF ok(1) 0(2)] bi_GetBlockTime_def)
next
  case (Suc h)
  then obtain q where q: "pprev b = Some q" using index_ok_zero [OF ok(1) Suc.prems] by (cases "pprev b") auto
  obtain b' where b': "st q = Some b'" "nHeight b = Suc (nHeight b')"
    by (rule index_ok_prev [OF ok(1) Suc.prems q])
  have max: "nTimeMax b = max (nTimeMax b') (bi_nTime b)" using ok(2) Suc.prems q b'(1) by (force simp: times_ok_def local_ok_def parent_def)
  have "uint (nTimeMax b) < x \<longleftrightarrow> uint (nTimeMax b') < x \<and> uint (bi_nTime b) < x"
    unfolding max by (auto simp: max_def word_le_def)
  then show ?case using Suc.hyps b' q Suc.prems by (auto simp: path_Cons [OF ok(1) Suc.prems] bi_GetBlockTime_def)
qed

lemma FindEarliest_find:
  assumes ok: "index_ok st" "times_ok st" and t: "st t = Some c"
  shows "FindEarliestAtLeast st time (chain_of st t) =
    Some (find (\<lambda>q. time \<le> bi_GetBlockTime (the (st q))) (rev (path st t)))"
proof -
  let ?L = "rev (path st t)" and ?T = "\<lambda>q. bi_GetBlockTime (the (st q))"
  have len: "length ?L = Suc (nHeight c)" using length_path [OF ok(1) t] by simp
  define P where "P i \<longleftrightarrow> (\<forall>j \<le> i. ?T (?L ! j) < time)" for i
  have cmp: "do { p \<leftarrow> chain_of st t ! i; b \<leftarrow> st p; Some (uint (nTimeMax b) < time) } = Some (P i)" if i: "i < Suc (nHeight c)" for i
  proof -
    obtain q b where q: "chain_of st t ! i = Some q" "take (Suc i) (chain_of st t) = chain_of st q" "st q = Some b"
      using take_chain_of [OF ok(1) t, of i] i by auto
    have "rev (path st q) = take (Suc i) ?L"
      using q(2) unfolding chain_of_def by (simp only: take_map inj_map_eq_map [OF inj_Some])
    then have "set (path st q) = set (take (Suc i) ?L)" by (metis set_rev)
    also have "\<dots> = (\<lambda>j. ?L ! j) ` {..i}"
      using i len by (subst nth_image [symmetric]) (auto simp: lessThan_Suc_atMost [symmetric] atLeast0LessThan)
    finally show ?thesis using q nTimeMax_path [OF ok q(3), of time] by (auto simp: P_def)
  qed
  obtain r where r: "lower_bound (\<lambda>i. do { p \<leftarrow> chain_of st t ! i; b \<leftarrow> st p; Some (uint (nTimeMax b) < time) }) 0 (length ?L) = Some r"
      "r \<le> length ?L" "\<forall>i < r. P i" "\<forall>i. r \<le> i \<and> i < length ?L \<longrightarrow> \<not> P i"
    using lower_bound_correct [of 0 "length ?L" "\<lambda>i. do { p \<leftarrow> chain_of st t ! i; b \<leftarrow> st p; Some (uint (nTimeMax b) < time) }" P] cmp len
    by (fastforce simp: P_def)
  have "find (\<lambda>q. time \<le> ?T q) ?L = (if r = length ?L then None else Some (?L ! r))"
  proof (cases "r = length ?L")
    case True
    then have "\<forall>i < length ?L. ?T (?L ! i) < time" using r(3) by (auto simp: P_def)
    then have "\<forall>q \<in> set ?L. ?T q < time" by (metis in_set_conv_nth)
    then show ?thesis using True by (auto simp: find_None_iff)
  next
    case False
    then have "r < length ?L" "\<not> P r" using r(2,4) by auto
    moreover have "?T (?L ! j) < time" if "j < r" for j using that r(3) by (auto simp: P_def)
    ultimately have "time \<le> ?T (?L ! r)" by (force simp: P_def le_less not_less)
    then show ?thesis using \<open>r < length ?L\<close> \<open>\<And>j. j < r \<Longrightarrow> ?T (?L ! j) < time\<close> False
      by (auto simp: find_Some_iff simp flip: not_less intro!: exI [of _ r])
  qed
  then show ?thesis using r(1,2) by (auto simp: FindEarliestAtLeast_def chain_of_def)
qed

section \<open>Locators\<close>

text \<open>From an entry with hashes, the loop ends: every step but the last goes to a lower block, and the last hash is that of the genesis block.\<close>

definition hashed :: "block_store \<Rightarrow> bool" where
  "hashed st \<longleftrightarrow> (\<forall>p b. st p = Some b \<longrightarrow> phashBlock b \<noteq> None)"

lemma GetLocator_loop_ends:
  assumes ok: "index_ok st" "hashed st" and t: "st t = Some c" and "st p = Some b" "0 < nStep"
  shows "\<exists>hs g bg. GetLocator_loop st (chain_of st t) (Some p) nStep vHave = Some (vHave @ hs) \<and> hs \<noteq> [] \<and>
    Some (hd hs) = phashBlock b \<and> is_ancestor st g p \<and> st g = Some bg \<and> nHeight bg = 0 \<and> Some (last hs) = phashBlock bg"
  using assms(4,5)
proof (induction "nHeight b" arbitrary: p b nStep vHave rule: less_induct)
  case less
  obtain x where x: "phashBlock b = Some x" using ok(2) less.prems by (auto simp: hashed_def)
  show ?case
  proof (cases "nHeight b = 0")
    case True
    then show ?thesis
      using less.prems x is_ancestor_refl [OF ok(1) less.prems(1)]
      by (intro exI [of _ "[x]"] exI [of _ p] exI [of _ b]) (simp add: GetLocator_loop.simps [of st _ "Some p"])
  next
    case False
    let ?h = "nHeight b - nStep" and ?s = "if length (vHave @ [x]) > 10 then nStep * 2 else nStep"
    obtain q b' where q: "GetAncestor st p (int ?h) = Some (Some q)" "st q = Some b'" "nHeight b' = ?h" "is_ancestor st q p"
      by (rule GetAncestor_total [OF ok(1) less.prems(1), of ?h]) simp
    have at: "CChain_at (chain_of st t) (int ?h) = Some q" if "CChain_at (chain_of st t) (int (nHeight b)) = Some p"
    proof -
      have "is_ancestor st p t" using that at_chain_of [OF ok(1) t less.prems(1)] by simp
      then have "is_ancestor st q t" using is_ancestor_trans [OF ok(1) t] q(4) by blast
      then show ?thesis using at_chain_of [OF ok(1) t q(2)] q(3) by simp
    qed
    obtain hs g bg where hs: "GetLocator_loop st (chain_of st t) (Some q) ?s (vHave @ [x]) = Some ((vHave @ [x]) @ hs)" "hs \<noteq> []"
        "is_ancestor st g q" "st g = Some bg" "nHeight bg = 0" "Some (last hs) = phashBlock bg"
    proof -
      have "nHeight b' < nHeight b" "0 < ?s" using q(3) False less.prems(2) by simp_all
      from less.hyps [OF this(1) q(2) this(2), of "vHave @ [x]"] show thesis by (elim exE conjE) (rule that)
    qed
    have "GetLocator_loop st (chain_of st t) (Some p) nStep vHave = GetLocator_loop st (chain_of st t) (Some q) ?s (vHave @ [x])"
    proof -
      have "(if CChain_at (chain_of st t) (int (nHeight b)) = Some p then Some (CChain_at (chain_of st t) (int ?h)) else GetAncestor st p (int ?h)) = Some (Some q)"
        using q(1) at by (simp only: split: if_splits) simp
      then show ?thesis
        using less.prems(1) x False by (subst GetLocator_loop.simps) (simp add: CChain_Contains_def Let_def)
    qed
    then show ?thesis
      using hs x is_ancestor_trans [OF ok(1) less.prems(1) q(4) hs(3)]
      by (intro exI [of _ "x # hs"] exI [of _ g] exI [of _ bg]) simp
  qed
qed

end
