(* ===== verification/Arith_Uint.thy ===== *)
theory Arith_Uint
  imports Crypto_Common
begin

text \<open>
  The big unsigned integers of \<^verbatim>\<open>src/arith_uint256.h\<close> and \<^verbatim>\<open>src/arith_uint256.cpp\<close>. A \<^verbatim>\<open>base_uint\<close> is its array \<^verbatim>\<open>pn\<close> of 32 bit limbs,
  the lowest first, and \<^verbatim>\<open>WIDTH\<close> is the length of the array; the carry of a loop is a 64 bit word. The lemmas show
  that every operation computes what it should on the number the limbs stand for, modulo the range.
\<close>

type_synonym base_uint = "uint32 list"

section \<open>Constructors and single limbs\<close>

definition base_uint_of64 :: "nat \<Rightarrow> uint64 \<Rightarrow> base_uint" where
  "base_uint_of64 WIDTH b = ucast b # ucast (drop_bit 32 b) # replicate (WIDTH - 2) 0"

definition base_uint_IsNull :: "base_uint \<Rightarrow> bool" where
  "base_uint_IsNull pn = list_all (\<lambda>p. p = 0) pn"

definition base_uint_not :: "base_uint \<Rightarrow> base_uint" where
  "base_uint_not pn = map NOT pn"

fun base_uint_incr :: "base_uint \<Rightarrow> base_uint" where
  "base_uint_incr [] = []"
| "base_uint_incr (p # ps) = (p + 1) # (if p + 1 = 0 then base_uint_incr ps else ps)"

fun base_uint_decr :: "base_uint \<Rightarrow> base_uint" where
  "base_uint_decr [] = []"
| "base_uint_decr (p # ps) = (p - 1) # (if p - 1 = - 1 then base_uint_decr ps else ps)"

definition base_uint_neg :: "base_uint \<Rightarrow> base_uint" where
  "base_uint_neg pn = base_uint_incr (map NOT pn)"

definition base_uint_xor :: "base_uint \<Rightarrow> base_uint \<Rightarrow> base_uint" where
  "base_uint_xor pn b = map2 (XOR) pn b"

definition base_uint_and :: "base_uint \<Rightarrow> base_uint \<Rightarrow> base_uint" where
  "base_uint_and pn b = map2 (AND) pn b"

definition base_uint_or :: "base_uint \<Rightarrow> base_uint \<Rightarrow> base_uint" where
  "base_uint_or pn b = map2 (OR) pn b"

definition base_uint_Get64 :: "base_uint \<Rightarrow> nat \<Rightarrow> uint64" where
  "base_uint_Get64 pn n = ucast (pn ! (2 * n)) OR push_bit 32 (ucast (pn ! (2 * n + 1)))"

definition base_uint_Get32 :: "base_uint \<Rightarrow> nat \<Rightarrow> uint32" where
  "base_uint_Get32 pn n = pn ! (2 * n)"

definition base_uint_GetLow64 :: "base_uint \<Rightarrow> uint64" where
  "base_uint_GetLow64 pn = ucast (pn ! 0) OR push_bit 32 (ucast (pn ! 1))"

section \<open>Sums and products\<close>

text \<open>The loop the sum and both products share: a carry is added to the term of each limb.\<close>

fun carry_loop :: "uint64 \<Rightarrow> uint64 list \<Rightarrow> uint32 list" where
  "carry_loop carry [] = []"
| "carry_loop carry (t # ts) = (let n = carry + t in ucast (n AND 0xffffffff) # carry_loop (drop_bit 32 n) ts)"

definition base_uint_add :: "base_uint \<Rightarrow> base_uint \<Rightarrow> base_uint" where
  "base_uint_add pn b = carry_loop 0 (map2 (\<lambda>p q. ucast p + ucast q) pn b)"

definition base_uint_sub :: "base_uint \<Rightarrow> base_uint \<Rightarrow> base_uint" where
  "base_uint_sub pn b = base_uint_add pn (base_uint_neg b)"

definition base_uint_mul32 :: "base_uint \<Rightarrow> uint32 \<Rightarrow> base_uint" where
  "base_uint_mul32 pn b32 = carry_loop 0 (map (\<lambda>p. ucast b32 * ucast p) pn)"

text \<open>One round of the product adds \<^verbatim>\<open>a.pn[j] * b\<close> from position \<^verbatim>\<open>j\<close> on.\<close>

definition mul_round :: "base_uint \<Rightarrow> base_uint \<Rightarrow> nat \<Rightarrow> base_uint \<Rightarrow> base_uint" where
  "mul_round a b j pn = take j pn @ carry_loop 0 (map2 (\<lambda>p q. ucast p + ucast (a ! j) * ucast q) (drop j pn) b)"

definition base_uint_mul :: "base_uint \<Rightarrow> base_uint \<Rightarrow> base_uint" where
  "base_uint_mul a b = fold (mul_round a b) [0..<length a] (replicate (length a) 0)"

section \<open>Shifts, comparison and division\<close>

definition or_at :: "nat \<Rightarrow> uint32 \<Rightarrow> base_uint \<Rightarrow> base_uint" where
  "or_at i w pn = (if i < length pn then pn[i := pn ! i OR w] else pn)"

definition shl_step :: "base_uint \<Rightarrow> nat \<Rightarrow> nat \<Rightarrow> nat \<Rightarrow> base_uint \<Rightarrow> base_uint" where
  "shl_step a k s i pn =
    or_at (i + k) (push_bit s (a ! i)) (if s \<noteq> 0 then or_at (i + k + 1) (drop_bit (32 - s) (a ! i)) pn else pn)"

definition base_uint_shl :: "base_uint \<Rightarrow> nat \<Rightarrow> base_uint" where
  "base_uint_shl a shift = fold (shl_step a (shift div 32) (shift mod 32)) [0..<length a] (replicate (length a) 0)"

definition shr_step :: "base_uint \<Rightarrow> nat \<Rightarrow> nat \<Rightarrow> nat \<Rightarrow> base_uint \<Rightarrow> base_uint" where
  "shr_step a k s i pn =
    (let pn' = (if k + 1 \<le> i \<and> s \<noteq> 0 then or_at (i - k - 1) (push_bit (32 - s) (a ! i)) pn else pn)
     in if k \<le> i then or_at (i - k) (drop_bit s (a ! i)) pn' else pn')"

definition base_uint_shr :: "base_uint \<Rightarrow> nat \<Rightarrow> base_uint" where
  "base_uint_shr a shift = fold (shr_step a (shift div 32) (shift mod 32)) [0..<length a] (replicate (length a) 0)"

text \<open>The comparison goes down from the highest limb.\<close>

fun compare_down :: "(uint32 \<times> uint32) list \<Rightarrow> int" where
  "compare_down [] = 0"
| "compare_down ((p, q) # rest) = (if p < q then - 1 else if p > q then 1 else compare_down rest)"

definition base_uint_CompareTo :: "base_uint \<Rightarrow> base_uint \<Rightarrow> int" where
  "base_uint_CompareTo pn b = compare_down (rev (zip pn b))"

definition base_uint_EqualTo :: "base_uint \<Rightarrow> uint64 \<Rightarrow> bool" where
  "base_uint_EqualTo pn b \<longleftrightarrow>
    list_all (\<lambda>p. p = 0) (drop 2 pn) \<and> ucast (pn ! 1) = drop_bit 32 b \<and> ucast (pn ! 0) = b AND 0xffffffff"

text \<open>The number of bits of a limb that is not zero, and of the whole number.\<close>

fun limb_bits :: "nat \<Rightarrow> uint32 \<Rightarrow> nat" where
  "limb_bits 0 p = 1"
| "limb_bits (Suc b) p = (if p AND push_bit (Suc b) 1 \<noteq> 0 then Suc b + 1 else limb_bits b p)"

fun base_uint_bits_down :: "uint32 list \<Rightarrow> nat" where
  "base_uint_bits_down [] = 0"
| "base_uint_bits_down (p # ps) = (if p \<noteq> 0 then 32 * length ps + limb_bits 31 p else base_uint_bits_down ps)"

definition base_uint_bits :: "base_uint \<Rightarrow> nat" where
  "base_uint_bits pn = base_uint_bits_down (rev pn)"

text \<open>The division loop runs for \<^verbatim>\<open>shift\<close> from the difference of the lengths down to zero; the argument is the next \<^verbatim>\<open>shift\<close> plus one.\<close>

fun div_loop :: "nat \<Rightarrow> base_uint \<Rightarrow> base_uint \<Rightarrow> base_uint \<Rightarrow> base_uint \<times> base_uint" where
  "div_loop 0 num dv quo = (quo, num)"
| "div_loop (Suc shift) num dv quo =
    (if base_uint_CompareTo num dv \<ge> 0
     then div_loop shift (base_uint_sub num dv) (base_uint_shr dv 1) (or_at (shift div 32) (push_bit (shift mod 32) 1) quo)
     else div_loop shift num (base_uint_shr dv 1) quo)"

datatype uint_error = DivisionByZero | WrongVectorSize

definition base_uint_div :: "base_uint \<Rightarrow> base_uint \<Rightarrow> uint_error + base_uint" where
  "base_uint_div num b =
    (let num_bits = base_uint_bits num; div_bits = base_uint_bits b; quo = replicate (length num) 0
     in if div_bits = 0 then Inl DivisionByZero
        else if div_bits > num_bits then Inr quo
        else let shift = num_bits - div_bits in Inr (fst (div_loop (Suc shift) num (base_uint_shl b shift) quo)))"

section \<open>The number behind the limbs\<close>

fun limbs :: "uint32 list \<Rightarrow> nat" where
  "limbs [] = 0"
| "limbs (p # ps) = unat p + 2 ^ 32 * limbs ps"

lemma unat_limb_less [simp]: "unat (p :: uint32) < 2 ^ 32"
  using unsigned_less [of p, where 'a = nat] by simp

lemma limbs_less: "limbs ps < 2 ^ (32 * length ps)"
proof (induction ps)
  case (Cons p ps)
  have "unat p + 2 ^ 32 * limbs ps < 2 ^ 32 * (limbs ps + 1)" using unat_limb_less [of p] by simp
  also have "\<dots> \<le> 2 ^ 32 * 2 ^ (32 * length ps)" using Cons.IH by (intro mult_le_mono2) simp
  finally show ?case by (simp add: power_add)
qed simp

lemma limbs_append: "limbs (ps @ qs) = limbs ps + 2 ^ (32 * length ps) * limbs qs"
  by (induction ps) (simp_all add: power_add algebra_simps)

lemma limbs_replicate [simp]: "limbs (replicate n 0) = 0"
  by (induction n) simp_all

lemma limbs_inj: "length ps = length qs \<Longrightarrow> limbs ps = limbs qs \<longleftrightarrow> ps = qs"
proof (induction ps qs rule: list_induct2)
  case (Cons p ps q qs)
  have "limbs (p # ps) mod 2 ^ 32 = unat p" "limbs (q # qs) mod 2 ^ 32 = unat q"
    "limbs (p # ps) div 2 ^ 32 = limbs ps" "limbs (q # qs) div 2 ^ 32 = limbs qs"
    using unat_limb_less [of p] unat_limb_less [of q] by simp_all
  then show ?case using Cons.IH by (metis list.inject word_unat_eq_iff)
qed simp

lemma limb_step: "lo < (B::nat) \<Longrightarrow> lo + B * (hi mod M) = (lo + B * hi) mod (B * M)"
  by (simp add: mod_mult2_eq)

text \<open>The terms of a carry loop, in which no 64 bit sum wraps.\<close>

fun term_sum :: "uint64 list \<Rightarrow> nat" where
  "term_sum [] = 0"
| "term_sum (t # ts) = unat t + 2 ^ 32 * term_sum ts"

lemma length_carry_loop [simp]: "length (carry_loop c ts) = length ts"
  by (induction c ts rule: carry_loop.induct) (simp_all add: Let_def)

lemma limbs_carry_loop:
  assumes "unat c < 2 ^ 32" "\<forall>t \<in> set ts. unat t \<le> 2 ^ 64 - 2 ^ 32"
  shows "limbs (carry_loop c ts) = (unat c + term_sum ts) mod 2 ^ (32 * length ts)"
  using assms
proof (induction c ts rule: carry_loop.induct)
  case (2 c t ts)
  let ?n = "c + t"
  have "unat c + unat t < 2 ^ LENGTH(64)" using "2.prems" by (auto simp: less_eq_iff_succ_less)
  then have n: "unat ?n = unat c + unat t" by (rule unat_add_lem [THEN iffD1])
  have lo: "unat (ucast (?n AND 0xffffffff) :: uint32) = unat ?n mod 2 ^ 32"
  proof -
    have "?n AND 0xffffffff = take_bit 32 ?n" by (simp add: take_bit_eq_mask mask_eq_exp_minus_1)
    moreover have "unat (ucast (take_bit 32 ?n) :: uint32) = take_bit 32 (take_bit 32 (unat ?n))"
      by (simp only: unsigned_ucast_eq unsigned_take_bit_eq) simp
    ultimately show ?thesis by (simp only: take_bit_eq_mod mod_mod_trivial)
  qed
  have hi: "unat (drop_bit 32 ?n) = unat ?n div 2 ^ 32" by (simp add: unat_div drop_bit_eq_div)
  have "unat ?n < 2 ^ 64" using unsigned_less [of ?n, where 'a = nat] by simp
  then have c': "unat (drop_bit 32 ?n) < 2 ^ 32" by (simp add: hi less_mult_imp_div_less)
  have "limbs (carry_loop c (t # ts)) =
      unat ?n mod 2 ^ 32 + 2 ^ 32 * ((unat ?n div 2 ^ 32 + term_sum ts) mod 2 ^ (32 * length ts))"
    using "2.IH" [OF refl c'] "2.prems"(2) lo hi by (simp add: Let_def)
  also have "\<dots> = (unat ?n mod 2 ^ 32 + 2 ^ 32 * (unat ?n div 2 ^ 32 + term_sum ts)) mod (2 ^ 32 * 2 ^ (32 * length ts))"
    by (rule limb_step) simp
  also have "unat ?n mod 2 ^ 32 + 2 ^ 32 * (unat ?n div 2 ^ 32 + term_sum ts) = unat ?n + 2 ^ 32 * term_sum ts"
    by (simp add: algebra_simps)
  finally show ?case by (simp add: n power_add algebra_simps)
qed simp


lemma unat_two_limbs:
  "unat (ucast (p :: uint32) + ucast (q :: uint32) :: uint64) = unat p + unat q"
  "unat (ucast p * ucast q :: uint64) = unat p * unat q"
  "unat (ucast r + ucast p * ucast q :: uint64) = unat (r :: uint32) + unat p * unat q"
proof -
  have le: "unat x \<le> 2 ^ 32 - 1" for x :: uint32 using unat_limb_less [of x] by simp
  have pq: "unat p * unat q \<le> (2 ^ 32 - 1) * (2 ^ 32 - 1)" by (intro mult_le_mono le)
  have u: "unat (ucast x :: uint64) = unat x" for x :: uint32
    using unat_limb_less [of x] by (simp add: unsigned_ucast_eq take_bit_nat_eq_self)
  show "unat (ucast p + ucast q :: uint64) = unat p + unat q"
    using le [of p] le [of q] by (subst unat_add_lem [THEN iffD1]) (simp_all add: u)
  show m: "unat (ucast p * ucast q :: uint64) = unat p * unat q"
    using pq by (subst unat_mult_lem [THEN iffD1]) (simp_all add: u)
  show "unat (ucast r + ucast p * ucast q :: uint64) = unat r + unat p * unat q"
    using pq le [of r] by (subst unat_add_lem [THEN iffD1]) (simp_all add: u m)
qed

lemma term_bounds:
  "unat (ucast (p :: uint32) + ucast (q :: uint32) :: uint64) \<le> 2 ^ 64 - 2 ^ 32"
  "unat (ucast p * ucast q :: uint64) \<le> 2 ^ 64 - 2 ^ 32"
  "unat (ucast (r :: uint32) + ucast p * ucast q :: uint64) \<le> 2 ^ 64 - 2 ^ 32"
proof -
  have le: "unat x \<le> 2 ^ 32 - 1" for x :: uint32 using unat_limb_less [of x] by simp
  have pq: "unat p * unat q \<le> (2 ^ 32 - 1) * (2 ^ 32 - 1)" by (intro mult_le_mono le)
  show "unat (ucast p + ucast q :: uint64) \<le> 2 ^ 64 - 2 ^ 32" "unat (ucast p * ucast q :: uint64) \<le> 2 ^ 64 - 2 ^ 32"
    "unat (ucast r + ucast p * ucast q :: uint64) \<le> 2 ^ 64 - 2 ^ 32"
    using le [of p] le [of q] le [of r] pq by (simp_all add: unat_two_limbs)
qed

section \<open>Sums, products and complements on numbers\<close>

lemma length_base_uint_add [simp]: "length (base_uint_add a b) = min (length a) (length b)"
  by (simp add: base_uint_add_def)

lemma limbs_add:
  assumes "length a = length b"
  shows "limbs (base_uint_add a b) = (limbs a + limbs b) mod 2 ^ (32 * length a)"
proof -
  have "term_sum (map2 (\<lambda>p q. ucast p + ucast q) a b) = limbs a + limbs b"
    using assms by (induction a b rule: list_induct2) (simp_all add: unat_two_limbs algebra_simps)
  then show ?thesis
    using assms by (simp add: base_uint_add_def limbs_carry_loop term_bounds [simplified] split_beta)
qed

lemma limbs_mul32: "limbs (base_uint_mul32 a b32) = limbs a * unat b32 mod 2 ^ (32 * length a)"
proof -
  have "term_sum (map (\<lambda>p. ucast b32 * ucast p) a) = limbs a * unat b32"
    by (induction a) (simp_all add: unat_two_limbs algebra_simps)
  then show ?thesis by (simp add: base_uint_mul32_def limbs_carry_loop term_bounds [simplified])
qed

lemma length_mul_round: "length pn = length b \<Longrightarrow> j \<le> length pn \<Longrightarrow> length (mul_round a b j pn) = length pn"
  by (simp add: mul_round_def)

lemma limbs_mul_round:
  assumes "length pn = length b" "j \<le> length b"
  shows "limbs (mul_round a b j pn) = (limbs pn + 2 ^ (32 * j) * (unat (a ! j) * limbs b)) mod 2 ^ (32 * length b)"
proof -
  let ?W = "length b"
  let ?M = "2 ^ (32 * (?W - j)) :: nat" and ?B = "2 ^ (32 * j) :: nat"
  have BM: "?B * ?M = 2 ^ (32 * ?W)" using assms(2) by (simp flip: power_add add: distrib_left [symmetric])
  have terms: "term_sum (map2 (\<lambda>p q. ucast p + ucast x * ucast q) ps qs) = limbs ps + unat x * limbs (take (length ps) qs)"
    if "length ps \<le> length qs" for x :: uint32 and ps qs
    using that
  proof (induction ps arbitrary: qs)
    case (Cons p ps)
    then show ?case by (cases qs) (simp_all add: unat_two_limbs algebra_simps)
  qed simp
  let ?t = "limbs (take (?W - j) b)"
  have b: "limbs b = ?t + ?M * limbs (drop (?W - j) b)"
    using limbs_append [of "take (?W - j) b" "drop (?W - j) b"] by simp
  have pn: "limbs pn = limbs (take j pn) + ?B * limbs (drop j pn)"
    using limbs_append [of "take j pn" "drop j pn"] assms by simp
  have "limbs (mul_round a b j pn) = limbs (take j pn) + ?B * ((limbs (drop j pn) + unat (a ! j) * ?t) mod ?M)"
    using assms
    by (simp add: mul_round_def limbs_append limbs_carry_loop terms term_bounds [simplified] split_beta)
  also have "\<dots> = (limbs (take j pn) + ?B * (limbs (drop j pn) + unat (a ! j) * ?t)) mod (?B * ?M)"
    using limbs_less [of "take j pn"] assms by (intro limb_step) simp
  also have "\<dots> = (limbs pn + ?B * (unat (a ! j) * ?t) + ?B * ?M * (unat (a ! j) * limbs (drop (?W - j) b))) mod (?B * ?M)"
  proof -
    have "limbs (take j pn) + ?B * (limbs (drop j pn) + unat (a ! j) * ?t) = limbs pn + ?B * (unat (a ! j) * ?t)"
      by (simp add: pn algebra_simps)
    then show ?thesis by (simp only: mod_mult_self2)
  qed
  also have "\<dots> = (limbs pn + ?B * (unat (a ! j) * limbs b)) mod (?B * ?M)"
    by (simp only: b algebra_simps)
  finally show ?thesis by (simp only: BM)
qed

lemma limbs_mul:
  assumes "length a = length b"
  shows "limbs (base_uint_mul a b) = limbs a * limbs b mod 2 ^ (32 * length a) \<and> length (base_uint_mul a b) = length a"
proof -
  let ?W = "length b"
  have "limbs (fold (mul_round a b) [0..<j] (replicate ?W 0)) = limbs (take j a) * limbs b mod 2 ^ (32 * ?W) \<and>
      length (fold (mul_round a b) [0..<j] (replicate ?W 0)) = ?W" if "j \<le> ?W" for j
    using that
  proof (induction j)
    case (Suc j)
    let ?pn = "fold (mul_round a b) [0..<j] (replicate ?W 0)"
    from Suc have IH: "limbs ?pn = limbs (take j a) * limbs b mod 2 ^ (32 * ?W)" "length ?pn = ?W" by simp_all
    have "limbs (take (Suc j) a) = limbs (take j a) + 2 ^ (32 * j) * unat (a ! j)"
      using Suc.prems assms by (simp add: take_Suc_conv_app_nth limbs_append)
    then have "limbs (take (Suc j) a) * limbs b = limbs (take j a) * limbs b + 2 ^ (32 * j) * (unat (a ! j) * limbs b)"
      by (simp add: algebra_simps)
    then show ?case
      using Suc.prems IH by (simp add: limbs_mul_round length_mul_round mod_add_left_eq)
  qed simp
  from this [of ?W] show ?thesis using assms by (simp add: base_uint_mul_def)
qed

lemma unat_minus_1: "unat (- 1 :: uint32) = 2 ^ 32 - 1"
  by (simp add: unsigned_minus_1_eq_mask mask_eq_exp_minus_1)

lemma limbs_not: "limbs (map NOT a) + limbs a + 1 = 2 ^ (32 * length a)"
proof (induction a)
  case (Cons p a)
  have "NOT p = - 1 - p" by (simp add: not_eq_complement)
  then have "unat (NOT p) = 2 ^ 32 - 1 - unat p"
    by (simp add: unat_sub unat_minus_1)
  then have "unat (NOT p) + unat p = 2 ^ 32 - 1" using unat_limb_less [of p] by simp
  then have "limbs (map NOT (p # a)) + limbs (p # a) + 1 = 2 ^ 32 * (limbs (map NOT a) + limbs a + 1)" by simp
  then show ?case by (simp only: Cons.IH) (simp add: power_add)
qed simp

lemma length_incr [simp]: "length (base_uint_incr a) = length a"
  by (induction a) simp_all

lemma limbs_incr: "limbs (base_uint_incr a) = (limbs a + 1) mod 2 ^ (32 * length a)"
proof (induction a)
  case (Cons p a)
  show ?case
  proof (cases "p + 1 = 0")
    case True
    then have "p = - 1" by (simp add: eq_neg_iff_add_eq_0)
    then have p: "unat p = 2 ^ 32 - 1" by (simp add: unat_minus_1)
    have "limbs (base_uint_incr (p # a)) = 0 + 2 ^ 32 * ((limbs a + 1) mod 2 ^ (32 * length a))"
      using True Cons.IH by simp
    also have "\<dots> = (0 + 2 ^ 32 * (limbs a + 1)) mod (2 ^ 32 * 2 ^ (32 * length a))" by (rule limb_step) simp
    finally show ?thesis using p by (simp add: power_add algebra_simps)
  next
    case False
    then have "unat (p + 1) = unat p + 1" using unatSuc [of p] by (simp add: add.commute)
    then have "limbs (base_uint_incr (p # a)) = limbs (p # a) + 1" using False by simp
    moreover have "limbs (p # a) + 1 < 2 ^ (32 * length (p # a))"
      using limbs_less [of "base_uint_incr (p # a)"] calculation False by simp
    ultimately show ?thesis by simp
  qed
qed simp

lemma limbs_neg: "limbs (base_uint_neg a) = (2 ^ (32 * length a) - limbs a) mod 2 ^ (32 * length a)"
proof -
  have "limbs (map NOT a) + 1 = 2 ^ (32 * length a) - limbs a" using limbs_not [of a] by linarith
  then show ?thesis by (simp add: base_uint_neg_def limbs_incr)
qed

lemma length_neg [simp]: "length (base_uint_neg a) = length a"
  by (simp add: base_uint_neg_def)

lemma limbs_sub:
  assumes "length a = length b" "limbs b \<le> limbs a"
  shows "limbs (base_uint_sub a b) = limbs a - limbs b"
proof -
  let ?M = "2 ^ (32 * length a) :: nat"
  have "limbs a < ?M" "limbs b < ?M" using limbs_less [of a] limbs_less [of b] assms(1) by simp_all
  then have "(limbs a + (?M - limbs b)) mod ?M = limbs a - limbs b"
    using assms(2) by (simp add: mod_if)
  then show ?thesis using assms(1) by (simp add: base_uint_sub_def limbs_add limbs_neg mod_add_right_eq)
qed

section \<open>Shifts on numbers\<close>

lemma nat_or_push_bit:
  assumes "lo < 2 ^ k"
  shows "lo OR push_bit k hi = lo + 2 ^ k * (hi :: nat)"
proof -
  have "take_bit k lo = lo" using assms by (simp add: take_bit_nat_eq_self)
  then have "\<not> bit lo n" if "k \<le> n" for n using that by (metis bit_take_bit_iff not_le)
  then have "lo AND push_bit k hi = 0" by (intro bit_eqI) (auto simp: bit_and_iff bit_push_bit_iff)
  then show ?thesis by (simp add: disjunctive_add_eq_or push_bit_eq_mult mult.commute)
qed

lemma limb_pos: "x = 32 * q + r \<Longrightarrow> r < 32 \<Longrightarrow> x div 32 = q \<and> x mod 32 = (r :: nat)"
  by simp

lemma bit_limbs: "bit (limbs a) n \<longleftrightarrow> n < 32 * length a \<and> bit (a ! (n div 32)) (n mod 32)"
proof (induction a arbitrary: n)
  case (Cons p a)
  have "limbs (p # a) = unat p OR push_bit 32 (limbs a)"
    by (simp add: nat_or_push_bit [OF unat_limb_less] del: push_bit_nat_eq)
  then have "bit (limbs (p # a)) n \<longleftrightarrow> bit (unat p) n \<or> 32 \<le> n \<and> bit (limbs a) (n - 32)"
    by (simp add: bit_or_iff bit_push_bit_iff)
  also have "\<dots> \<longleftrightarrow> n < 32 * length (p # a) \<and> bit ((p # a) ! (n div 32)) (n mod 32)"
  proof (cases "n < 32")
    case True
    then show ?thesis by (simp add: bit_unsigned_iff)
  next
    case False
    then have "n div 32 = Suc ((n - 32) div 32)" "(n - 32) mod 32 = n mod 32" by (simp_all add: le_div_geq le_mod_geq)
    moreover have "\<not> bit p n" using bit_imp_le_length [of p n] False by auto
    ultimately show ?thesis using False Cons.IH [of "n - 32"] by (auto simp: bit_unsigned_iff)
  qed
  finally show ?case .
qed simp

lemma length_or_at [simp]: "length (or_at i w pn) = length pn"
  by (simp add: or_at_def)

lemma bit_or_at: "m < length pn \<Longrightarrow> bit (or_at i w pn ! m) t \<longleftrightarrow> bit (pn ! m) t \<or> i = m \<and> bit w t"
  by (auto simp: or_at_def nth_list_update bit_or_iff)

lemma limbs_or_at:
  assumes "i < length pn"
  shows "limbs (or_at i w pn) = limbs pn OR push_bit (32 * i) (unat w)"
proof (rule bit_eqI)
  fix n
  have w: "bit w k \<Longrightarrow> k < 32" for k using bit_imp_le_length [of w k] by simp
  show "bit (limbs (or_at i w pn)) n = bit (limbs pn OR push_bit (32 * i) (unat w)) n"
  proof (cases "n < 32 * length pn")
    case True
    have "i = n div 32 \<and> bit w (n mod 32) \<longleftrightarrow> 32 * i \<le> n \<and> bit w (n - 32 * i)"
    proof
      assume "32 * i \<le> n \<and> bit w (n - 32 * i)"
      with w [of "n - 32 * i"] have "n div 32 = i" "n mod 32 = n - 32 * i"
        by (auto simp: div_nat_eqI modulo_nat_def)
      with \<open>32 * i \<le> n \<and> bit w (n - 32 * i)\<close> show "i = n div 32 \<and> bit w (n mod 32)" by simp
    qed (auto simp: minus_mult_div_eq_mod)
    then show ?thesis
      using True by (auto simp: bit_limbs bit_or_iff bit_push_bit_iff bit_unsigned_iff bit_or_at)
  next
    case False
    moreover have "n - 32 * i < 32 \<Longrightarrow> n < 32 * length pn" using assms by linarith
    ultimately show ?thesis using w [of "n - 32 * i"]
      by (auto simp: bit_limbs bit_or_iff bit_push_bit_iff bit_unsigned_iff)
  qed
qed

lemma length_shl_step [simp]: "length (shl_step a k s i pn) = length pn"
  by (simp add: shl_step_def)

lemma length_shl_fold [simp]: "length (fold (shl_step a k s) is pn) = length pn"
  by (induction "is" arbitrary: pn) simp_all

lemma bit_shl_fold:
  "m < length pn \<Longrightarrow> bit (fold (shl_step a k s) is pn ! m) t \<longleftrightarrow>
    bit (pn ! m) t \<or> (\<exists>i \<in> set is. i + k = m \<and> bit (push_bit s (a ! i)) t \<or> s \<noteq> 0 \<and> i + k + 1 = m \<and> bit (drop_bit (32 - s) (a ! i)) t)"
  by (induction "is" arbitrary: pn) (auto simp: shl_step_def bit_or_at)

lemma length_shl [simp]: "length (base_uint_shl a shift) = length a"
  by (simp add: base_uint_shl_def)

lemma bit_shl_limb:
  assumes m: "m < length a" and "shift = 32 * k + s" "s < 32"
  shows "bit (base_uint_shl a shift ! m) t \<longleftrightarrow> t < 32 \<and>
    (k \<le> m \<and> s \<le> t \<and> bit (a ! (m - k)) (t - s) \<or> s \<noteq> 0 \<and> k + 1 \<le> m \<and> bit (a ! (m - k - 1)) (32 - s + t))"
proof (cases "t < 32")
  case True
  have "(\<exists>i \<in> set [0..<length a]. i + k = m \<and> bit (push_bit s (a ! i)) t \<or> s \<noteq> 0 \<and> i + k + 1 = m \<and> bit (drop_bit (32 - s) (a ! i)) t) \<longleftrightarrow>
      k \<le> m \<and> bit (push_bit s (a ! (m - k))) t \<or> s \<noteq> 0 \<and> k + 1 \<le> m \<and> bit (drop_bit (32 - s) (a ! (m - k - 1))) t" (is "?l \<longleftrightarrow> ?r")
  proof
    assume ?r
    then show ?l
    proof
      assume "k \<le> m \<and> bit (push_bit s (a ! (m - k))) t"
      then show ?thesis using m by (intro bexI [of _ "m - k"]) auto
    next
      assume "s \<noteq> 0 \<and> k + 1 \<le> m \<and> bit (drop_bit (32 - s) (a ! (m - k - 1))) t"
      then show ?thesis using m by (intro bexI [of _ "m - k - 1"]) auto
    qed
  qed auto
  then show ?thesis
    using assms True by (simp add: base_uint_shl_def bit_shl_fold bit_push_bit_iff bit_drop_bit_eq add.commute)
qed (use bit_imp_le_length [of "base_uint_shl a shift ! m" t] in auto)

lemma limbs_shl: "limbs (base_uint_shl a shift) = limbs a * 2 ^ shift mod 2 ^ (32 * length a)"
proof -
  obtain k s :: nat where shift: "shift = 32 * k + s" and s: "s < 32" by (rule that [of "shift div 32" "shift mod 32"]) simp_all
  have "limbs (base_uint_shl a shift) = take_bit (32 * length a) (push_bit shift (limbs a))"
  proof (rule bit_eqI)
    fix n :: nat
    obtain m t where n: "n = 32 * m + t" and t: "t < 32" by (rule that [of "n div 32" "n mod 32"]) simp_all
    have hi: "bit (a ! i) (32 - s + t) \<Longrightarrow> t < s" for i
      using bit_imp_le_length [of "a ! i" "32 - s + t"] s by simp
    have "shift \<le> n \<longleftrightarrow> (if s \<le> t then k \<le> m else k + 1 \<le> m)" using n shift s t by auto
    moreover have "n - shift = 32 * (m - k) + (t - s)" if "s \<le> t" "k \<le> m" using that n shift by simp
    then have "(n - shift) div 32 = m - k \<and> (n - shift) mod 32 = t - s" if "s \<le> t" "k \<le> m"
      using that t by (intro limb_pos) simp_all
    moreover have "n - shift = 32 * (m - k - 1) + (32 - s + t)" if "t < s" "k + 1 \<le> m" using that n shift s by simp
    then have "(n - shift) div 32 = m - k - 1 \<and> (n - shift) mod 32 = 32 - s + t" if "t < s" "k + 1 \<le> m"
      using that s by (intro limb_pos) simp_all
    ultimately have "shift \<le> n \<and> bit (a ! ((n - shift) div 32)) ((n - shift) mod 32) \<longleftrightarrow>
        k \<le> m \<and> s \<le> t \<and> bit (a ! (m - k)) (t - s) \<or> s \<noteq> 0 \<and> k + 1 \<le> m \<and> bit (a ! (m - k - 1)) (32 - s + t)"
      using hi [of "m - k - 1"] by (cases "s \<le> t") auto
    moreover have "n < 32 * length a \<longleftrightarrow> m < length a" "n div 32 = m" "n mod 32 = t" using n t by auto
    ultimately show "bit (limbs (base_uint_shl a shift)) n = bit (take_bit (32 * length a) (push_bit shift (limbs a))) n"
      using t by (auto simp: bit_limbs bit_take_bit_iff bit_push_bit_iff bit_shl_limb [OF _ shift s])
  qed
  then show ?thesis by (simp add: take_bit_eq_mod push_bit_eq_mult)
qed

lemma length_shr_step [simp]: "length (shr_step a k s i pn) = length pn"
  by (simp add: shr_step_def Let_def)

lemma length_shr_fold [simp]: "length (fold (shr_step a k s) is pn) = length pn"
  by (induction "is" arbitrary: pn) simp_all

lemma length_shr [simp]: "length (base_uint_shr a shift) = length a"
  by (simp add: base_uint_shr_def)

lemma bit_shr_fold:
  "m < length pn \<Longrightarrow> bit (fold (shr_step a k s) is pn ! m) t \<longleftrightarrow>
    bit (pn ! m) t \<or> (\<exists>i \<in> set is. i = m + k + 1 \<and> s \<noteq> 0 \<and> bit (push_bit (32 - s) (a ! i)) t \<or> i = m + k \<and> bit (drop_bit s (a ! i)) t)"
  by (induction "is" arbitrary: pn) (auto simp: shr_step_def bit_or_at Let_def)

lemma bit_shr_limb:
  assumes m: "m < length a" and "shift = 32 * k + s" "s < 32"
  shows "bit (base_uint_shr a shift ! m) t \<longleftrightarrow> t < 32 \<and>
    (m + k + 1 < length a \<and> s \<noteq> 0 \<and> 32 - s \<le> t \<and> bit (a ! (m + k + 1)) (t - (32 - s)) \<or>
     m + k < length a \<and> bit (a ! (m + k)) (s + t))"
proof (cases "t < 32")
  case True
  then show ?thesis
    using assms by (auto simp: base_uint_shr_def bit_shr_fold bit_push_bit_iff bit_drop_bit_eq)
qed (use bit_imp_le_length [of "base_uint_shr a shift ! m" t] in auto)

lemma limbs_shr: "limbs (base_uint_shr a shift) = limbs a div 2 ^ shift"
proof -
  obtain k s :: nat where shift: "shift = 32 * k + s" and s: "s < 32" by (rule that [of "shift div 32" "shift mod 32"]) simp_all
  have "limbs (base_uint_shr a shift) = drop_bit shift (limbs a)"
  proof (rule bit_eqI)
    fix n :: nat
    obtain m t where n: "n = 32 * m + t" and t: "t < 32" by (rule that [of "n div 32" "n mod 32"]) simp_all
    have hi: "bit (a ! i) (s + t) \<Longrightarrow> s + t < 32" for i
      using bit_imp_le_length [of "a ! i" "s + t"] by simp
    have "(n + shift) div 32 = m + k \<and> (n + shift) mod 32 = s + t" if "s + t < 32"
      using that n shift by (intro limb_pos) simp_all
    moreover have "(n + shift) div 32 = m + k + 1 \<and> (n + shift) mod 32 = t - (32 - s)" if "32 \<le> s + t"
      using that n shift s t by (intro limb_pos) simp_all
    moreover have "n + shift < 32 * length a \<longleftrightarrow> (if s + t < 32 then m + k < length a else m + k + 1 < length a)"
      using n shift s t by auto
    ultimately have "n + shift < 32 * length a \<and> bit (a ! ((n + shift) div 32)) ((n + shift) mod 32) \<longleftrightarrow>
        m + k + 1 < length a \<and> s \<noteq> 0 \<and> 32 - s \<le> t \<and> bit (a ! (m + k + 1)) (t - (32 - s)) \<or>
        m + k < length a \<and> bit (a ! (m + k)) (s + t)"
      using hi [of "m + k"] t by (cases "s + t < 32") auto
    moreover have "n < 32 * length a \<longleftrightarrow> m < length a" "n div 32 = m" "n mod 32 = t" using n t by auto
    ultimately have L: "bit (limbs (base_uint_shr a shift)) n \<longleftrightarrow>
        n < 32 * length a \<and> n + shift < 32 * length a \<and> bit (a ! ((n + shift) div 32)) ((n + shift) mod 32)"
      using t by (auto simp: bit_limbs bit_shr_limb [OF _ shift s])
    show "bit (limbs (base_uint_shr a shift)) n = bit (drop_bit shift (limbs a)) n"
      unfolding L by (simp add: bit_limbs bit_drop_bit_eq add.commute) linarith
  qed
  then show ?thesis by (simp add: drop_bit_eq_div)
qed

section \<open>Comparison and division on numbers\<close>

lemma compare_down_snoc: "compare_down (xs @ [(p, q)]) = (if compare_down xs \<noteq> 0 then compare_down xs else compare_down [(p, q)])"
  by (induction xs rule: compare_down.induct) auto

lemma limbs_Cons_less:
  "limbs (p # a) < limbs (q # b) \<longleftrightarrow> limbs a < limbs b \<or> limbs a = limbs b \<and> p < q"
proof -
  have "unat x + 2 ^ 32 * m < unat y + 2 ^ 32 * n" if "m < n" for x y :: uint32 and m n :: nat
  proof -
    have "unat x + 2 ^ 32 * m < 2 ^ 32 * Suc m" using unat_limb_less [of x] by simp
    also have "\<dots> \<le> 2 ^ 32 * n" using that by (intro mult_le_mono2) simp
    finally show ?thesis by simp
  qed
  from this [of "limbs a" "limbs b" p q] this [of "limbs b" "limbs a" q p] show ?thesis
    by (cases "limbs a" "limbs b" rule: linorder_cases) (auto simp: word_less_nat_alt)
qed

lemma limbs_CompareTo:
  assumes "length a = length b"
  shows "base_uint_CompareTo a b = (if limbs a < limbs b then - 1 else if limbs b < limbs a then 1 else 0)"
  using assms unfolding base_uint_CompareTo_def
proof (induction a b rule: list_induct2)
  case (Cons p a q b)
  then show ?case by (simp add: compare_down_snoc limbs_Cons_less del: limbs.simps)
qed simp

lemma limb_bits_le: "p \<noteq> 0 \<Longrightarrow> unat p < 2 ^ Suc b \<Longrightarrow> b < 32 \<Longrightarrow> unat p < 2 ^ n \<longleftrightarrow> limb_bits b p \<le> n"
proof (induction b)
  case 0
  then have "unat p = 1" by (metis One_nat_def less_2_cases power_Suc0_right unat_eq_zero)
  then have "unat p < 2 ^ n \<longleftrightarrow> (2::nat) ^ 0 < 2 ^ n" by simp
  also have "\<dots> \<longleftrightarrow> 0 < n" by (rule power_strict_increasing_iff) simp
  finally show ?case by auto
next
  case (Suc b)
  have bit: "p AND push_bit (Suc b) 1 \<noteq> 0 \<longleftrightarrow> bit p (Suc b)"
    by (metis and_exp_eq_0_iff_not_bit push_bit_of_1)
  have "bit p (Suc b) \<longleftrightarrow> odd (unat p div 2 ^ Suc b)" 
    using bit_iff_odd [of "unat p" "Suc b"] by (simp add: bit_unsigned_iff)
  also have "\<dots> \<longleftrightarrow> 2 ^ Suc b \<le> unat p"
  proof (cases "2 ^ Suc b \<le> unat p")
    case True
    then have "unat p div 2 ^ Suc b = 1" using Suc.prems(2) by (intro div_nat_eqI) auto
    then show ?thesis using True by simp
  qed simp
  finally have b: "bit p (Suc b) \<longleftrightarrow> 2 ^ Suc b \<le> unat p" .
  show ?case
  proof (cases "2 ^ Suc b \<le> unat p")
    case True
    have "unat p < 2 ^ n \<longleftrightarrow> Suc (Suc b) \<le> n"
    proof
      assume "unat p < 2 ^ n"
      with True have "(2::nat) ^ Suc b < 2 ^ n" by linarith
      then show "Suc (Suc b) \<le> n" by (simp del: power_Suc)
    next
      assume "Suc (Suc b) \<le> n"
      then have "(2::nat) ^ Suc (Suc b) \<le> 2 ^ n" by (intro power_increasing) simp_all
      with Suc.prems(2) show "unat p < 2 ^ n" by linarith
    qed
    then show ?thesis using bit b True by simp
  qed (use bit b Suc in simp)
qed

lemma bits_down_le: "limbs (rev ps) < 2 ^ n \<longleftrightarrow> base_uint_bits_down ps \<le> n"
proof (induction ps)
  case (Cons p ps)
  have eq: "limbs (rev (p # ps)) = limbs (rev ps) + 2 ^ (32 * length ps) * unat p" by (simp add: limbs_append)
  show ?case
  proof (cases "p = 0")
    case False
    have lt: "limbs (rev ps) < 2 ^ (32 * length ps)" using limbs_less [of "rev ps"] by simp
    show ?thesis
    proof (cases "32 * length ps \<le> n")
      case True
      then obtain k where n: "n = 32 * length ps + k" using le_Suc_ex by blast
      have "limbs (rev (p # ps)) < 2 ^ n \<longleftrightarrow> unat p < 2 ^ k"
      proof -
        have "limbs (rev (p # ps)) < 2 ^ n \<longleftrightarrow> limbs (rev (p # ps)) div 2 ^ (32 * length ps) < 2 ^ k"
          by (simp add: n power_add div_less_iff_less_mult mult.commute)
        then show ?thesis using lt unfolding eq by simp
      qed
      also have "\<dots> \<longleftrightarrow> limb_bits 31 p \<le> k" by (rule limb_bits_le) (use False unat_limb_less [of p] in simp_all)
      finally show ?thesis using False n by simp
    next
      case F: False
      then have "(2::nat) ^ n \<le> 2 ^ (32 * length ps)" by (intro power_increasing) simp_all
      moreover have "0 < unat p" using False by (simp add: unat_gt_0)
      then have "2 ^ (32 * length ps) \<le> limbs (rev (p # ps))" unfolding eq by (simp add: trans_le_add2)
      ultimately have "\<not> limbs (rev (p # ps)) < 2 ^ n" by linarith
      then show ?thesis using False F by simp
    qed
  qed (use Cons eq in simp)
qed simp

lemma limbs_bits_le: "limbs a < 2 ^ n \<longleftrightarrow> base_uint_bits a \<le> n"
  using bits_down_le [of "rev a"] by (simp add: base_uint_bits_def)

lemma limbs_bits_lower: "limbs a \<noteq> 0 \<Longrightarrow> 2 ^ (base_uint_bits a - 1) \<le> limbs a"
proof (rule ccontr)
  assume nz: "limbs a \<noteq> 0" and "\<not> 2 ^ (base_uint_bits a - 1) \<le> limbs a"
  then have "base_uint_bits a \<le> base_uint_bits a - 1" by (simp only: limbs_bits_le [symmetric] not_le)
  then show False using nz limbs_bits_le [of a 0] by simp
qed

text \<open>The division loop: the divisor is aligned with the bit to be tried, and the quotient has only higher bits.\<close>

lemma div_loop_correct:
  assumes "0 < B" "length num = length dv" "length quo = length dv"
    and "n \<noteq> 0 \<Longrightarrow> limbs dv = B * 2 ^ (n - 1)" and "limbs num < B * 2 ^ n"
    and "2 ^ n dvd limbs quo" and "n \<le> 32 * length dv"
  shows "limbs (fst (div_loop n num dv quo)) = limbs quo + limbs num div B \<and>
    limbs (snd (div_loop n num dv quo)) = limbs num mod B \<and>
    length (fst (div_loop n num dv quo)) = length dv \<and> length (snd (div_loop n num dv quo)) = length dv"
  using assms(2-)
proof (induction n arbitrary: num dv quo)
  case (Suc n)
  let ?dv = "base_uint_shr dv 1"
  have dv: "limbs dv = B * 2 ^ n" using Suc.prems by simp
  have dv': "n \<noteq> 0 \<Longrightarrow> limbs ?dv = B * 2 ^ (n - 1)" by (cases n) (simp_all add: limbs_shr dv)
  have dvd: "2 ^ n dvd limbs quo" using Suc.prems(5) by (meson dvd_power_le le_SucI le_imp_power_dvd dvd_trans le_refl)
  show ?case
  proof (cases "B * 2 ^ n \<le> limbs num")
    case False
    then show ?thesis
      using Suc.IH [of num ?dv quo] Suc.prems dv dv' dvd by (simp add: limbs_CompareTo)
  next
    case True
    let ?num = "base_uint_sub num dv" and ?quo = "or_at (n div 32) (push_bit (n mod 32) 1) quo"
    have len: "length ?num = length ?dv" "length ?quo = length ?dv" using Suc.prems by (simp_all add: base_uint_sub_def)
    have num: "limbs ?num = limbs num - B * 2 ^ n" using Suc.prems(1) True dv by (simp add: limbs_sub)
    have "n < 32 * length dv" using Suc.prems by simp
    then have i: "n div 32 < length quo" using Suc.prems(2) by (simp add: less_mult_imp_div_less mult.commute)
    have "unat (push_bit (n mod 32) 1 :: uint32) = push_bit (n mod 32) 1"
      by (rule bit_eqI) (auto simp: bit_unsigned_iff bit_exp_iff)
    moreover have "push_bit (32 * (n div 32)) (push_bit (n mod 32) 1) = push_bit n (1 :: nat)"
      by (simp only: push_bit_push_bit) simp
    ultimately have "limbs ?quo = limbs quo OR push_bit n 1"
      using limbs_or_at [OF i, of "push_bit (n mod 32) 1"] by simp
    moreover obtain q where q: "limbs quo = 2 ^ Suc n * q" using Suc.prems(5) by (auto elim: dvdE)
    have "push_bit n 1 OR push_bit (Suc n) q = 2 ^ n + 2 ^ Suc n * q"
      using nat_or_push_bit [of "push_bit n 1" "Suc n" q] by (simp add: push_bit_eq_mult)
    ultimately have quo: "limbs ?quo = limbs quo + 2 ^ n"
      by (simp add: q or.commute push_bit_eq_mult mult.commute)
    have B: "limbs num div B = 2 ^ n + (limbs num - B * 2 ^ n) div B" "limbs num mod B = (limbs num - B * 2 ^ n) mod B"
      using True assms(1) by (metis add_diff_inverse_nat div_mult_self4 not_less less_not_refl3, metis add_diff_inverse_nat mod_mult_self4 not_less)
    show ?thesis
      using Suc.IH [of ?num ?dv ?quo] Suc.prems dv dv' dvd True len num quo B
      by (simp add: limbs_CompareTo)
  qed
qed simp

lemma limbs_div:
  assumes "length a = length b" "limbs b \<noteq> 0"
  obtains q where "base_uint_div a b = Inr q" "length q = length a" "limbs q = limbs a div limbs b"
proof -
  let ?n = "base_uint_bits a" and ?d = "base_uint_bits b"
  have d: "?d \<noteq> 0" using limbs_bits_le [of b 0] assms(2) by simp
  show thesis
  proof (cases "?n < ?d")
    case True
    then have "limbs a < 2 ^ (?d - 1)" by (simp add: limbs_bits_le)
    also have "\<dots> \<le> limbs b" using limbs_bits_lower [OF assms(2)] .
    finally show thesis using True d by (intro that [of "replicate (length a) 0"]) (simp_all add: base_uint_div_def Let_def)
  next
    case False
    let ?s = "?n - ?d" and ?dv = "base_uint_shl b (?n - ?d)"
    have "limbs b < 2 ^ ?d" "limbs a < 2 ^ ?n" by (simp_all add: limbs_bits_le)
    have nb: "?n \<le> 32 * length a" using limbs_less [of a] by (simp add: limbs_bits_le)
    have "limbs b * 2 ^ ?s < 2 ^ ?d * 2 ^ ?s" using \<open>limbs b < 2 ^ ?d\<close> by simp
    also have "2 ^ ?d * 2 ^ ?s = (2::nat) ^ ?n" using False by (simp flip: power_add)
    also have "\<dots> \<le> 2 ^ (32 * length a)" using nb by (intro power_increasing) simp_all
    finally have dv: "limbs ?dv = limbs b * 2 ^ ?s" using assms(1) by (simp add: limbs_shl)
    have "2 ^ ?n = 2 ^ (?d - 1) * (2::nat) ^ Suc ?s" using False d by (simp flip: power_add power_Suc)
    also have "\<dots> \<le> limbs b * 2 ^ Suc ?s" by (intro mult_le_mono1 limbs_bits_lower assms)
    finally have num: "limbs a < limbs b * 2 ^ Suc ?s" using \<open>limbs a < 2 ^ ?n\<close> by linarith
    have "Suc ?s \<le> 32 * length ?dv" using nb d False assms(1) by simp
    with div_loop_correct [of "limbs b" a ?dv "replicate (length a) 0" "Suc ?s"] num dv assms
    show thesis using False d
      by (intro that [of "fst (div_loop (Suc ?s) a ?dv (replicate (length a) 0))"])
        (simp_all add: base_uint_div_def Let_def del: div_loop.simps)
  qed
qed

lemma limbs_div_zero: "limbs b = 0 \<Longrightarrow> base_uint_div a b = Inl DivisionByZero"
  using limbs_bits_le [of b 0] by (simp add: base_uint_div_def)

section \<open>256 bit integers\<close>

text \<open>
  The rest of the model holds an \<^verbatim>\<open>arith_uint256\<close>, or a \<^verbatim>\<open>uint256\<close> used as a number, as a 256 bit word. These are its limbs, and
  the operations on limbs are the operations on words.
\<close>

definition pn :: "uint256 \<Rightarrow> base_uint" where
  "pn w = map (\<lambda>i. ucast (drop_bit (32 * i) w)) [0..<8]"

lemma length_pn [simp]: "length (pn w) = 8"
  by (simp add: pn_def)

lemma limbs_pn [simp]: "limbs (pn w) = unat w"
proof (rule bit_eqI)
  fix n :: nat
  have "n < 256 \<Longrightarrow> n div 32 < 8" by simp
  then show "bit (limbs (pn w)) n = bit (unat w) n"
    using bit_imp_le_length [of w n] by (auto simp: bit_limbs pn_def bit_unsigned_iff bit_ucast_iff bit_drop_bit_eq)
qed

lemma eq_pnI: "length a = 8 \<Longrightarrow> limbs a = unat w \<Longrightarrow> a = pn w"
  by (simp add: limbs_inj [symmetric])

lemma limbs_decr: "limbs (base_uint_incr (base_uint_decr a)) = limbs a \<and> length (base_uint_decr a) = length a"
  by (induction a) (auto simp: algebra_simps)

lemma unat_of_mod: "unat (w :: uint256) = n mod 2 ^ 256 \<longleftrightarrow> w = word_of_nat n"
proof
  assume "unat w = n mod 2 ^ 256"
  then have "unat w = unat (word_of_nat n :: uint256)" by (simp add: unsigned_of_nat take_bit_eq_mod)
  then show "w = word_of_nat n" by (simp only: word_unat_eq_iff)
qed (simp add: unsigned_of_nat take_bit_eq_mod)

lemma pn_not: "map NOT (pn w) = pn (NOT w)"
  by (auto simp: pn_def intro!: bit_word_eqI simp: bit_simps)

lemma pn_bitwise:
  "base_uint_xor (pn a) (pn b) = pn (a XOR b)" "base_uint_and (pn a) (pn b) = pn (a AND b)"
  "base_uint_or (pn a) (pn b) = pn (a OR b)"
  by (auto simp: pn_def base_uint_xor_def base_uint_and_def base_uint_or_def intro!: nth_equalityI bit_word_eqI simp: bit_simps)

lemma pn_add: "base_uint_add (pn a) (pn b) = pn (a + b)"
  by (rule eq_pnI) (simp_all add: limbs_add unat_word_ariths)

lemma pn_incr: "base_uint_incr (pn a) = pn (a + 1)"
  by (rule eq_pnI) (simp_all add: limbs_incr unat_word_ariths)

lemma pn_decr: "base_uint_decr (pn a) = pn (a - 1)"
proof (rule eq_pnI)
  let ?d = "base_uint_decr (pn a)"
  have d: "limbs (base_uint_incr ?d) = unat a" "length ?d = 8" using limbs_decr [of "pn a"] by auto
  then show "length ?d = 8" by simp
  have "unat a = (limbs ?d + 1) mod 2 ^ 256" using limbs_incr [of ?d] unfolding d by simp
  then have "a = word_of_nat (limbs ?d + 1)" by (simp only: unat_of_mod)
  then have "a - 1 = word_of_nat (limbs ?d)" by (metis add_diff_cancel_right' of_nat_1 of_nat_add)
  then show "limbs ?d = unat (a - 1)"
    using limbs_less [of ?d] d(2) by (simp add: unsigned_of_nat take_bit_nat_eq_self)
qed

lemma pn_neg: "base_uint_neg (pn a) = pn (- a)"
  by (simp add: base_uint_neg_def pn_not pn_incr minus_eq_not_plus_1)

lemma pn_sub: "base_uint_sub (pn a) (pn b) = pn (a - b)"
  by (simp add: base_uint_sub_def pn_neg pn_add)

lemma pn_mul: "base_uint_mul (pn a) (pn b) = pn (a * b)"
  using limbs_mul [of "pn a" "pn b"] by (intro eq_pnI) (simp_all add: unat_word_ariths)

lemma pn_mul32: "base_uint_mul32 (pn a) b32 = pn (a * ucast b32)"
proof (rule eq_pnI)
  have "unat (ucast b32 :: uint256) = unat b32" using unat_limb_less [of b32] by (simp add: unsigned_ucast_eq take_bit_nat_eq_self)
  then show "limbs (base_uint_mul32 (pn a) b32) = unat (a * ucast b32)" by (simp add: limbs_mul32 unat_word_ariths)
qed (simp add: base_uint_mul32_def)

lemma pn_shl: "base_uint_shl (pn a) n = pn (push_bit n a)"
proof (rule eq_pnI)
  have "unat (push_bit n a) = take_bit 256 (push_bit n (unat a))"
    by (rule bit_eqI) (auto simp: bit_unsigned_iff bit_push_bit_iff bit_take_bit_iff)
  then show "limbs (base_uint_shl (pn a) n) = unat (push_bit n a)"
    by (simp only: limbs_shl limbs_pn length_pn take_bit_eq_mod [where 'a = nat] push_bit_eq_mult [where 'a = nat]) simp
qed simp

lemma pn_shr: "base_uint_shr (pn a) n = pn (drop_bit n a)"
proof (rule eq_pnI)
  have "unat (drop_bit n a) = drop_bit n (unat a)"
    using bit_imp_le_length [of a] by (intro bit_eqI) (force simp: bit_unsigned_iff bit_drop_bit_eq)
  then show "limbs (base_uint_shr (pn a) n) = unat (drop_bit n a)"
    by (simp only: limbs_shr limbs_pn drop_bit_eq_div [where 'a = nat])
qed simp

lemma pn_div: "base_uint_div (pn a) (pn b) = (if b = 0 then Inl DivisionByZero else Inr (pn (a div b)))"
proof (cases "b = 0")
  case False
  then obtain q where q: "base_uint_div (pn a) (pn b) = Inr q" "length q = 8" "limbs q = unat a div unat b"
    using limbs_div [of "pn a" "pn b"] by (auto simp: unat_eq_zero)
  then have "q = pn (a div b)" by (intro eq_pnI) (simp_all add: unat_div)
  with q False show ?thesis by simp
qed (simp add: limbs_div_zero)

lemma pn_CompareTo: "base_uint_CompareTo (pn a) (pn b) = (if a < b then - 1 else if b < a then 1 else 0)"
  by (simp add: limbs_CompareTo word_less_nat_alt)

text \<open>
  C16. The limb arithmetic is 256 bit arithmetic. The carry loops of addition and of both multiplications, the
  increments and the complement, the shifts across limbs, the comparison from the highest limb and the long division
  by shifting and subtracting give the limbs of the sum, the product, the quotient and so on of the words, and division
  by zero is the one error.
\<close>

theorem base_uint_refines:
  "base_uint_add (pn a) (pn b) = pn (a + b) \<and> base_uint_sub (pn a) (pn b) = pn (a - b) \<and>
   base_uint_mul (pn a) (pn b) = pn (a * b) \<and> base_uint_mul32 (pn a) b32 = pn (a * ucast b32) \<and>
   base_uint_neg (pn a) = pn (- a) \<and> base_uint_incr (pn a) = pn (a + 1) \<and> base_uint_decr (pn a) = pn (a - 1) \<and>
   base_uint_shl (pn a) n = pn (push_bit n a) \<and> base_uint_shr (pn a) n = pn (drop_bit n a) \<and>
   base_uint_CompareTo (pn a) (pn b) = (if a < b then - 1 else if b < a then 1 else 0) \<and>
   base_uint_div (pn a) (pn b) = (if b = 0 then Inl DivisionByZero else Inr (pn (a div b)))"
  by (intro conjI pn_add pn_sub pn_mul pn_mul32 pn_neg pn_incr pn_decr pn_shl pn_shr pn_CompareTo pn_div)

end
