(* ===== verification/Compact.thy ===== *)
theory Compact
  imports Arith_Uint
begin

text \<open>
  The compact form of a 256 bit target, \<^verbatim>\<open>SetCompact\<close> and \<^verbatim>\<open>GetCompact\<close> of \<^verbatim>\<open>src/uint256.cpp\<close> and \<^verbatim>\<open>src/arith_uint256.cpp\<close>: an exponent byte, a
  sign bit and a mantissa of 23 bits. \<open>SetCompact\<close> returns the number with the two flags.
\<close>

definition SetCompact :: "uint32 \<Rightarrow> uint256 \<times> bool \<times> bool" where
  "SetCompact nCompact =
    (let nSize = unat (drop_bit 24 nCompact);
         nWord = nCompact AND 0x007fffff;
         (n, nWord) =
           (if nSize \<le> 3 then let nWord = drop_bit (8 * (3 - nSize)) nWord in (ucast nWord, nWord)
            else (push_bit (8 * (nSize - 3)) (ucast nWord), nWord))
     in (n, nWord \<noteq> 0 \<and> nCompact AND 0x00800000 \<noteq> 0,
         nWord \<noteq> 0 \<and> (nSize > 34 \<or> nWord > 0xff \<and> nSize > 33 \<or> nWord > 0xffff \<and> nSize > 32)))"

text \<open>A failed assertion is \<open>None\<close>.\<close>

definition GetCompact :: "bool \<Rightarrow> uint256 \<Rightarrow> uint32 option" where
  "GetCompact fNegative n =
    (let nSize = (base_uint_bits (pn n) + 7) div 8;
         nCompact = (if nSize \<le> 3 then ucast (push_bit (8 * (3 - nSize)) (base_uint_GetLow64 (pn n)))
                     else ucast (base_uint_GetLow64 (pn (drop_bit (8 * (nSize - 3)) n)))) :: uint32;
         (nCompact, nSize) = (if nCompact AND 0x00800000 \<noteq> 0 then (drop_bit 8 nCompact, nSize + 1) else (nCompact, nSize))
     in if nCompact AND NOT 0x007fffff = 0 \<and> nSize < 256 then
          let nCompact = nCompact OR push_bit 24 (word_of_nat nSize)
          in Some (nCompact OR (if fNegative \<and> nCompact AND 0x007fffff \<noteq> 0 then 0x00800000 else 0))
        else None)"

section \<open>The parts of a compact number\<close>

lemma mantissa_mask: "(c :: uint32) AND 0x007fffff = take_bit 23 c"
  by (simp add: take_bit_eq_mask mask_eq_exp_minus_1)

lemma sign_mask: "(c :: uint32) AND 0x00800000 \<noteq> 0 \<longleftrightarrow> bit c 23"
  using and_exp_eq_0_iff_not_bit [of c 23] by simp

lemma bit_unat: "bit (w :: 'a::len word) n \<longleftrightarrow> odd (unat w div 2 ^ n)"
  using bit_iff_odd [of "unat w" n] bit_imp_le_length [of w n] by (auto simp: bit_unsigned_iff)

lemma small_bits: "unat (c :: 'a::len word) < 2 ^ k \<Longrightarrow> bit c n \<Longrightarrow> n < k"
  by (rule ccontr) (simp add: bit_unat div_less order.strict_trans2 [OF _ power_increasing])

lemma high_mask: "unat (c :: uint32) < 2 ^ 23 \<Longrightarrow> c AND NOT 0x007fffff = 0"
proof -
  assume c: "unat c < 2 ^ 23"
  have "c AND NOT (mask 23) = 0" using small_bits [OF c] by (intro bit_word_eqI) (auto simp: bit_and_iff bit_not_iff bit_mask_iff)
  then show ?thesis by (simp add: mask_eq_exp_minus_1)
qed

text \<open>A compact number of a size and a mantissa.\<close>

lemma compact_parts:
  assumes "m < 2 ^ 23" "s < 256"
  shows "unat (word_of_nat m OR push_bit 24 (word_of_nat s) :: uint32) = m + 2 ^ 24 * s"
proof -
  have "unat (word_of_nat m :: uint32) = m" "unat (word_of_nat s :: uint32) = s"
    using assms by (simp_all add: unsigned_of_nat take_bit_nat_eq_self)
  moreover have "unat (push_bit 24 (word_of_nat s) :: uint32) = 2 ^ 24 * s"
    using assms calculation(2) by (simp add: push_bit_eq_mult unat_word_ariths)
  ultimately show ?thesis
    using assms or_push_bit_eq_add [of "word_of_nat m :: uint32" 24 "word_of_nat s"] by (simp add: unat_word_ariths)
qed

lemma compact_fields:
  fixes c :: uint32
  assumes "unat c = m + 2 ^ 24 * s" "m < 2 ^ 23"
  shows "unat (drop_bit 24 c) = s" "c AND 0x007fffff = word_of_nat m" "\<not> bit c 23"
proof -
  show "unat (drop_bit 24 c) = s" using assms by (simp add: drop_bit_eq_div unat_div)
  have "unat (take_bit 23 c) = m"
  proof -
    have "m + 2 ^ 24 * s = m + 2 ^ 23 * (2 * s)" by simp
    then have "(m + 2 ^ 24 * s) mod 2 ^ 23 = m" using assms(2) by (simp only: mod_mult_self2) simp
    then show ?thesis using assms(1) by (simp add: take_bit_eq_mod unat_mod)
  qed
  then show "c AND 0x007fffff = word_of_nat m" by (metis mantissa_mask word_eq_of_unat)
  have "m + 2 ^ 24 * s = m + 2 ^ 23 * (2 * s)" by simp
  then have "(m + 2 ^ 24 * s) div 2 ^ 23 = 2 * s" using assms(2) by (simp only: div_mult_self2) simp
  then show "\<not> bit c 23" using assms(1) by (simp add: bit_unat)
qed

section \<open>Reading and writing as functions on numbers\<close>

abbreviation nbits :: "uint256 \<Rightarrow> nat" where
  "nbits w \<equiv> base_uint_bits (pn w)"

definition compact_size :: "uint256 \<Rightarrow> nat" where
  "compact_size w = (if nbits w = 0 then 0 else nbits w div 8 + 1)"

definition compact_mantissa :: "uint256 \<Rightarrow> nat" where
  "compact_mantissa w = (if compact_size w \<le> 3 then unat w * 256 ^ (3 - compact_size w) else unat w div 256 ^ (compact_size w - 3))"

lemma nbits_le: "nbits w \<le> k \<longleftrightarrow> unat w < 2 ^ k"
  using limbs_bits_le [of "pn w" k] by simp

lemma nbits_256: "nbits w \<le> 256"
  using unsigned_less [of w, where 'a = nat] by (simp add: nbits_le)

lemma GetLow64_pn: "base_uint_GetLow64 (pn w) = ucast w"
proof -
  have "pn w ! 0 = ucast w" "pn w ! 1 = ucast (drop_bit 32 w)" by (simp_all add: pn_def)
  then show ?thesis by (auto simp: base_uint_GetLow64_def intro!: bit_word_eqI simp: bit_simps)
qed

text \<open>The mantissa before it is moved out of the sign bit.\<close>

definition raw_mantissa :: "uint256 \<Rightarrow> nat" where
  "raw_mantissa w = (let L = (nbits w + 7) div 8 in if L \<le> 3 then unat w * 256 ^ (3 - L) else unat w div 256 ^ (L - 3))"

lemma pow_256: "(256 :: nat) ^ k = 2 ^ (8 * k)"
  by (simp add: power_mult)

lemma unat_less_256: "unat w < 256 ^ ((nbits w + 7) div 8)"
proof -
  have "nbits w \<le> 8 * ((nbits w + 7) div 8)" by presburger
  then show ?thesis by (simp only: nbits_le pow_256)
qed

lemma raw_mantissa_less: "raw_mantissa w < 2 ^ 24"
proof -
  define L where "L = (nbits w + 7) div 8"
  have lt: "unat w < 256 ^ L" using unat_less_256 by (simp add: L_def)
  show ?thesis
  proof (cases "L \<le> 3")
    case True
    have "unat w * 256 ^ (3 - L) < 256 ^ L * 256 ^ (3 - L)" using lt by simp
    also have "\<dots> = 256 ^ 3" using True by (simp flip: power_add)
    finally show ?thesis using True by (simp add: raw_mantissa_def Let_def L_def)
  next
    case False
    have "(256::nat) ^ L = 256 ^ 3 * 256 ^ (L - 3)"
      by (subst power_add [symmetric]) (use False in simp)
    with lt have "unat w div 256 ^ (L - 3) < 256 ^ 3" by (simp add: div_less_iff_less_mult)
    then show ?thesis using False by (simp add: raw_mantissa_def Let_def L_def)
  qed
qed

lemma ceil8:
  fixes b :: nat
  shows "(b + 7) div 8 \<noteq> 0 \<and> 8 * ((b + 7) div 8) \<le> b \<longleftrightarrow> b \<noteq> 0 \<and> b mod 8 = 0"
    "(if b = 0 then 0 else b div 8 + 1) = (if b \<noteq> 0 \<and> b mod 8 = 0 then (b + 7) div 8 + 1 else (b + 7) div 8)"
proof -
  obtain q r where b: "b = 8 * q + r" "r < 8" by (rule that [of "b div 8" "b mod 8"]) simp_all
  then have "(b + 7) div 8 = (if r = 0 then q else q + 1)" "b div 8 = q" "b mod 8 = r"
    by (cases "r = 0"; simp add: div_nat_eqI)+
  then show "(b + 7) div 8 \<noteq> 0 \<and> 8 * ((b + 7) div 8) \<le> b \<longleftrightarrow> b \<noteq> 0 \<and> b mod 8 = 0"
    "(if b = 0 then 0 else b div 8 + 1) = (if b \<noteq> 0 \<and> b mod 8 = 0 then (b + 7) div 8 + 1 else (b + 7) div 8)"
    using b by auto
qed

lemma raw_mantissa_high: "2 ^ 23 \<le> raw_mantissa w \<longleftrightarrow> nbits w \<noteq> 0 \<and> nbits w mod 8 = 0"
proof -
  define L where "L = (nbits w + 7) div 8"
  have "2 ^ 23 \<le> raw_mantissa w \<longleftrightarrow> L \<noteq> 0 \<and> 2 ^ (8 * L - 1) \<le> unat w"
  proof (cases "L \<le> 3")
    case True
    then consider "L = 0" | "L = 1" | "L = 2" | "L = 3" by linarith
    then show ?thesis
      using unat_less_256 [of w] by cases (auto simp: raw_mantissa_def Let_def L_def [symmetric])
  next
    case False
    then obtain k where L: "L = k + 4" using le_Suc_ex [of 4 L] by (auto simp: add.commute)
    have "(2::nat) ^ (8 * L - 1) = 2 ^ 23 * 256 ^ (L - 3)"
      by (simp only: pow_256 power_add [symmetric] L) simp
    then show ?thesis
      using False by (simp add: raw_mantissa_def Let_def L_def [symmetric] less_eq_div_iff_mult_less_eq)
  qed
  also have "\<dots> \<longleftrightarrow> L \<noteq> 0 \<and> 8 * L \<le> nbits w"
    using nbits_le [of w "8 * L - 1"] by auto
  also have "\<dots> \<longleftrightarrow> nbits w \<noteq> 0 \<and> nbits w mod 8 = 0" unfolding L_def by (rule ceil8(1))
  finally show ?thesis .
qed

lemma compact_mantissa_raw:
  "compact_mantissa w = (if 2 ^ 23 \<le> raw_mantissa w then raw_mantissa w div 256 else raw_mantissa w)"
  "compact_size w = (if 2 ^ 23 \<le> raw_mantissa w then (nbits w + 7) div 8 + 1 else (nbits w + 7) div 8)"
proof -
  define L where "L = (nbits w + 7) div 8"
  have size: "compact_size w = (if nbits w \<noteq> 0 \<and> nbits w mod 8 = 0 then L + 1 else L)"
    unfolding compact_size_def L_def by (simp only: ceil8(2))
  then show "compact_size w = (if 2 ^ 23 \<le> raw_mantissa w then (nbits w + 7) div 8 + 1 else (nbits w + 7) div 8)"
    by (simp only: raw_mantissa_high L_def)
  show "compact_mantissa w = (if 2 ^ 23 \<le> raw_mantissa w then raw_mantissa w div 256 else raw_mantissa w)"
  proof (cases "2 ^ 23 \<le> raw_mantissa w")
    case True
    then have S: "compact_size w = L + 1" using size by (simp only: raw_mantissa_high simp_thms if_True)
    have "unat w * 256 ^ (3 - L) div 256 = unat w * 256 ^ (2 - L)" if "L \<le> 2"
    proof -
      have "3 - L = Suc (2 - L)" using that by simp
      then show ?thesis by simp
    qed
    moreover have "unat w div 256 ^ (L - 3) div 256 = unat w div 256 ^ (L - 2)" if "3 \<le> L"
    proof -
      have "L - 2 = Suc (L - 3)" using that by simp
      then show ?thesis by (simp add: mult.commute flip: div_mult2_eq)
    qed
    ultimately show ?thesis
      using True S by (auto simp: compact_mantissa_def raw_mantissa_def Let_def L_def [symmetric] not_le)
  next
    case False
    then have "compact_size w = L" using size by (simp only: raw_mantissa_high simp_thms if_False)
    then show ?thesis using False by (simp add: compact_mantissa_def raw_mantissa_def Let_def L_def)
  qed
qed

lemma compact_mantissa_less: "compact_mantissa w < 2 ^ 23"
  using raw_mantissa_less [of w] by (auto simp: compact_mantissa_raw(1))

lemma compact_size_le: "compact_size w \<le> 33"
  using nbits_256 [of w] by (auto simp: compact_size_def)

lemma raw_word:
  fixes w :: uint256
  defines "L \<equiv> (nbits w + 7) div 8"
  shows "(if L \<le> 3 then ucast (push_bit (8 * (3 - L)) (base_uint_GetLow64 (pn w)))
          else ucast (base_uint_GetLow64 (pn (drop_bit (8 * (L - 3)) w)))) = (word_of_nat (raw_mantissa w) :: uint32)"
proof (cases "L \<le> 3")
  case True
  have m: "unat w * 256 ^ (3 - L) = push_bit (8 * (3 - L)) (unat w)" by (simp add: push_bit_eq_mult pow_256)
  from True have "ucast (push_bit (8 * (3 - L)) (ucast w :: uint64)) = (word_of_nat (unat w * 256 ^ (3 - L)) :: uint32)"
    unfolding m by (intro bit_word_eqI) (auto simp: bit_ucast_iff bit_push_bit_iff bit_of_nat_iff bit_unsigned_iff)
  then show ?thesis using True by (simp add: raw_mantissa_def Let_def L_def [symmetric] GetLow64_pn)
next
  case False
  have m: "unat w div 256 ^ (L - 3) = drop_bit (8 * (L - 3)) (unat w)" by (simp add: drop_bit_eq_div pow_256)
  have "ucast (ucast (drop_bit (8 * (L - 3)) w) :: uint64) = (word_of_nat (unat w div 256 ^ (L - 3)) :: uint32)"
    unfolding m using bit_imp_le_length [of w]
    by (intro bit_word_eqI) (force simp: bit_ucast_iff bit_drop_bit_eq bit_of_nat_iff bit_unsigned_iff)
  then show ?thesis using False by (simp add: raw_mantissa_def Let_def L_def [symmetric] GetLow64_pn)
qed

lemma GetCompact_parts:
  obtains c where "GetCompact False w = Some c" "unat c = compact_mantissa w + 2 ^ 24 * compact_size w"
proof -
  have raw: "unat (word_of_nat (raw_mantissa w) :: uint32) = raw_mantissa w"
    using raw_mantissa_less [of w] by (simp add: unsigned_of_nat take_bit_nat_eq_self)
  have "bit (word_of_nat (raw_mantissa w) :: uint32) 23 \<longleftrightarrow> 2 ^ 23 \<le> raw_mantissa w"
  proof (cases "2 ^ 23 \<le> raw_mantissa w")
    case True
    then have "raw_mantissa w div 2 ^ 23 = 1" using raw_mantissa_less [of w] by (intro div_nat_eqI) simp_all
    then show ?thesis using True by (simp add: bit_unat raw)
  qed (simp add: bit_unat raw)
  then have hi: "(word_of_nat (raw_mantissa w) :: uint32) AND 0x00800000 \<noteq> 0 \<longleftrightarrow> 2 ^ 23 \<le> raw_mantissa w"
    by (simp only: sign_mask)
  have shift: "drop_bit 8 (word_of_nat (raw_mantissa w) :: uint32) = word_of_nat (raw_mantissa w div 256)"
    by (rule word_eq_of_unat) (simp add: drop_bit_eq_div unat_div raw)
  have "(if (word_of_nat (raw_mantissa w) :: uint32) AND 0x00800000 \<noteq> 0
         then (drop_bit 8 (word_of_nat (raw_mantissa w)), (nbits w + 7) div 8 + 1)
         else (word_of_nat (raw_mantissa w), (nbits w + 7) div 8)) =
      (word_of_nat (compact_mantissa w) :: uint32, compact_size w)"
    unfolding hi shift compact_mantissa_raw by simp
  moreover have m: "unat (word_of_nat (compact_mantissa w) :: uint32) = compact_mantissa w"
    using compact_mantissa_less [of w] by (simp add: unsigned_of_nat take_bit_nat_eq_self)
  moreover have "(word_of_nat (compact_mantissa w) :: uint32) AND NOT 0x007fffff = 0"
    using compact_mantissa_less [of w] by (intro high_mask) (simp add: m)
  ultimately have "GetCompact False w =
      Some (word_of_nat (compact_mantissa w) OR push_bit 24 (word_of_nat (compact_size w)))"
    unfolding GetCompact_def Let_def raw_word using compact_size_le [of w] by simp
  then show thesis
    by (rule that) (use compact_parts [OF compact_mantissa_less] compact_size_le [of w] in simp)
qed

text \<open>What the fields of a compact number without the sign bit stand for, when the number fits.\<close>

definition compact_value :: "nat \<Rightarrow> nat \<Rightarrow> nat" where
  "compact_value m s = (if s \<le> 3 then m div 256 ^ (3 - s) else m * 256 ^ (s - 3))"

lemma SetCompact_parts:
  assumes c: "unat c = m + 2 ^ 24 * s" "m < 2 ^ 23" and s: "s < 256" and fits: "compact_value m s < 2 ^ 256"
    and ov: "m = 0 \<or> s \<le> 32 \<or> s \<le> 33 \<and> m \<le> 0xffff \<or> s \<le> 34 \<and> m \<le> 0xff"
  shows "SetCompact c = (word_of_nat (compact_value m s), False, False)"
proof -
  let ?m = "word_of_nat m :: uint32"
  have m: "unat ?m = m" using c(2) by (simp add: unsigned_of_nat take_bit_nat_eq_self)
  have w: "unat (ucast ?m :: uint256) = m" using c(2) by (simp add: unsigned_ucast_eq take_bit_nat_eq_self m)
  have low: "drop_bit k ?m = word_of_nat (m div 2 ^ k)" for k
  proof (rule word_eq_of_unat)
    have "unat (drop_bit k ?m) = drop_bit k (unat ?m)"
      using bit_imp_le_length [of ?m] by (intro bit_eqI) (force simp: bit_unsigned_iff bit_drop_bit_eq)
    then show "unat (drop_bit k ?m) = m div 2 ^ k" by (simp only: m drop_bit_eq_div)
  qed
  have cast: "(ucast (word_of_nat k :: uint32) :: uint256) = word_of_nat k" if "k < 2 ^ 32" for k
    using that by (intro word_eq_of_unat) (simp add: unsigned_ucast_eq unsigned_of_nat take_bit_nat_eq_self)
  have small: "ucast (drop_bit (8 * (3 - s)) ?m) = (word_of_nat (compact_value m s) :: uint256)" if "s \<le> 3"
  proof -
    have "m div 2 ^ (8 * (3 - s)) < 2 ^ 32" using c(2) by (intro order.strict_trans1 [OF div_le_dividend]) simp
    then show ?thesis using that unfolding low by (simp only: cast) (simp add: compact_value_def pow_256)
  qed
  have large: "push_bit (8 * (s - 3)) (ucast ?m :: uint256) = word_of_nat (compact_value m s)" if "\<not> s \<le> 3"
    using that by (simp add: compact_value_def pow_256 push_bit_eq_mult cast [OF order.strict_trans [OF c(2)]])
  have nz: "drop_bit k ?m \<noteq> 0 \<Longrightarrow> m \<noteq> 0" for k by (rule ccontr) simp
  have le: "0xff < ?m \<longleftrightarrow> 0xff < m" "0xffff < ?m \<longleftrightarrow> 0xffff < m" by (simp_all add: word_less_nat_alt m)
  have "\<not> (c AND 0x00800000 \<noteq> 0)" using compact_fields(3) [OF c] by (simp only: sign_mask) simp
  then show ?thesis
    unfolding SetCompact_def Let_def compact_fields(1) [OF c] compact_fields(2) [OF c]
    using small large le ov nz by (cases "s \<le> 3") auto
qed

text \<open>The target a compact number keeps: all but the bytes below the mantissa.\<close>

definition compact_floor :: "uint256 \<Rightarrow> nat" where
  "compact_floor w = unat w - unat w mod 256 ^ (compact_size w - 3)"

lemma compact_value_floor: "compact_value (compact_mantissa w) (compact_size w) = compact_floor w"
  by (simp add: compact_value_def compact_mantissa_def compact_floor_def minus_mod_eq_div_mult)

lemma SetCompact_GetCompact:
  assumes "GetCompact False w = Some c"
  shows "SetCompact c = (word_of_nat (compact_floor w), False, False)"
proof -
  have c: "unat c = compact_mantissa w + 2 ^ 24 * compact_size w"
    using GetCompact_parts [of w] assms by force
  have "compact_mantissa w \<le> 0xffff" if "compact_size w = 33"
  proof -
    have "unat w < 2 ^ 256" using unsigned_less [of w, where 'a = nat] by simp
    then have "unat w div 256 ^ 30 < 2 ^ 16" by (simp add: div_less_iff_less_mult)
    then show ?thesis using that by (simp add: compact_mantissa_def)
  qed
  then have "compact_size w \<le> 32 \<or> compact_size w \<le> 33 \<and> compact_mantissa w \<le> 0xffff"
    using compact_size_le [of w] by linarith
  moreover have "compact_floor w < 2 ^ 256"
    unfolding compact_floor_def using unsigned_less [of w, where 'a = nat] by simp
  ultimately show ?thesis
    using SetCompact_parts [OF c compact_mantissa_less] compact_size_le [of w]
    by (auto simp: compact_value_floor)
qed

lemma unat_floor: "unat (word_of_nat (compact_floor w) :: uint256) = compact_floor w"
proof -
  have "compact_floor w < 2 ^ 256"
    unfolding compact_floor_def using unsigned_less [of w, where 'a = nat] by simp
  then show ?thesis by (simp add: unsigned_of_nat take_bit_nat_eq_self)
qed

lemma floor_lower:
  assumes "unat w \<noteq> 0"
  shows "2 ^ (nbits w - 1) \<le> compact_floor w \<and> unat w mod 256 ^ (compact_size w - 3) * 2 ^ 15 \<le> unat w"
proof -
  let ?B = "(256 :: nat) ^ (compact_size w - 3)"
  have nz: "nbits w \<noteq> 0" using assms nbits_le [of w 0] by simp
  have low: "2 ^ (nbits w - 1) \<le> unat w" using limbs_bits_lower [of "pn w"] assms by simp
  show ?thesis
  proof (cases "compact_size w \<le> 3")
    case True
    then show ?thesis using low by (simp add: compact_floor_def)
  next
    case False
    then have "8 * (compact_size w - 3) + 15 \<le> nbits w - 1" using nz by (simp add: compact_size_def)
    then obtain k where k: "nbits w - 1 = 8 * (compact_size w - 3) + 15 + k" using le_Suc_ex by blast
    then have pow: "(2::nat) ^ (nbits w - 1) = ?B * 2 ^ (15 + k)" by (simp add: power_add pow_256)
    with low have "2 ^ (15 + k) \<le> unat w div ?B" by (simp add: less_eq_div_iff_mult_less_eq mult.commute)
    then have "?B * 2 ^ (15 + k) \<le> ?B * (unat w div ?B)" by (rule mult_le_mono2)
    then have f: "2 ^ (nbits w - 1) \<le> compact_floor w" by (simp only: pow compact_floor_def minus_mod_eq_mult_div)
    have "unat w mod ?B * 2 ^ 15 \<le> ?B * 2 ^ 15" by (intro mult_le_mono1 less_imp_le mod_less_divisor) simp
    also have "\<dots> \<le> 2 ^ (nbits w - 1)" unfolding pow by (intro mult_le_mono2 power_increasing) simp_all
    finally show ?thesis using f low by linarith
  qed
qed

lemma GetCompact_floor: "GetCompact False (word_of_nat (compact_floor w)) = GetCompact False w"
proof (cases "unat w = 0")
  case True
  then show ?thesis by (simp add: compact_floor_def unat_eq_zero)
next
  case False
  let ?r = "word_of_nat (compact_floor w) :: uint256"
  have le: "compact_floor w \<le> unat w" by (simp add: compact_floor_def)
  have "nbits ?r \<le> nbits w" using le nbits_le [of w "nbits w"] by (simp add: nbits_le unat_floor)
  moreover have "\<not> nbits ?r \<le> nbits w - 1" using floor_lower [OF False] by (simp add: nbits_le unat_floor not_less)
  ultimately have bits: "nbits ?r = nbits w" by linarith
  then have size: "compact_size ?r = compact_size w" by (simp add: compact_size_def)
  have "compact_mantissa ?r = compact_mantissa w"
    by (simp add: compact_mantissa_def size unat_floor) (simp add: compact_floor_def minus_mod_eq_div_mult)
  with size GetCompact_parts [of w] GetCompact_parts [of ?r] show ?thesis by (metis word_unat_eq_iff)
qed

text \<open>
  C17. Writing a target in the compact form never fails an assertion, and reading it back sets neither flag and gives
  the target rounded down, off by less than one part in \<open>2 ^ 15\<close>; the rounded target has the same compact form, so
  a target taken from a header survives any number of conversions.
\<close>

theorem compact_roundtrip:
  "\<exists>c r. GetCompact False w = Some c \<and> SetCompact c = (r, False, False) \<and> GetCompact False r = Some c \<and>
    r \<le> w \<and> (unat w - unat r) * 2 ^ 15 \<le> unat w"
proof -
  obtain c where c: "GetCompact False w = Some c" by (rule GetCompact_parts)
  have "unat w - compact_floor w = unat w mod 256 ^ (compact_size w - 3)" by (simp add: compact_floor_def)
  then have "(unat w - compact_floor w) * 2 ^ 15 \<le> unat w" using floor_lower [of w] by (cases "unat w = 0") simp_all
  moreover have "(word_of_nat (compact_floor w) :: uint256) \<le> w"
    by (simp add: word_le_nat_alt unat_floor) (simp add: compact_floor_def)
  ultimately show ?thesis
    using c SetCompact_GetCompact [OF c] GetCompact_floor [of w] unat_floor [of w] by force
qed

end
