(* ===== verification/Stake_Modifier.thy ===== *)
theory Stake_Modifier
  imports Active_Chain Compact "HOL-Library.Product_Lexorder"
begin

text \<open>
  Stake modifiers and the staking kernel: the modifier operations of \<^verbatim>\<open>src/chain.cpp\<close>, the selection of the old modifiers in
  \<^verbatim>\<open>src/legacy/stakemodifier.cpp\<close>, the stake input of \<^verbatim>\<open>src/stakeinput.cpp\<close> and the kernel of \<^verbatim>\<open>src/kernel.cpp\<close>. \<open>buf\<close> is the initial content of
  the buffer of the hash function, on which no digest depends.
\<close>

definition Hash256w :: "byte list \<Rightarrow> byte list \<Rightarrow> uint256" where
  "Hash256w buf data = word_of_nat (le_nat (Hash buf [data]))"

section \<open>Modifiers of an entry\<close>

definition GetStakeEntropyBit :: "CBlockIndex \<Rightarrow> uint32 option" where
  "GetStakeEntropyBit b = map_option (\<lambda>hash. ucast (base_uint_GetLow64 (pn hash) AND 1)) (phashBlock b)"

definition SetStakeEntropyBit :: "uint32 \<Rightarrow> CBlockIndex \<Rightarrow> bool \<times> CBlockIndex" where
  "SetStakeEntropyBit nEntropyBit b =
    (if nEntropyBit > 1 then (False, b)
     else (True, b\<lparr>nFlags := nFlags b OR (if nEntropyBit \<noteq> 0 then BLOCK_STAKE_ENTROPY else 0)\<rparr>))"

definition SetStakeModifierV1 :: "uint64 \<Rightarrow> bool \<Rightarrow> CBlockIndex \<Rightarrow> CBlockIndex" where
  "SetStakeModifierV1 nStakeModifier fGeneratedStakeModifier b =
    b\<lparr>vStakeModifier := WriteLE64w nStakeModifier,
      nFlags := (if fGeneratedStakeModifier then nFlags b OR BLOCK_STAKE_MODIFIER else nFlags b)\<rparr>"

definition SetStakeModifierV2 :: "uint256 \<Rightarrow> CBlockIndex \<Rightarrow> CBlockIndex" where
  "SetStakeModifierV2 nStakeModifier b = b\<lparr>vStakeModifier := ser_uint256 nStakeModifier\<rparr>"

text \<open>
  The getters copy all bytes of the vector over a local variable, which is defined only when the vector has the size of the
  variable.
\<close>

definition GetStakeModifierV1 :: "Params \<Rightarrow> CBlockIndex \<Rightarrow> uint64 option" where
  "GetStakeModifierV1 params b =
    (if vStakeModifier b = [] \<or> NetworkUpgradeActive (nHeight b) params UPGRADE_V3_4 then Some 0
     else if length (vStakeModifier b) = 8 then Some (ReadLE64w (vStakeModifier b)) else None)"

definition GetStakeModifierV2 :: "Params \<Rightarrow> CBlockIndex \<Rightarrow> uint256 option" where
  "GetStakeModifierV2 params b =
    (if vStakeModifier b = [] \<or> \<not> NetworkUpgradeActive (nHeight b) params UPGRADE_V3_4 then Some 0
     else if length (vStakeModifier b) = 32 then Some (word_of_nat (le_nat (vStakeModifier b))) else None)"

definition SetNewStakeModifierV2 :: "byte list \<Rightarrow> Params \<Rightarrow> block_store \<Rightarrow> uint256 \<Rightarrow> CBlockIndex \<Rightarrow> CBlockIndex option" where
  "SetNewStakeModifierV2 buf params st prevoutId b =
    (if \<not> NetworkUpgradeActive (nHeight b) params UPGRADE_V3_4 then Some b
     else do {
       q \<leftarrow> pprev b;
       prev \<leftarrow> st q;
       m \<leftarrow> GetStakeModifierV2 params prev;
       Some (SetStakeModifierV2 (Hash256w buf (ser_uint256 prevoutId @ ser_uint256 m)) b)
     })"

section \<open>The old selection\<close>

definition MODIFIER_INTERVAL :: int where "MODIFIER_INTERVAL = 60"
definition MODIFIER_INTERVAL_RATIO :: int where "MODIFIER_INTERVAL_RATIO = 3"
definition OLD_MODIFIER_INTERVAL :: int where "OLD_MODIFIER_INTERVAL = 2087"

definition GetStakeModifierSelectionIntervalSection :: "int \<Rightarrow> int option" where
  "GetStakeModifierSelectionIntervalSection nSection =
    (if nSection \<ge> 0 \<and> nSection < 64
     then Some (MODIFIER_INTERVAL * 63 div (63 + (63 - nSection) * (MODIFIER_INTERVAL_RATIO - 1))) else None)"

text \<open>
  The loop over the candidates. Its state is the flag of the second version, which the first candidate sets, and the best
  selection so far. \<open>Some None\<close> is the error of a candidate that is not in the index.
\<close>

type_synonym BlockMap = "uint256 \<rightharpoonup> ptr"

definition selection_hash :: "byte list \<Rightarrow> bool \<Rightarrow> uint64 \<Rightarrow> uint256 \<Rightarrow> CBlockIndex \<Rightarrow> uint256" where
  "selection_hash buf fModifierV2 nStakeModifierPrev hash b =
    (let hashProof = (if fModifierV2 then hash else if bi_IsProofOfStake b then 0 else hash);
         hashSelection = Hash256w buf (ser_uint256 hashProof @ ser_uint64 nStakeModifierPrev)
     in if bi_IsProofOfStake b then drop_bit 32 hashSelection else hashSelection)"

fun SelectBlock_loop ::
  "byte list \<Rightarrow> Params \<Rightarrow> block_store \<Rightarrow> BlockMap \<Rightarrow> uint256 list \<Rightarrow> int \<Rightarrow> uint64 \<Rightarrow> (int \<times> uint256) list \<Rightarrow>
    bool option \<Rightarrow> (uint256 \<times> ptr) option \<Rightarrow> (uint256 \<times> ptr) option option option" where
  "SelectBlock_loop buf params st mapBlockIndex selected stop prev [] fModifierV2 best = Some (Some best)"
| "SelectBlock_loop buf params st mapBlockIndex selected stop prev (item # items) fModifierV2 best =
    (case mapBlockIndex (snd item) of
       None \<Rightarrow> Some None
     | Some p \<Rightarrow> do {
         b \<leftarrow> st p;
         if best \<noteq> None \<and> bi_GetBlockTime b > stop then Some (Some best)
         else
           let v2 = (case fModifierV2 of None \<Rightarrow> NetworkUpgradeActive (nHeight b) params UPGRADE_POS_V2 | Some f \<Rightarrow> f)
           in do {
             hash \<leftarrow> phashBlock b;
             let best' =
               (if hash \<in> set selected then best
                else let h = selection_hash buf v2 prev hash b
                     in (case best of
                           None \<Rightarrow> Some (h, p)
                         | Some (hashBest, q) \<Rightarrow> if h < hashBest then Some (h, p) else best));
             SelectBlock_loop buf params st mapBlockIndex selected stop prev items (Some v2) best'
           }
       })"

text \<open>Selected block, or nothing when no candidate is left or one is not in the index.\<close>

definition SelectBlockFromCandidates ::
  "byte list \<Rightarrow> Params \<Rightarrow> block_store \<Rightarrow> BlockMap \<Rightarrow> (int \<times> uint256) list \<Rightarrow> uint256 list \<Rightarrow> int \<Rightarrow> uint64 \<Rightarrow> ptr option option" where
  "SelectBlockFromCandidates buf params st mapBlockIndex vSortedByTimestamp mapSelectedBlocks stop prev = do {
     r \<leftarrow> SelectBlock_loop buf params st mapBlockIndex mapSelectedBlocks stop prev vSortedByTimestamp None None;
     Some (case r of None \<Rightarrow> None | Some best \<Rightarrow> map_option snd best)
   }"

text \<open>The candidates, from the given block back to the start of the interval.\<close>

partial_function (option) candidates :: "block_store \<Rightarrow> int \<Rightarrow> ptr option \<Rightarrow> (int \<times> uint256) list option" where
  "candidates st start p =
    (case p of
       None \<Rightarrow> Some []
     | Some q \<Rightarrow> do {
         b \<leftarrow> st q;
         if bi_GetBlockTime b \<ge> start then do {
           hash \<leftarrow> phashBlock b;
           r \<leftarrow> candidates st start (pprev b);
           Some ((bi_GetBlockTime b, hash) # r)
         } else Some []
       })"

declare candidates.simps [code]

text \<open>The rounds from \<open>nRound\<close> on, \<open>n\<close> of them: the modifier collected so far, or nothing when a round selects no block.\<close>

fun modifier_rounds ::
  "byte list \<Rightarrow> Params \<Rightarrow> block_store \<Rightarrow> BlockMap \<Rightarrow> (int \<times> uint256) list \<Rightarrow> uint64 \<Rightarrow> nat \<Rightarrow> nat \<Rightarrow> int \<Rightarrow> uint256 list \<Rightarrow> uint64 \<Rightarrow>
    uint64 option option" where
  "modifier_rounds buf params st mapBlockIndex vSorted prev 0 nRound stop selected new = Some (Some new)"
| "modifier_rounds buf params st mapBlockIndex vSorted prev (Suc n) nRound stop selected new = do {
     section \<leftarrow> GetStakeModifierSelectionIntervalSection (int nRound);
     r \<leftarrow> SelectBlockFromCandidates buf params st mapBlockIndex vSorted selected (stop + section) prev;
     case r of
       None \<Rightarrow> Some None
     | Some p \<Rightarrow> do {
         b \<leftarrow> st p;
         ebit \<leftarrow> GetStakeEntropyBit b;
         hash \<leftarrow> phashBlock b;
         modifier_rounds buf params st mapBlockIndex vSorted prev n (Suc nRound) (stop + section) (hash # selected)
           (new OR push_bit nRound (ucast ebit))
       }
   }"

text \<open>
  The result is the returned flag, the modifier and whether it was generated. The modifier of the first block is the address of
  a string literal, which is an argument.
\<close>

definition ComputeNextStakeModifier ::
  "byte list \<Rightarrow> uint64 \<Rightarrow> Params \<Rightarrow> block_store \<Rightarrow> BlockMap \<Rightarrow> ptr option \<Rightarrow> (bool \<times> uint64 \<times> bool) option" where
  "ComputeNextStakeModifier buf literal params st mapBlockIndex pindexPrev =
    (case pindexPrev of
       None \<Rightarrow> Some (True, 0, True)
     | Some q \<Rightarrow> do {
         prev \<leftarrow> st q;
         if nHeight prev = 0 then Some (True, literal, True)
         else do {
           w \<leftarrow> walk_prev (\<lambda>_ b. pprev b \<noteq> None \<and> \<not> GeneratedStakeModifier b) st (Some q);
           p \<leftarrow> w;
           b \<leftarrow> st p;
           if \<not> GeneratedStakeModifier b then Some (False, 0, False)
           else do {
             nStakeModifier \<leftarrow> GetStakeModifierV1 params b;
             if bi_GetBlockTime b div MODIFIER_INTERVAL \<ge> bi_GetBlockTime prev div MODIFIER_INTERVAL
             then Some (True, nStakeModifier, False)
             else do {
               let start = (bi_GetBlockTime prev div MODIFIER_INTERVAL) * MODIFIER_INTERVAL - OLD_MODIFIER_INTERVAL;
               cs \<leftarrow> candidates st start (Some q);
               let vSorted = sort (rev cs);
               r \<leftarrow> modifier_rounds buf params st mapBlockIndex vSorted nStakeModifier (min 64 (length vSorted)) 0 start [] 0;
               Some (case r of None \<Rightarrow> (False, nStakeModifier, False) | Some new \<Rightarrow> (True, new, True))
             }
           }
         }
       })"

text \<open>Failures of the computation are only logged: the modifier is set in any case.\<close>

definition SetNewStakeModifierV1 ::
  "byte list \<Rightarrow> uint64 \<Rightarrow> Params \<Rightarrow> block_store \<Rightarrow> BlockMap \<Rightarrow> CBlockIndex \<Rightarrow> CBlockIndex option" where
  "SetNewStakeModifierV1 buf literal params st mapBlockIndex b = do {
     ebit \<leftarrow> GetStakeEntropyBit b;
     (_, nStakeModifier, generated) \<leftarrow> ComputeNextStakeModifier buf literal params st mapBlockIndex (pprev b);
     Some (SetStakeModifierV1 nStakeModifier generated (snd (SetStakeEntropyBit ebit b)))
   }"

section \<open>The modifier of a kernel\<close>

text \<open>The loop over the active chain; \<open>Some None\<close> is the error of running off its end.\<close>

partial_function (option) GetOldModifier_loop ::
  "block_store \<Rightarrow> CChain \<Rightarrow> int \<Rightarrow> ptr option \<Rightarrow> int \<Rightarrow> ptr option option" where
  "GetOldModifier_loop st chainActive until pindexNext time =
    (case pindexNext of
       None \<Rightarrow> Some None
     | Some p \<Rightarrow> do {
         b \<leftarrow> st p;
         let time' = (if GeneratedStakeModifier b then bi_GetBlockTime b else time);
         if time' < until then GetOldModifier_loop st chainActive until (CChain_at chainActive (int (nHeight b) + 1)) time'
         else Some (Some p)
       })"

declare GetOldModifier_loop.simps [code]

definition GetOldModifier :: "Params \<Rightarrow> block_store \<Rightarrow> CChain \<Rightarrow> ptr \<Rightarrow> uint64 option option" where
  "GetOldModifier params st chainActive pindexFrom = do {
     b \<leftarrow> st pindexFrom;
     r \<leftarrow> GetOldModifier_loop st chainActive (bi_GetBlockTime b + OLD_MODIFIER_INTERVAL)
       (CChain_at chainActive (int (nHeight b) + 1)) (bi_GetBlockTime b);
     case r of None \<Rightarrow> Some None | Some p \<Rightarrow> do { b' \<leftarrow> st p; m \<leftarrow> GetStakeModifierV1 params b'; Some (Some m) }
   }"

record CStakeKernel =
  sk_stakeModifier :: "byte list"
  sk_nTimeBlockFrom :: uint32
  sk_stakeUniqueness :: "byte list"
  sk_nTime :: uint32
  sk_nBits :: uint32
  sk_stakeValue :: CAmount

definition GetUniqueness :: "COutPoint \<Rightarrow> byte list" where
  "GetUniqueness outpointFrom = ser_uint32 (out_n outpointFrom) @ ser_uint256 (out_hash outpointFrom)"

text \<open>
  The constructor for a stake of a transaction output. An old modifier that cannot be found leaves the initial zero.
\<close>

definition CStakeKernel_new ::
  "Params \<Rightarrow> block_store \<Rightarrow> CChain \<Rightarrow> ptr \<Rightarrow> ptr \<Rightarrow> COutPoint \<Rightarrow> CTxOut \<Rightarrow> uint32 \<Rightarrow> uint32 \<Rightarrow> CStakeKernel option" where
  "CStakeKernel_new params st chainActive pindexPrev pindexFrom outpointFrom outputFrom bits time = do {
     prev \<leftarrow> st pindexPrev;
     from \<leftarrow> st pindexFrom;
     m \<leftarrow> (if \<not> NetworkUpgradeActive (nHeight prev + 1) params UPGRADE_V3_4
           then do { r \<leftarrow> GetOldModifier params st chainActive pindexFrom; Some (ser_uint64 (case r of None \<Rightarrow> 0 | Some m \<Rightarrow> m)) }
           else map_option ser_uint256 (GetStakeModifierV2 params prev));
     Some \<lparr>sk_stakeModifier = m, sk_nTimeBlockFrom = bi_nTime from, sk_stakeUniqueness = GetUniqueness outpointFrom,
           sk_nTime = time, sk_nBits = bits, sk_stakeValue = nValue outputFrom\<rparr>
   }"

definition CStakeKernel_GetHash :: "byte list \<Rightarrow> CStakeKernel \<Rightarrow> uint256" where
  "CStakeKernel_GetHash buf k =
    Hash256w buf (sk_stakeModifier k @ ser_uint32 (sk_nTimeBlockFrom k) @ sk_stakeUniqueness k @ ser_uint32 (sk_nTime k))"

text \<open>The product of the target and the weight is taken modulo \<open>2 ^ 256\<close>.\<close>

definition CheckKernelHash :: "byte list \<Rightarrow> CStakeKernel \<Rightarrow> bool" where
  "CheckKernelHash buf k =
    (let bnTarget = fst (SetCompact (sk_nBits k)) * (ucast (word_of_int (sk_stakeValue k) :: uint64) div 100)
     in CStakeKernel_GetHash buf k < bnTarget)"

text \<open>The contextual check of a stake of a transaction output: its age or depth, once public zerocoin spends are active.\<close>

definition PivStake_ContextCheck :: "Params \<Rightarrow> CBlockIndex \<Rightarrow> nat \<Rightarrow> uint32 \<Rightarrow> bool" where
  "PivStake_ContextCheck params from height time \<longleftrightarrow>
    \<not> (NetworkUpgradeActive (height + 1) params UPGRADE_ZC_PUBLIC \<and>
       \<not> HasStakeMinAgeOrDepth params height time (nHeight from) (bi_nTime from))"

section \<open>A modifier is always found\<close>

text \<open>Every entry is in the map under its hash, and every entry of a block after the genesis block has a modifier.\<close>

definition block_map_ok :: "block_store \<Rightarrow> BlockMap \<Rightarrow> bool" where
  "block_map_ok st m \<longleftrightarrow> (\<forall>p b. st p = Some b \<longrightarrow> (\<exists>hash. phashBlock b = Some hash \<and> m hash = Some p))"

definition modifiers_ok :: "Params \<Rightarrow> block_store \<Rightarrow> bool" where
  "modifiers_ok params st \<longleftrightarrow> (\<forall>p b. st p = Some b \<longrightarrow>
    (if nHeight b = 0 then vStakeModifier b = []
     else if NetworkUpgradeActive (nHeight b) params UPGRADE_V3_4 then length (vStakeModifier b) = 32
     else length (vStakeModifier b) = 8 \<and> (nHeight b = 1 \<longrightarrow> GeneratedStakeModifier b)))"

definition candidate :: "block_store \<Rightarrow> BlockMap \<Rightarrow> uint256 \<Rightarrow> ptr \<Rightarrow> bool" where
  "candidate st m hash p \<longleftrightarrow> m hash = Some p \<and> (\<exists>b. st p = Some b \<and> phashBlock b = Some hash)"

lemma SelectBlock_loop_total:
  assumes "\<forall>item \<in> set items. \<exists>p. candidate st m (snd item) p"
  shows "\<exists>best'. SelectBlock_loop buf params st m selected stop prev items v2 best = Some (Some best') \<and>
    (best' = best \<or> (\<exists>h p item. best' = Some (h, p) \<and> item \<in> set items \<and> candidate st m (snd item) p \<and> snd item \<notin> set selected)) \<and>
    (best \<noteq> None \<or> (\<exists>item \<in> set items. snd item \<notin> set selected) \<longrightarrow> best' \<noteq> None)"
  using assms
proof (induction items arbitrary: v2 best)
  case (Cons item items)
  obtain p b where p: "m (snd item) = Some p" "st p = Some b" "phashBlock b = Some (snd item)" "candidate st m (snd item) p"
    using Cons.prems by (auto simp: candidate_def)
  show ?case
  proof (cases "best \<noteq> None \<and> bi_GetBlockTime b > stop")
    case False
    let ?v = "case v2 of None \<Rightarrow> NetworkUpgradeActive (nHeight b) params UPGRADE_POS_V2 | Some f \<Rightarrow> f"
    define best1 where "best1 = (if snd item \<in> set selected then best
      else let h = selection_hash buf ?v prev (snd item) b
           in (case best of None \<Rightarrow> Some (h, p) | Some (hashBest, q) \<Rightarrow> if h < hashBest then Some (h, p) else best))"
    have step: "SelectBlock_loop buf params st m selected stop prev (item # items) v2 best =
        SelectBlock_loop buf params st m selected stop prev items (Some ?v) best1"
      using False p by (auto simp: best1_def Let_def)
    have b1: "best1 = best \<or> (\<exists>h. best1 = Some (h, p)) \<and> snd item \<notin> set selected"
      "best \<noteq> None \<or> snd item \<notin> set selected \<longrightarrow> best1 \<noteq> None"
      by (auto simp: best1_def Let_def split: option.splits if_splits)
    have items: "\<forall>item \<in> set items. \<exists>p. candidate st m (snd item) p" using Cons.prems by simp
    from Cons.IH [OF items, of "Some ?v" best1] obtain best' where IH: "SelectBlock_loop buf params st m selected stop prev items (Some ?v) best1 = Some (Some best')"
        "best' = best1 \<or> (\<exists>h p item. best' = Some (h, p) \<and> item \<in> set items \<and> candidate st m (snd item) p \<and> snd item \<notin> set selected)"
        "best1 \<noteq> None \<or> (\<exists>item \<in> set items. snd item \<notin> set selected) \<longrightarrow> best' \<noteq> None"
      by (elim exE conjE) (rule that)
    show ?thesis using step IH b1 p(4) by (intro exI [of _ best']) fastforce
  qed (use p in auto)
qed simp

lemma modifier_rounds_total:
  assumes "\<forall>item \<in> set vSorted. \<exists>p. candidate st m (snd item) p" "distinct (map snd vSorted)"
    and "distinct selected" "set selected \<subseteq> snd ` set vSorted" "length selected + n \<le> length vSorted" "nRound + n \<le> 64"
  shows "\<exists>new'. modifier_rounds buf params st m vSorted prev n nRound stop selected new = Some (Some new')"
  using assms(3-)
proof (induction n arbitrary: nRound stop selected new)
  case (Suc n)
  have "card (set selected) < card (snd ` set vSorted)"
    using Suc.prems(1,3) distinct_card [OF assms(2)] by (simp add: distinct_card)
  then have "\<not> snd ` set vSorted \<subseteq> set selected" by (meson List.finite_set card_mono not_le)
  then have free: "\<exists>item \<in> set vSorted. snd item \<notin> set selected" by auto
  obtain s where s: "GetStakeModifierSelectionIntervalSection (int nRound) = Some s"
    using Suc.prems(4) by (simp add: GetStakeModifierSelectionIntervalSection_def)
  obtain h p item where sel: "SelectBlock_loop buf params st m selected (stop + s) prev vSorted None None = Some (Some (Some (h, p)))"
      "item \<in> set vSorted" "candidate st m (snd item) p" "snd item \<notin> set selected"
    using SelectBlock_loop_total [OF assms(1), of buf params selected "stop + s" prev None None] free by auto
  obtain b where b: "st p = Some b" "phashBlock b = Some (snd item)" using sel(3) by (auto simp: candidate_def)
  have "\<exists>new'. modifier_rounds buf params st m vSorted prev n (Suc nRound) (stop + s) (snd item # selected) x = Some (Some new')" for x
    by (rule Suc.IH) (use Suc.prems sel in auto)
  then show ?case using s sel(1) b by (simp add: SelectBlockFromCandidates_def GetStakeEntropyBit_def)
qed simp

lemma candidates_total:
  assumes ok: "index_ok st" "block_map_ok st m" and "st p = Some b"
  shows "\<exists>cs. candidates st start (Some p) = Some cs \<and> (\<forall>item \<in> set cs. \<exists>q. candidate st m (snd item) q) \<and>
    distinct (map snd cs) \<and> (\<forall>item \<in> set cs. \<exists>q. m (snd item) = Some q \<and> is_ancestor st q p)"
  using assms(3)
proof (induction "nHeight b" arbitrary: p b rule: less_induct)
  case less
  obtain hash where hash: "phashBlock b = Some hash" "m hash = Some p" using ok(2) less.prems by (auto simp: block_map_ok_def)
  show ?case
  proof (cases "bi_GetBlockTime b \<ge> start")
    case True
    obtain cs where cs: "candidates st start (pprev b) = Some cs" "\<forall>item \<in> set cs. \<exists>q. candidate st m (snd item) q"
        "distinct (map snd cs)" "\<forall>item \<in> set cs. \<exists>q r. pprev b = Some r \<and> m (snd item) = Some q \<and> is_ancestor st q r"
    proof (cases "pprev b")
      case None
      then show ?thesis by (intro that [of "[]"]) (simp_all add: candidates.simps)
    next
      case (Some r)
      obtain b' where b': "st r = Some b'" "nHeight b = Suc (nHeight b')" by (rule index_ok_prev [OF ok(1) less.prems Some])
      then show ?thesis using less.hyps [OF _ b'(1)] Some that by auto
    qed
    have "hash \<notin> snd ` set cs"
    proof
      assume "hash \<in> snd ` set cs"
      then obtain r where r: "pprev b = Some r" "is_ancestor st p r" using cs(4) hash(2) by force
      obtain b' where b': "st r = Some b'" "nHeight b = Suc (nHeight b')" by (rule index_ok_prev [OF ok(1) less.prems r(1)])
      then show False using r(2) up_height [OF ok(1) b'(1), of _ p] less.prems by (auto simp: is_ancestor_up [OF ok(1) b'(1)])
    qed
    moreover have "candidates st start (Some p) = Some ((bi_GetBlockTime b, hash) # cs)"
      using True less.prems hash cs(1) by (subst candidates.simps) simp
    moreover have "candidate st m hash p" using hash less.prems by (auto simp: candidate_def)
    moreover have "is_ancestor st q r \<Longrightarrow> pprev b = Some r \<Longrightarrow> is_ancestor st q p" for q r
      by (simp add: is_ancestor_def path_Cons [OF ok(1) less.prems])
    ultimately show ?thesis
      using cs hash is_ancestor_refl [OF ok(1) less.prems] by (intro exI [of _ "(bi_GetBlockTime b, hash) # cs"]) fastforce
  next
    case False
    then show ?thesis using less.prems by (subst candidates.simps) simp
  qed
qed

lemma path_nth:
  assumes "index_ok st" "st p = Some b" "i \<le> nHeight b"
  shows "\<exists>c. st (path st p ! i) = Some c \<and> nHeight c = nHeight b - i"
proof -
  obtain q c where "up st i p = Some q" "st q = Some c" "nHeight c = nHeight b - i" by (rule up_total [OF assms])
  then show ?thesis using assms(2,3) by (simp add: path_def nth_append del: upt_Suc)
qed

lemma last_modifier_found:
  assumes ok: "index_ok st" "modifiers_ok params st" and q: "st q = Some prev" "0 < nHeight prev"
    and v1: "\<not> NetworkUpgradeActive (nHeight prev) params UPGRADE_V3_4"
  shows "\<exists>p b. walk_prev (\<lambda>_ b. pprev b \<noteq> None \<and> \<not> GeneratedStakeModifier b) st (Some q) = Some (Some p) \<and> st p = Some b \<and>
    GeneratedStakeModifier b \<and> (\<exists>m. GetStakeModifierV1 params b = Some m)"
proof -
  let ?P = "\<lambda>r. \<not> (pprev (the (st r)) \<noteq> None \<and> \<not> GeneratedStakeModifier (the (st r)))"
  let ?k = "nHeight prev - 1"
  have inactive: "\<not> NetworkUpgradeActive h params UPGRADE_V3_4" if "h \<le> nHeight prev" for h
    using active_mono that v1 by blast
  have len: "length (path st q) = Suc (nHeight prev)" by (rule length_path [OF ok(1) q(1)])
  obtain c where c: "st (path st q ! ?k) = Some c" "nHeight c = 1" using path_nth [OF ok(1) q(1), of ?k] q(2) by auto
  then have gen: "GeneratedStakeModifier c" using ok(2) inactive [of 1] q(2) by (force simp: modifiers_ok_def)
  have "path st q ! ?k \<in> set (path st q)" using len by simp
  then have "find ?P (path st q) \<noteq> None" using c gen by (auto simp: find_None_iff)
  then obtain p i where p: "find ?P (path st q) = Some p" "i < length (path st q)" "p = path st q ! i" "?P p"
      "\<forall>j < i. \<not> ?P (path st q ! j)"
    by (auto simp: find_Some_iff)
  have "i \<le> ?k" using p(5) c gen by (metis not_less option.sel)
  then have "i \<le> nHeight prev" "0 < nHeight prev - i" using q(2) by linarith+
  then obtain b where b: "st p = Some b" "nHeight b = nHeight prev - i" "0 < nHeight b"
    using path_nth [OF ok(1) q(1), of i] p(3) q(2) by auto
  then have "GeneratedStakeModifier b" using p(4) index_ok_zero [OF ok(1) b(1)] by auto
  moreover have "length (vStakeModifier b) = 8"
    using ok(2) b inactive [of "nHeight b"] by (auto simp: modifiers_ok_def split: if_splits)
  ultimately show ?thesis
    using walk_prev_path [OF ok(1) q(1)] p(1) b(1) by (auto simp: GetStakeModifierV1_def)
qed

lemma ComputeNextStakeModifier_total:
  assumes ok: "index_ok st" "block_map_ok st m" "modifiers_ok params st" and q: "st q = Some prev"
    and v1: "\<not> NetworkUpgradeActive (Suc (nHeight prev)) params UPGRADE_V3_4"
  shows "\<exists>new gen. ComputeNextStakeModifier buf literal params st m (Some q) = Some (True, new, gen) \<and> (nHeight prev = 0 \<longrightarrow> gen)"
proof (cases "nHeight prev = 0")
  case True
  then show ?thesis using q by (auto simp: ComputeNextStakeModifier_def)
next
  case False
  have v1': "\<not> NetworkUpgradeActive (nHeight prev) params UPGRADE_V3_4" using active_mono v1 le_SucI by blast
  obtain p b old where p: "walk_prev (\<lambda>_ b. pprev b \<noteq> None \<and> \<not> GeneratedStakeModifier b) st (Some q) = Some (Some p)"
      "st p = Some b" "GeneratedStakeModifier b" "GetStakeModifierV1 params b = Some old"
    using last_modifier_found [OF ok(1,3) q _ v1'] False by auto
  let ?start = "(bi_GetBlockTime prev div MODIFIER_INTERVAL) * MODIFIER_INTERVAL - OLD_MODIFIER_INTERVAL"
  obtain cs where cs: "candidates st ?start (Some q) = Some cs" "\<forall>item \<in> set cs. \<exists>r. candidate st m (snd item) r" "distinct (map snd cs)"
    using candidates_total [OF ok(1,2) q, of ?start] by auto
  let ?s = "sort (rev cs)"
  have "distinct (map snd ?s)" by (metis cs(3) distinct_map distinct_rev distinct_sort set_rev set_sort)
  then obtain new where "modifier_rounds buf params st m ?s old (min 64 (length ?s)) 0 ?start [] 0 = Some (Some new)"
    using modifier_rounds_total [of ?s st m "[]" "min 64 (length ?s)" 0 buf params old ?start 0] cs(2) by auto
  then show ?thesis
    using False q p cs(1) by (auto simp: ComputeNextStakeModifier_def Let_def)
qed

end
