(* ===== verification/Pow.thy ===== *)
theory Pow
  imports Chain_Index Compact "HOL-Library.Signed_Division"
begin

text \<open>
  Proof of work, \<^verbatim>\<open>src/pow.cpp\<close>: the target the next block must meet, the check of a hash against its target, and the work
  a block stands for. Numbers of type \<^verbatim>\<open>uint256\<close> are 256 bit words, on which the limb operations are proved to act as
  word arithmetic. A product with a signed 64 bit number takes the overload for \<^verbatim>\<open>uint32_t\<close>, a quotient converts it to \<^verbatim>\<open>uint64_t\<close>.
\<close>

definition mul_i64 :: "uint256 \<Rightarrow> int \<Rightarrow> uint256" where
  "mul_i64 a k = a * ucast (word_of_int k :: uint32)"

definition div_i64 :: "uint256 \<Rightarrow> int \<Rightarrow> uint256 option" where
  "div_i64 a k = (let b = ucast (word_of_int k :: uint64) in if b = 0 then None else Some (a div b))"

definition PastBlocksMin :: int where "PastBlocksMin = 24"
definition PastBlocksMax :: int where "PastBlocksMax = 24"

record dgw_state =
  BlockReading :: "ptr option"
  CountBlocks :: int
  PastDifficultyAverage :: uint256
  PastDifficultyAveragePrev :: uint256
  LastBlockTime :: int
  nActualTimespan :: int

text \<open>One round of the averaging loop, for a block that is not the genesis block; the flag is the \<^verbatim>\<open>break\<close> at a block without parent.\<close>

definition dgw_round :: "CBlockIndex \<Rightarrow> dgw_state \<Rightarrow> (bool \<times> dgw_state) option" where
  "dgw_round b s = do {
     let count = CountBlocks s + 1;
     avg \<leftarrow> (if count \<le> PastBlocksMin then
              if count = 1 then Some (fst (SetCompact (bi_nBits b)))
              else div_i64 (mul_i64 (PastDifficultyAveragePrev s) count + fst (SetCompact (bi_nBits b))) (count + 1)
            else Some (PastDifficultyAverage s));
     let s' = s\<lparr>CountBlocks := count, PastDifficultyAverage := avg,
       PastDifficultyAveragePrev := (if count \<le> PastBlocksMin then avg else PastDifficultyAveragePrev s),
       nActualTimespan := (if LastBlockTime s > 0 then nActualTimespan s + (LastBlockTime s - bi_GetBlockTime b) else nActualTimespan s),
       LastBlockTime := bi_GetBlockTime b\<rparr>;
     Some (if pprev b = None then (True, s') else (False, s'\<lparr>BlockReading := pprev b\<rparr>))
   }"

text \<open>The rounds for \<^verbatim>\<open>i\<close> up to the maximum; the first argument counts the rounds left.\<close>

fun dgw_loop :: "block_store \<Rightarrow> nat \<Rightarrow> dgw_state \<Rightarrow> dgw_state option" where
  "dgw_loop st 0 s = Some s"
| "dgw_loop st (Suc n) s =
    (case BlockReading s of
       None \<Rightarrow> Some s
     | Some p \<Rightarrow> do {
         b \<leftarrow> st p;
         if nHeight b > 0 then do {
           (stop, s') \<leftarrow> dgw_round b s;
           if stop then Some s' else dgw_loop st n s'
         } else Some s
       })"

definition pos_target :: "Params \<Rightarrow> block_store \<Rightarrow> CBlockIndex \<Rightarrow> uint256 option" where
  "pos_target params st pindexLast = do {
     let fTimeV2 = IsTimeProtocolV2 params (nHeight pindexLast + 1);
     let bnTargetLimit = ProofOfStakeLimit params fTimeV2;
     let timespan = TargetTimespan params fTimeV2;
     spacing \<leftarrow> (if nHeight pindexLast \<noteq> 0
                 then do { q \<leftarrow> pprev pindexLast; prev \<leftarrow> st q; Some (bi_GetBlockTime pindexLast - bi_GetBlockTime prev) }
                 else Some 0);
     let spacing = (if spacing < 0 then 1 else spacing);
     let spacing = (if fTimeV2 \<and> spacing > nTargetSpacing params * 10 then nTargetSpacing params * 10 else spacing);
     let bnNew = fst (SetCompact (bi_nBits pindexLast));
     let bnNew = (if fTimeV2 \<and> \<not> IsTimeProtocolV2 params (nHeight pindexLast) then push_bit 4 bnNew else bnNew);
     let nInterval = timespan sdiv nTargetSpacing params;
     let bnNew = mul_i64 bnNew ((nInterval - 1) * nTargetSpacing params + spacing + spacing);
     bnNew \<leftarrow> div_i64 bnNew ((nInterval + 1) * nTargetSpacing params);
     Some (if bnNew \<le> 0 \<or> bnNew > bnTargetLimit then bnTargetLimit else bnNew)
   }"

definition pow_target :: "Params \<Rightarrow> block_store \<Rightarrow> ptr \<Rightarrow> uint256 option" where
  "pow_target params st pindexLast = do {
     s \<leftarrow> dgw_loop st (nat PastBlocksMax)
       \<lparr>BlockReading = Some pindexLast, CountBlocks = 0, PastDifficultyAverage = 0, PastDifficultyAveragePrev = 0,
        LastBlockTime = 0, nActualTimespan = 0\<rparr>;
     let timespan = CountBlocks s * nTargetSpacing params;
     let actual = nActualTimespan s;
     let actual = (if actual < timespan sdiv 3 then timespan sdiv 3 else actual);
     let actual = (if actual > timespan * 3 then timespan * 3 else actual);
     bnNew \<leftarrow> div_i64 (mul_i64 (PastDifficultyAverage s) actual) timespan;
     Some (if bnNew > powLimit params then powLimit params else bnNew)
   }"

definition GetNextWorkRequired :: "bool \<Rightarrow> Params \<Rightarrow> block_store \<Rightarrow> ptr option \<Rightarrow> uint32 option" where
  "GetNextWorkRequired IsRegTestNet params st pindexLast =
    (if IsRegTestNet then do { p \<leftarrow> pindexLast; b \<leftarrow> st p; Some (bi_nBits b) }
     else
       (case pindexLast of
          None \<Rightarrow> GetCompact False (powLimit params)
        | Some p \<Rightarrow> do {
            b \<leftarrow> st p;
            if nHeight b = 0 \<or> int (nHeight b) < PastBlocksMin then GetCompact False (powLimit params)
            else if NetworkUpgradeActive (nHeight b + 1) params UPGRADE_POS
              then do { bnNew \<leftarrow> pos_target params st b; GetCompact False bnNew }
            else do { bnNew \<leftarrow> pow_target params st p; GetCompact False bnNew }
          }))"

definition CheckProofOfWork :: "bool \<Rightarrow> Params \<Rightarrow> uint256 \<Rightarrow> uint32 \<Rightarrow> bool" where
  "CheckProofOfWork IsRegTestNet params hash bits =
    (if IsRegTestNet then True
     else
       (case SetCompact bits of
          (bnTarget, fNegative, fOverflow) \<Rightarrow>
            if fNegative \<or> bnTarget = 0 \<or> fOverflow \<or> bnTarget > powLimit params then False
            else \<not> hash > bnTarget))"

text \<open>Adding one to the largest number would divide by zero, which is the error of the division.\<close>

definition GetBlockProof :: "uint32 \<Rightarrow> uint256 option" where
  "GetBlockProof bits =
    (case SetCompact bits of
       (bnTarget, fNegative, fOverflow) \<Rightarrow>
         if fNegative \<or> fOverflow \<or> bnTarget = 0 then Some 0
         else if bnTarget + 1 = 0 then None else Some (NOT bnTarget div (bnTarget + 1) + 1))"

section \<open>The work of a block\<close>

lemma SetCompact_small: "fst (SetCompact bits) + 1 \<noteq> 0"
proof -
  have odd: "bit (- 1 :: uint256) 255" "bit (- 1 :: uint256) 0" "bit (- 1 :: uint256) 100" by (simp_all add: bit_simps)
  define s m where "s = unat (drop_bit 24 bits)" and m_def: "m = bits AND 0x007fffff"
  have val: "fst (SetCompact bits) = (if s \<le> 3 then ucast (drop_bit (8 * (3 - s)) m) else push_bit (8 * (s - 3)) (ucast m))"
    by (simp add: SetCompact_def Let_def s_def m_def)
  have m: "unat m < 2 ^ 23" unfolding m_def mantissa_mask by (simp add: take_bit_eq_mod unat_mod)
  have "fst (SetCompact bits) \<noteq> - 1"
  proof (cases "s \<le> 3")
    case True
    have "\<not> bit (ucast (drop_bit k m) :: uint256) 100" for k
      using small_bits [OF m, of "k + 100"] by (auto simp: bit_ucast_iff bit_drop_bit_eq)
    then show ?thesis using True odd(3) by (metis val)
  next
    case False
    then have "\<not> bit (push_bit (8 * (s - 3)) (ucast m :: uint256)) 0" by (simp add: bit_push_bit_iff)
    then show ?thesis using False odd(2) by (metis val)
  qed
  then show ?thesis by (simp add: eq_neg_iff_add_eq_0)
qed

lemma block_proof_value:
  fixes t :: uint256
  assumes "t + 1 \<noteq> 0" "t \<noteq> 0"
  shows "unat (NOT t div (t + 1) + 1) = 2 ^ 256 div (unat t + 1)"
proof -
  have t: "unat (t + 1) = unat t + 1" using unatSuc [of t] assms by (simp add: add.commute)
  have lt: "unat t + 1 < 2 ^ 256" using unsigned_less [of "t + 1", where 'a = nat] t by simp
  have "NOT t = - 1 - t" by (simp add: not_eq_complement)
  then have n: "unat (NOT t) = 2 ^ 256 - 1 - unat t"
    by (simp add: unat_sub unsigned_minus_1_eq_mask mask_eq_exp_minus_1)
  then have sum: "2 ^ 256 = unat (NOT t) + (unat t + 1)" using lt by simp
  have q: "unat (NOT t div (t + 1)) + 1 = 2 ^ 256 div (unat t + 1)"
    using div_add_self2 [of "unat t + 1" "unat (NOT t)"] by (simp only: sum unat_div t)
  have "unat t \<noteq> 0" using assms(2) by (simp add: unat_eq_zero)
  then have "2 ^ 256 div (unat t + 1) \<le> (2 ^ 256 :: nat) div 2" by (intro div_le_mono2) simp_all
  then have "unat (NOT t div (t + 1)) + 1 < 2 ^ 256" using q by simp
  then have "unat (NOT t div (t + 1) + 1) = unat (NOT t div (t + 1)) + 1" by (simp add: unat_word_ariths)
  then show ?thesis using q by simp
qed

lemma GetBlockProof_value:
  "\<exists>w. GetBlockProof bits = Some w \<and>
    (case SetCompact bits of (t, neg, ov) \<Rightarrow> unat w = (if neg \<or> ov \<or> t = 0 then 0 else 2 ^ 256 div (unat t + 1)))"
proof -
  obtain t neg ov where s: "SetCompact bits = (t, neg, ov)" by (cases "SetCompact bits") auto
  then have "t + 1 \<noteq> 0" using SetCompact_small [of bits] by simp
  then show ?thesis using block_proof_value [of t] s by (auto simp: GetBlockProof_def)
qed

section \<open>Targets stay below the limit\<close>

lemma compact_below:
  assumes "GetCompact False w = Some c" "w \<le> limit"
  shows "\<exists>r. SetCompact c = (r, False, False) \<and> r \<le> limit"
proof -
  have "(word_of_nat (compact_floor w) :: uint256) \<le> w"
    by (simp add: word_le_nat_alt unat_floor) (simp add: compact_floor_def)
  then show ?thesis using SetCompact_GetCompact [OF assms(1)] assms(2) by auto
qed

lemma GetCompact_total: "\<exists>c. GetCompact False w = Some c"
  by (rule GetCompact_parts) blast

text \<open>The parameters of the networks: a positive spacing, and a timespan and limits that make sense with it.\<close>

definition params_ok :: "Params \<Rightarrow> bool" where
  "params_ok params \<longleftrightarrow> 0 < nTargetSpacing params \<and> nTargetSpacing params < 2 ^ 31 \<and>
    0 \<le> nTargetTimespan params \<and> nTargetTimespan params < 2 ^ 31 \<and>
    0 \<le> nTargetTimespanV2 params \<and> nTargetTimespanV2 params < 2 ^ 31"

lemma div_i64_total: "0 < k \<Longrightarrow> k < 2 ^ 63 \<Longrightarrow> \<exists>q. div_i64 a k = Some q"
proof -
  assume k: "0 < k" "k < 2 ^ 63"
  have "uint (word_of_int k :: uint64) = k" using k by (simp add: unsigned_of_int take_bit_int_eq_self)
  then have "unat (word_of_int k :: uint64) \<noteq> 0" using k by (metis nat_uint_eq uint_0_iff unat_eq_zero less_irrefl)
  then have "unat (ucast (word_of_int k :: uint64) :: uint256) \<noteq> 0"
    using unsigned_less [of "word_of_int k :: uint64", where 'a = nat]
    by (simp add: unsigned_ucast_eq take_bit_nat_eq_self)
  then show ?thesis by (auto simp: div_i64_def Let_def)
qed

lemma pos_target_bounded:
  assumes "index_ok st" "st p = Some b" "params_ok params"
  shows "\<exists>t. pos_target params st b = Some t \<and> t \<le> ProofOfStakeLimit params (IsTimeProtocolV2 params (nHeight b + 1))"
proof -
  let ?T = "TargetTimespan params (IsTimeProtocolV2 params (nHeight b + 1))" and ?S = "nTargetSpacing params"
  obtain x where x: "(if nHeight b \<noteq> 0 then do { q \<leftarrow> pprev b; prev \<leftarrow> st q; Some (bi_GetBlockTime b - bi_GetBlockTime prev) } else Some 0) = Some x"
  proof (cases "nHeight b = 0")
    case False
    then obtain q where q: "pprev b = Some q" using index_ok_zero [OF assms(1,2)] by (cases "pprev b") auto
    obtain b' where "st q = Some b'" "nHeight b = Suc (nHeight b')" by (rule index_ok_prev [OF assms(1,2) q])
    then show ?thesis using q False that by simp
  qed (use that in simp)
  have S: "0 < ?S" "?S < 2 ^ 31" and T: "0 \<le> ?T" "?T < 2 ^ 31" using assms(3) by (auto simp: params_ok_def TargetTimespan_def)
  have sd: "?T sdiv ?S = ?T div ?S" using S T by (cases "?T = 0") (simp_all add: signed_divide_int_def sgn_if)
  have "?T div ?S * ?S \<le> ?T" using div_mult_mod_eq [of ?T ?S] pos_mod_sign [OF S(1), of ?T] by linarith
  then have "0 < (?T sdiv ?S + 1) * ?S \<and> (?T sdiv ?S + 1) * ?S < 2 ^ 63"
  proof -
    have "0 \<le> ?T div ?S * ?S" using S T by (intro mult_nonneg_nonneg) (simp_all add: pos_imp_zdiv_nonneg_iff)
    moreover have "(2::int) ^ 31 + 2 ^ 31 < 2 ^ 63" by simp
    ultimately show ?thesis using \<open>?T div ?S * ?S \<le> ?T\<close> S T unfolding sd distrib_right mult_1 by (intro conjI) linarith+
  qed
  then have "\<forall>a. \<exists>q. div_i64 a ((?T sdiv ?S + 1) * ?S) = Some q" by (intro allI div_i64_total) auto
  then obtain f where f: "\<And>a. div_i64 a ((?T sdiv ?S + 1) * ?S) = Some (f a)" by metis
  show ?thesis unfolding pos_target_def Let_def x by (simp only: f bind.bind_lunit option.inject) (simp add: not_less)
qed

lemma dgw_round_total:
  assumes "0 \<le> CountBlocks s" "CountBlocks s < 2 ^ 31"
  shows "\<exists>stop s'. dgw_round b s = Some (stop, s') \<and> CountBlocks s' = CountBlocks s + 1 \<and> (\<not> stop \<longrightarrow> BlockReading s' = pprev b)"
proof -
  have "\<exists>q. div_i64 a (CountBlocks s + 1 + 1) = Some q" for a using assms by (intro div_i64_total) simp_all
  then obtain q where "div_i64 (mul_i64 (PastDifficultyAveragePrev s) (CountBlocks s + 1) + fst (SetCompact (bi_nBits b))) (CountBlocks s + 1 + 1) = Some q"
    by blast
  then show ?thesis by (auto simp: dgw_round_def Let_def)
qed

lemma dgw_loop_total:
  assumes ok: "index_ok st" and "case BlockReading s of None \<Rightarrow> True | Some p \<Rightarrow> st p \<noteq> None"
    and "0 \<le> CountBlocks s" "CountBlocks s + int n < 2 ^ 31"
  shows "\<exists>s'. dgw_loop st n s = Some s' \<and> CountBlocks s \<le> CountBlocks s' \<and> CountBlocks s' \<le> CountBlocks s + int n \<and>
    (n \<noteq> 0 \<and> (\<exists>p b. BlockReading s = Some p \<and> st p = Some b \<and> 0 < nHeight b) \<longrightarrow> CountBlocks s < CountBlocks s')"
  using assms(2-)
proof (induction n arbitrary: s)
  case (Suc n)
  show ?case
  proof (cases "\<exists>p b. BlockReading s = Some p \<and> st p = Some b \<and> 0 < nHeight b")
    case True
    then obtain p b where p: "BlockReading s = Some p" "st p = Some b" "0 < nHeight b" by blast
    obtain q where q: "pprev b = Some q" using index_ok_zero [OF ok p(2)] p(3) by (cases "pprev b") auto
    obtain b' where b': "st q = Some b'" "nHeight b = Suc (nHeight b')" by (rule index_ok_prev [OF ok p(2) q])
    obtain stop s' where r: "dgw_round b s = Some (stop, s')" "CountBlocks s' = CountBlocks s + 1" "\<not> stop \<longrightarrow> BlockReading s' = pprev b"
      using dgw_round_total [of s b] Suc.prems by auto
    show ?thesis
    proof (cases stop)
      case F: False
      obtain s'' where "dgw_loop st n s' = Some s''" "CountBlocks s' \<le> CountBlocks s''" "CountBlocks s'' \<le> CountBlocks s' + int n"
        using Suc.IH [of s'] r F q b' Suc.prems by auto
      then show ?thesis using p r F by auto
    qed (use p r in auto)
  next
    case False
    then show ?thesis using Suc.prems by (auto split: option.splits)
  qed
qed auto

lemma pow_target_bounded:
  assumes ok: "index_ok st" and p: "st p = Some b" "0 < nHeight b" and par: "params_ok params"
  shows "\<exists>t. pow_target params st p = Some t \<and> t \<le> powLimit params"
proof -
  let ?s0 = "\<lparr>BlockReading = Some p, CountBlocks = 0, PastDifficultyAverage = 0, PastDifficultyAveragePrev = 0,
        LastBlockTime = 0, nActualTimespan = 0\<rparr>"
  obtain s where s: "dgw_loop st (nat PastBlocksMax) ?s0 = Some s" "0 < CountBlocks s" "CountBlocks s \<le> 24"
    using dgw_loop_total [OF ok, of ?s0 "nat PastBlocksMax"] p by (auto simp: PastBlocksMax_def)
  have S: "0 < nTargetSpacing params" "nTargetSpacing params < 2 ^ 31" using par by (auto simp: params_ok_def)
  have "CountBlocks s * nTargetSpacing params \<le> 24 * 2 ^ 31" using s S by (intro mult_mono) simp_all
  moreover have "0 < CountBlocks s * nTargetSpacing params" using s S by simp
  ultimately have "\<forall>a. \<exists>q. div_i64 a (CountBlocks s * nTargetSpacing params) = Some q" by (intro allI div_i64_total) simp_all
  then obtain f where f: "\<And>a. div_i64 a (CountBlocks s * nTargetSpacing params) = Some (f a)" by metis
  show ?thesis unfolding pow_target_def Let_def s(1) by (simp add: f not_less)
qed

text \<open>
  C14. The target of the next block is defined and within bounds. From any entry of a well-formed index the retargeting,
  with its averaging loop, its products modulo \<open>2 ^ 256\<close> and its divisions, ends without a division by zero, and the
  compact form it returns reads back with neither flag set as a target not above the limit of the proof in force.
\<close>

theorem GetNextWorkRequired_bounds:
  assumes "index_ok st" "st p = Some b" "params_ok params"
  shows "\<exists>c r. GetNextWorkRequired False params st (Some p) = Some c \<and> SetCompact c = (r, False, False) \<and>
    r \<le> (if 24 \<le> nHeight b \<and> NetworkUpgradeActive (nHeight b + 1) params UPGRADE_POS
          then ProofOfStakeLimit params (IsTimeProtocolV2 params (nHeight b + 1)) else powLimit params)"
proof -
  obtain w where w: "GetNextWorkRequired False params st (Some p) = GetCompact False w"
      "w \<le> (if 24 \<le> nHeight b \<and> NetworkUpgradeActive (nHeight b + 1) params UPGRADE_POS
          then ProofOfStakeLimit params (IsTimeProtocolV2 params (nHeight b + 1)) else powLimit params)"
  proof (cases "nHeight b < 24")
    case True
    then show ?thesis using assms(2) by (intro that [of "powLimit params"]) (simp_all add: GetNextWorkRequired_def PastBlocksMin_def)
  next
    case False
    then show ?thesis
      using assms(2) pos_target_bounded [OF assms] pow_target_bounded [OF assms(1,2) _ assms(3)] that
      by (cases "NetworkUpgradeActive (nHeight b + 1) params UPGRADE_POS")
        (auto simp: GetNextWorkRequired_def PastBlocksMin_def)
  qed
  obtain c where "GetCompact False w = Some c" using GetCompact_total by blast
  with compact_below [OF this w(2)] w(1) show ?thesis by auto
qed

text \<open>A chain of one block on the genesis block, with a proof of stake and a spacing of one minute.\<close>

definition sample_params :: Params where
  "sample_params =
    \<lparr>hashGenesisBlock = 1, powLimit = drop_bit 20 (- 1), posLimitV1 = drop_bit 24 (- 1), posLimitV2 = drop_bit 20 (- 1),
     nBudgetCycleBlocks = 43200, nCoinbaseMaturity = 100, nFutureTimeDriftPoW = 7200, nFutureTimeDriftPoS = 180,
     nMaxMoneyOut = 21000000 * COIN, nStakeMinAge = 3600, nStakeMinDepth = 600, nTargetTimespan = 2400,
     nTargetTimespanV2 = 1800, nTargetSpacing = 60, nTimeSlotLength = 15, nMaxProposalPayments = 6, nDevFee = 10,
     height_last_invalid_UTXO = - 1, height_last_ZC_AccumCheckpoint = - 1, nPassionBadBlockTime = 0, nPassionBadBlockBits = 0,
     vUpgrades = (\<lambda>idx. \<lparr>nProtocolVersion = 1,
       nActivationHeight = (if idx = BASE_NETWORK then 0 else if idx = UPGRADE_POS then 201 else 500), hashActivationBlock = None\<rparr>)\<rparr>"

definition sample_index :: block_store where
  "sample_index = [0 \<mapsto> CBlockIndex_new\<lparr>phashBlock := Some 1\<rparr>,
    Suc 0 \<mapsto> CBlockIndex_new\<lparr>phashBlock := Some 2, pprev := Some 0, pskip := Some 0, nHeight := 1, bi_nTime := 60, nTimeMax := 60\<rparr>]"

lemma sample_index_ok: "index_ok sample_index"
  by (simp add: index_ok_def entry_ok_def sample_index_def CBlockIndex_new_def GetSkipHeight_def)

lemma sample_params_ok: "params_ok sample_params"
  by (simp add: params_ok_def sample_params_def)

lemma GetNextWorkRequired_bounds_witness:
  "\<exists>c r. GetNextWorkRequired False sample_params sample_index (Some (Suc 0)) = Some c \<and> SetCompact c = (r, False, False) \<and>
    r \<le> drop_bit 20 (- 1)"
proof -
  have lim: "powLimit sample_params = drop_bit 20 (- 1)" by (simp add: sample_params_def)
  obtain b where b: "sample_index (Suc 0) = Some b" "nHeight b = 1" by (simp add: sample_index_def)
  show ?thesis using GetNextWorkRequired_bounds [OF sample_index_ok b(1) sample_params_ok] by (simp add: b(2) lim)
qed

text \<open>
  C15. The work credited to a block is the expected number of hashes, \<open>2 ^ 256\<close> divided by one more than the target,
  although the division is carried out on 256 bits; it is zero for the encodings that no block may use. A hash passes the
  check exactly when its target is such a number, not above the limit, and not exceeded by the hash.
\<close>

theorem GetBlockProof_work:
  "\<exists>w. GetBlockProof bits = Some w \<and>
    (case SetCompact bits of (t, neg, ov) \<Rightarrow>
      unat w = (if neg \<or> ov \<or> t = 0 then 0 else 2 ^ 256 div (unat t + 1)) \<and>
      CheckProofOfWork False params hash bits = (unat w \<noteq> 0 \<and> t \<le> powLimit params \<and> hash \<le> t))"
proof -
  obtain w where w: "GetBlockProof bits = Some w"
      "case SetCompact bits of (t, neg, ov) \<Rightarrow> unat w = (if neg \<or> ov \<or> t = 0 then 0 else 2 ^ 256 div (unat t + 1))"
    by (rule GetBlockProof_value [of bits, THEN exE]) (elim conjE, rule that)
  obtain t neg ov where s: "SetCompact bits = (t, neg, ov)" by (cases "SetCompact bits") auto
  define N where "N = (2 ^ 256 :: nat) div (unat t + 1)"
  have "unat t + 1 \<le> 2 ^ 256" using unsigned_less [of t, where 'a = nat] by simp
  then have "N \<noteq> 0" unfolding N_def by (simp only: div_greater_zero_iff neq0_conv) simp
  moreover have "unat w = (if neg \<or> ov \<or> t = 0 then 0 else N)" using w(2) by (simp only: s prod.case N_def)
  ultimately show ?thesis using w(1) unfolding s prod.case N_def [symmetric] by (auto simp: CheckProofOfWork_def s)
qed

end
