(* ===== verification/Block_Index.thy ===== *)
theory Block_Index
  imports Stake_Modifier Pow
begin

text \<open>
  The block index of \<^verbatim>\<open>src/validation.cpp\<close>: adding a header (\<open>AddToBlockIndex\<close>), recording that the transactions of a block have arrived
  (\<open>ReceivedBlockTransactions\<close>) and choosing the chain with the most work (\<open>FindMostWorkChain\<close>). The globals the functions share are a record. An
  ordered set of entries is the list of its elements, of which the comparator gives the largest; a multimap is the list of its
  pairs, those of one key in the order of insertion. An address that is not in use is handed out for a new entry; the theorems hold for
  every order of addresses, which the comparator uses to break ties.
\<close>

record index_state =
  store :: block_store
  mapBlockIndex :: BlockMap
  next_ptr :: ptr
  pindexBestHeader :: "ptr option"
  pindexBestInvalid :: "ptr option"
  setDirtyBlockIndex :: "ptr set"
  chainActive :: CChain
  setBlockIndexCandidates :: "ptr list"
  mapBlocksUnlinked :: "(ptr \<times> ptr) list"
  nBlockSequenceId :: uint32

text \<open>What the functions take from elsewhere: the hash of old headers, the hash buffer, the address of a literal and the parameters.\<close>

record index_env =
  ie_HashQuark :: "byte list \<Rightarrow> uint256"
  ie_buf :: "byte list"
  ie_literal :: uint64
  ie_params :: Params

definition block_GetHash :: "index_env \<Rightarrow> CBlock \<Rightarrow> uint256" where
  "block_GetHash E block = CBlockHeader_GetHash (ie_HashQuark E) (ie_buf E) (blk_header block)"

section \<open>Adding a header\<close>

text \<open>
  The part of \<^verbatim>\<open>AddToBlockIndex\<close> for a known parent. From the upgrade to 256 bit modifiers on it reads the first input of the second
  transaction, whether the block has one or not.
\<close>

definition link_parent :: "index_env \<Rightarrow> BlockMap \<Rightarrow> block_store \<Rightarrow> CBlock \<Rightarrow> ptr \<Rightarrow> CBlockIndex \<Rightarrow> CBlockIndex option" where
  "link_parent E m st block q b = do {
     prev \<leftarrow> st q;
     b1 \<leftarrow> BuildSkip st (b\<lparr>pprev := Some q, nHeight := nHeight prev + 1\<rparr>);
     if \<not> NetworkUpgradeActive (nHeight b1) (ie_params E) UPGRADE_V3_4
     then SetNewStakeModifierV1 (ie_buf E) (ie_literal E) (ie_params E) st m b1
     else if length (vtx block) > 1 \<and> vin (vtx block ! 1) \<noteq> []
       then SetNewStakeModifierV2 (ie_buf E) (ie_params E) st (out_hash (prevout (vin (vtx block ! 1) ! 0))) b1
     else None
   }"

definition AddToBlockIndex :: "index_env \<Rightarrow> CBlock \<Rightarrow> index_state \<Rightarrow> (ptr \<times> index_state) option" where
  "AddToBlockIndex E block s =
    (let hash = block_GetHash E block
     in case mapBlockIndex s hash of
          Some p \<Rightarrow> Some (p, s)
        | None \<Rightarrow>
            let p = next_ptr s; m = (mapBlockIndex s)(hash \<mapsto> p);
                b = (CBlockIndex_of_block block)\<lparr>nSequenceId := 0, phashBlock := Some hash\<rparr>;
                st = (store s)(p \<mapsto> b)
            in do {
              b1 \<leftarrow> (case m (bh_hashPrevBlock (blk_header block)) of None \<Rightarrow> Some b | Some q \<Rightarrow> link_parent E m st block q b);
              prev \<leftarrow> (case pprev b1 of None \<Rightarrow> Some None | Some q \<Rightarrow> map_option Some (st q));
              proof \<leftarrow> GetBlockProof (bi_nBits b1);
              let b2 = b1\<lparr>nTimeMax := (case prev of None \<Rightarrow> bi_nTime b1 | Some pb \<Rightarrow> max (nTimeMax pb) (bi_nTime b1)),
                         nChainWork := (case prev of None \<Rightarrow> 0 | Some pb \<Rightarrow> nChainWork pb) + proof\<rparr>;
              (_, b3) \<leftarrow> RaiseValidity BLOCK_VALID_TREE b2;
              best \<leftarrow> (case pindexBestHeader s of
                         None \<Rightarrow> Some (Some p)
                       | Some h \<Rightarrow> do { hb \<leftarrow> (st(p \<mapsto> b3)) h; Some (if nChainWork hb < nChainWork b3 then Some p else Some h) });
              Some (p, s\<lparr>store := st(p \<mapsto> b3), mapBlockIndex := m, next_ptr := p + 1, pindexBestHeader := best,
                          setDirtyBlockIndex := insert p (setDirtyBlockIndex s)\<rparr>)
            })"

section \<open>Receiving transactions\<close>

definition WorkComparator :: "block_store \<Rightarrow> ptr \<Rightarrow> ptr \<Rightarrow> bool option" where
  "WorkComparator st pa pb = do {
     a \<leftarrow> st pa; b \<leftarrow> st pb;
     Some (if nChainWork a > nChainWork b then False
           else if nChainWork a < nChainWork b then True
           else if nSequenceId a < nSequenceId b then False
           else if nSequenceId a > nSequenceId b then True
           else if pa < pb then False
           else if pa > pb then True
           else False)
   }"

definition better_than_tip :: "ptr \<Rightarrow> index_state \<Rightarrow> bool option" where
  "better_than_tip p s = do {
     tip \<leftarrow> CChain_Tip (store s) False (chainActive s);
     case tip of None \<Rightarrow> Some True | Some t \<Rightarrow> map_option Not (WorkComparator (store s) p t)
   }"

text \<open>One entry of the queue: its counts, its sequence number, and whether it is a candidate.\<close>

definition link_entry :: "ptr \<Rightarrow> index_state \<Rightarrow> index_state option" where
  "link_entry p s = do {
     b \<leftarrow> store s p;
     tx \<leftarrow> (case pprev b of None \<Rightarrow> Some 0 | Some q \<Rightarrow> map_option nChainTx (store s q));
     b1 \<leftarrow> SetChainSaplingValue (store s) (b\<lparr>nChainTx := tx + nTx b\<rparr>);
     let s1 = s\<lparr>store := (store s)(p \<mapsto> b1\<lparr>nSequenceId := nBlockSequenceId s\<rparr>), nBlockSequenceId := nBlockSequenceId s + 1\<rparr>;
     better \<leftarrow> better_than_tip p s1;
     Some (if better then s1\<lparr>setBlockIndexCandidates := List.insert p (setBlockIndexCandidates s1)\<rparr> else s1)
   }"

lemma link_entry_unlinked [simp]: "link_entry p s = Some s' \<Longrightarrow> mapBlocksUnlinked s' = mapBlocksUnlinked s"
  by (auto simp: link_entry_def Let_def split: Option.bind_splits option.splits if_splits)

lemma length_filter_split: "length (filter P xs) + length (filter (\<lambda>x. \<not> P x) xs) = length xs"
  by (induction xs) auto

function link_queue :: "ptr list \<Rightarrow> index_state \<Rightarrow> index_state option" where
  "link_queue [] s = Some s"
| "link_queue (p # queue) s = do {
     s1 \<leftarrow> link_entry p s;
     link_queue (queue @ map snd (filter (\<lambda>x. fst x = p) (mapBlocksUnlinked s1)))
       (s1\<lparr>mapBlocksUnlinked := filter (\<lambda>x. fst x \<noteq> p) (mapBlocksUnlinked s1)\<rparr>)
   }"
  by pat_completeness auto

termination
proof (relation "measure (\<lambda>(queue, s). length queue + 2 * length (mapBlocksUnlinked s))")
  fix p :: ptr and queue and s s1 :: index_state
  assume "link_entry p s = Some s1"
  then show "((queue @ map snd (filter (\<lambda>x. fst x = p) (mapBlocksUnlinked s1)),
      s1\<lparr>mapBlocksUnlinked := filter (\<lambda>x. fst x \<noteq> p) (mapBlocksUnlinked s1)\<rparr>), p # queue, s)
    \<in> measure (\<lambda>(queue, s). length queue + 2 * length (mapBlocksUnlinked s))"
    using length_filter_split [of "\<lambda>x. fst x = p" "mapBlocksUnlinked s"] by simp
qed simp

definition sapling_value :: "CBlock \<Rightarrow> CAmount" where
  "sapling_value block =
    fold (\<lambda>tx v. if IsShieldedTx tx then wrap64 (v + - (case sapData tx of None \<Rightarrow> 0 | Some d \<Rightarrow> valueBalance d)) else v) (vtx block) 0"

definition ReceivedBlockTransactions :: "CBlock \<Rightarrow> ptr \<Rightarrow> CDiskBlockPos \<Rightarrow> index_state \<Rightarrow> index_state option" where
  "ReceivedBlockTransactions block p pos s = do {
     b \<leftarrow> store s p;
     let b1 = (if CBlock_IsProofOfStake block then SetProofOfStake b else b);
     let b2 = b1\<lparr>nTx := word_of_nat (length (vtx block)), nChainTx := 0, nSaplingValue := sapling_value block, nChainSaplingValue := None,
                nFile := pos_nFile pos, nDataPos := pos_nPos pos, nUndoPos := 0, nStatus := nStatus b1 OR BLOCK_HAVE_DATA\<rparr>;
     (_, b3) \<leftarrow> RaiseValidity BLOCK_VALID_TRANSACTIONS b2;
     let s1 = s\<lparr>store := (store s)(p \<mapsto> b3), setDirtyBlockIndex := insert p (setDirtyBlockIndex s)\<rparr>;
     case pprev b3 of
       None \<Rightarrow> link_queue [p] s1
     | Some q \<Rightarrow> do {
         prev \<leftarrow> store s1 q;
         if nChainTx prev \<noteq> 0 then link_queue [p] s1
         else do {
           valid \<leftarrow> bi_IsValid BLOCK_VALID_TREE prev;
           Some (if valid then s1\<lparr>mapBlocksUnlinked := mapBlocksUnlinked s1 @ [(q, p)]\<rparr> else s1)
         }
       }
   }"

section \<open>The index invariant\<close>

text \<open>The work of a block is that of its parent and its own.\<close>

definition work_sum :: "CBlockIndex \<Rightarrow> CBlockIndex option \<Rightarrow> bool" where
  "work_sum b pb \<longleftrightarrow> (\<exists>w. GetBlockProof (bi_nBits b) = Some w \<and>
    unat (nChainWork b) = (case pb of None \<Rightarrow> 0 | Some c \<Rightarrow> unat (nChainWork c)) + unat w)"

definition work_ok :: "block_store \<Rightarrow> bool" where
  "work_ok = local_ok work_sum"

definition map_sound :: "block_store \<Rightarrow> BlockMap \<Rightarrow> bool" where
  "map_sound st m \<longleftrightarrow> (\<forall>hash p. m hash = Some p \<longrightarrow> (\<exists>b. st p = Some b \<and> phashBlock b = Some hash))"

text \<open>The best header has at least the work of every header.\<close>

definition best_ok :: "block_store \<Rightarrow> ptr option \<Rightarrow> bool" where
  "best_ok st best \<longleftrightarrow>
    (case best of None \<Rightarrow> st = Map.empty | Some h \<Rightarrow> \<exists>hb. st h = Some hb \<and> (\<forall>p b. st p = Some b \<longrightarrow> nChainWork b \<le> nChainWork hb))"

definition tree_inv :: "index_env \<Rightarrow> index_state \<Rightarrow> bool" where
  "tree_inv E s \<longleftrightarrow> index_ok (store s) \<and> times_ok (store s) \<and> work_ok (store s) \<and> one_root (store s) \<and>
    block_map_ok (store s) (mapBlockIndex s) \<and> map_sound (store s) (mapBlockIndex s) \<and>
    modifiers_ok (ie_params E) (store s) \<and> (\<forall>p. next_ptr s \<le> p \<longrightarrow> store s p = None) \<and> best_ok (store s) (pindexBestHeader s)"

text \<open>
  What the callers have checked: the parent is known, or the block is the first; and a block after the upgrade to 256 bit modifiers has
  a second transaction with an input. The work of a chain fits into 256 bits.
\<close>

definition add_ok :: "index_env \<Rightarrow> CBlock \<Rightarrow> index_state \<Rightarrow> bool" where
  "add_ok E block s \<longleftrightarrow>
    (case mapBlockIndex s (bh_hashPrevBlock (blk_header block)) of
       None \<Rightarrow> store s = Map.empty \<and> block_GetHash E block \<noteq> bh_hashPrevBlock (blk_header block)
     | Some q \<Rightarrow> \<forall>prev. store s q = Some prev \<and> NetworkUpgradeActive (Suc (nHeight prev)) (ie_params E) UPGRADE_V3_4 \<longrightarrow>
         1 < length (vtx block) \<and> vin (vtx block ! 1) \<noteq> []) \<and>
    (\<forall>q prev w. mapBlockIndex s (bh_hashPrevBlock (blk_header block)) = Some q \<and> store s q = Some prev \<and>
      GetBlockProof (bh_nBits (blk_header block)) = Some w \<longrightarrow> unat (nChainWork prev) + unat w < 2 ^ 256)"

lemma add_room:
  "add_ok E block s \<Longrightarrow> mapBlockIndex s (bh_hashPrevBlock (blk_header block)) = Some q \<Longrightarrow> store s q = Some prev \<Longrightarrow>
    GetBlockProof (bh_nBits (blk_header block)) = Some w \<Longrightarrow> unat (nChainWork prev) + unat w < 2 ^ 256"
  unfolding add_ok_def by blast

lemma new_entry_fields [simp]:
  "pprev (CBlockIndex_of_block block) = None" "nHeight (CBlockIndex_of_block block) = 0"
  "vStakeModifier (CBlockIndex_of_block block) = []" "nStatus (CBlockIndex_of_block block) = 0"
  by (simp_all add: CBlockIndex_of_block_def CBlockIndex_new_def SetProofOfStake_def Let_def)

text \<open>The counts and the status of an entry whose transactions have not arrived.\<close>

definition new_counts :: "CBlockIndex \<Rightarrow> bool" where
  "new_counts b \<longleftrightarrow> nTx b = 0 \<and> nChainTx b = 0 \<and> nSequenceId b = 0 \<and> nChainSaplingValue b = None \<and> nStatus b = 0"

text \<open>What the entry of a block with a parent gets.\<close>

definition linked_to :: "Params \<Rightarrow> block_store \<Rightarrow> ptr \<Rightarrow> CBlockIndex \<Rightarrow> CBlockIndex \<Rightarrow> CBlockIndex \<Rightarrow> bool" where
  "linked_to params st q prev b c \<longleftrightarrow> pprev c = Some q \<and> nHeight c = Suc (nHeight prev) \<and>
    pskip c = up st (nHeight prev - GetSkipHeight (Suc (nHeight prev))) q \<and>
    phashBlock c = phashBlock b \<and> bi_nTime c = bi_nTime b \<and> bi_nBits c = bi_nBits b \<and> (new_counts b \<longrightarrow> new_counts c) \<and>
    (if NetworkUpgradeActive (Suc (nHeight prev)) params UPGRADE_V3_4 then length (vStakeModifier c) = 32
     else length (vStakeModifier c) = 8 \<and> (nHeight prev = 0 \<longrightarrow> GeneratedStakeModifier c))"

lemma BuildSkip_total:
  assumes ok: "index_ok st" and q: "st q = Some prev" and b: "pprev b = Some q" "nHeight b = Suc (nHeight prev)"
  shows "BuildSkip st b = Some (b\<lparr>pskip := up st (nHeight prev - GetSkipHeight (Suc (nHeight prev))) q\<rparr>)"
  using GetAncestor_up [OF ok q] GetSkipHeight_less [of "Suc (nHeight prev)"] b by (auto simp: BuildSkip_def)

lemma GeneratedStakeModifier_set: "GeneratedStakeModifier (SetStakeModifierV1 m True b)"
proof -
  have "bit (nFlags b OR BLOCK_STAKE_MODIFIER) 2" by (simp add: BLOCK_STAKE_MODIFIER_def bit_or_iff bit_exp_iff)
  then have "(nFlags b OR BLOCK_STAKE_MODIFIER) AND push_bit 2 1 \<noteq> 0" using and_exp_eq_0_iff_not_bit [of "nFlags b OR BLOCK_STAKE_MODIFIER" 2] by simp
  then show ?thesis unfolding GeneratedStakeModifier_def SetStakeModifierV1_def BLOCK_STAKE_MODIFIER_def by simp
qed

lemma modifiers_okD:
  assumes "modifiers_ok params st" "st q = Some b"
  shows "NetworkUpgradeActive (nHeight b) params UPGRADE_V3_4 \<Longrightarrow> vStakeModifier b = [] \<or> length (vStakeModifier b) = 32"
  using assms unfolding modifiers_ok_def by metis

lemma link_parent_total:
  assumes ok: "index_ok st" "block_map_ok st m" "modifiers_ok (ie_params E) st" and q: "st q = Some prev"
    and hash: "phashBlock b = Some hash"
    and tx: "NetworkUpgradeActive (Suc (nHeight prev)) (ie_params E) UPGRADE_V3_4 \<longrightarrow> 1 < length (vtx block) \<and> vin (vtx block ! 1) \<noteq> []"
  shows "\<exists>c. link_parent E m st block q b = Some c \<and> linked_to (ie_params E) st q prev b c"
proof -
  let ?b = "b\<lparr>pprev := Some q, nHeight := nHeight prev + 1\<rparr>"
  let ?c = "?b\<lparr>pskip := up st (nHeight prev - GetSkipHeight (Suc (nHeight prev))) q\<rparr>"
  have skip: "BuildSkip st ?b = Some ?c" by (rule BuildSkip_total [OF ok(1) q]) simp_all
  show ?thesis
  proof (cases "NetworkUpgradeActive (Suc (nHeight prev)) (ie_params E) UPGRADE_V3_4")
    case False
    obtain new gen where m: "ComputeNextStakeModifier (ie_buf E) (ie_literal E) (ie_params E) st m (Some q) = Some (True, new, gen)"
        "nHeight prev = 0 \<longrightarrow> gen"
      using ComputeNextStakeModifier_total [OF ok q False] by blast
    obtain x where x: "GetStakeEntropyBit ?c = Some x" using hash by (simp add: GetStakeEntropyBit_def)
    let ?d = "SetStakeModifierV1 new gen (snd (SetStakeEntropyBit x ?c))"
    have "link_parent E m st block q b = Some ?d"
      using q skip x m(1) False by (simp add: link_parent_def SetNewStakeModifierV1_def)
    moreover have "linked_to (ie_params E) st q prev b ?d"
      using m(2) False GeneratedStakeModifier_set
      by (auto simp: linked_to_def new_counts_def SetStakeModifierV1_def SetStakeEntropyBit_def WriteLE64w_def)
    ultimately show ?thesis by blast
  next
    case True
    have "\<exists>v. GetStakeModifierV2 (ie_params E) prev = Some v"
      using modifiers_okD [OF ok(3) q] by (auto simp: GetStakeModifierV2_def)
    then obtain v where "GetStakeModifierV2 (ie_params E) prev = Some v" by blast
    then show ?thesis
      using q skip True tx
      by (simp add: link_parent_def SetNewStakeModifierV2_def linked_to_def new_counts_def SetStakeModifierV2_def ser_uint256_def)
  qed
qed

section \<open>Every accepted header extends the tree\<close>

lemma block_map_ok_insert:
  assumes "block_map_ok st m" "m hash = None" "phashBlock b = Some hash" "st p = None"
  shows "block_map_ok (st(p \<mapsto> b)) (m(hash \<mapsto> p))"
  using assms unfolding block_map_ok_def by (metis fun_upd_apply option.distinct(1) option.inject)

lemma map_sound_insert:
  assumes "map_sound st m" "phashBlock b = Some hash" "st p = None"
  shows "map_sound (st(p \<mapsto> b)) (m(hash \<mapsto> p))"
proof (unfold map_sound_def, intro allI impI)
  fix h q assume q: "(m(hash \<mapsto> p)) h = Some q"
  show "\<exists>c. (st(p \<mapsto> b)) q = Some c \<and> phashBlock c = Some h"
  proof (cases "h = hash")
    case False
    then obtain c where "st q = Some c" "phashBlock c = Some h" using assms(1) q unfolding map_sound_def by fastforce
    then show ?thesis using assms(3) by fastforce
  qed (use q assms(2) in simp)
qed

definition modifier_ok :: "Params \<Rightarrow> CBlockIndex \<Rightarrow> bool" where
  "modifier_ok params b \<longleftrightarrow>
    (if nHeight b = 0 then vStakeModifier b = []
     else if NetworkUpgradeActive (nHeight b) params UPGRADE_V3_4 then length (vStakeModifier b) = 32
     else length (vStakeModifier b) = 8 \<and> (nHeight b = 1 \<longrightarrow> GeneratedStakeModifier b))"

lemma modifiers_ok_insert: "modifiers_ok params st \<Longrightarrow> modifier_ok params b \<Longrightarrow> modifiers_ok params (st(p \<mapsto> b))"
  by (auto simp: modifiers_ok_def modifier_ok_def)

lemma one_root_insert:
  assumes "one_root st" "pprev b = None \<longrightarrow> st = Map.empty"
  shows "one_root (st(p \<mapsto> b))"
proof (cases "pprev b")
  case (Some q)
  then show ?thesis using assms(1) by (auto simp: one_root_def split: if_splits)
qed (use assms(2) in \<open>auto simp: one_root_def split: if_splits\<close>)

definition best_header :: "block_store \<Rightarrow> ptr option \<Rightarrow> ptr \<Rightarrow> CBlockIndex \<Rightarrow> ptr option" where
  "best_header st best p b =
    (case best of None \<Rightarrow> Some p | Some h \<Rightarrow> if nChainWork (the (st h)) < nChainWork b then Some p else Some h)"

lemma best_ok_insert:
  assumes "best_ok st best" "st p = None"
  shows "best_ok (st(p \<mapsto> b)) (best_header st best p b)"
proof (cases best)
  case (Some h)
  then obtain hb where h: "st h = Some hb" "\<forall>q c. st q = Some c \<longrightarrow> nChainWork c \<le> nChainWork hb"
    using assms(1) by (auto simp: best_ok_def)
  have "h \<noteq> p" using h(1) assms(2) by auto
  show ?thesis
  proof (cases "nChainWork hb < nChainWork b")
    case True
    then have "nChainWork c \<le> nChainWork b" if "st q = Some c" for q c using h(2) that by (meson le_less_trans less_imp_le)
    then show ?thesis using True Some h(1) by (auto simp: best_ok_def best_header_def)
  qed (use Some h \<open>h \<noteq> p\<close> in \<open>auto simp: best_ok_def best_header_def not_less\<close>)
qed (use assms in \<open>auto simp: best_ok_def best_header_def split: if_splits\<close>)

text \<open>An entry that may be added under a hash: it continues the tree, its largest time and its work included.\<close>

definition extends :: "index_env \<Rightarrow> index_state \<Rightarrow> uint256 \<Rightarrow> CBlockIndex \<Rightarrow> bool" where
  "extends E s hash b \<longleftrightarrow> entry_ok (store s) b \<and> phashBlock b = Some hash \<and> modifier_ok (ie_params E) b \<and>
    (pprev b = None \<longrightarrow> store s = Map.empty) \<and>
    nTimeMax b = (case parent (store s) b of None \<Rightarrow> bi_nTime b | Some c \<Rightarrow> max (nTimeMax c) (bi_nTime b)) \<and>
    work_sum b (parent (store s) b)"

lemma tree_inv_insert:
  assumes inv: "tree_inv E s" and b: "extends E s hash b" and new: "mapBlockIndex s hash = None"
    and s': "store s' = (store s)(next_ptr s \<mapsto> b)" "mapBlockIndex s' = (mapBlockIndex s)(hash \<mapsto> next_ptr s)"
      "next_ptr s' = next_ptr s + 1" "pindexBestHeader s' = best_header (store s) (pindexBestHeader s) (next_ptr s) b"
  shows "tree_inv E s'"
proof -
  have free: "store s (next_ptr s) = None" and ok: "index_ok (store s)" using inv by (auto simp: tree_inv_def)
  have "index_ok (store s')" "times_ok (store s')" "work_ok (store s')" "one_root (store s')"
    "block_map_ok (store s') (mapBlockIndex s')" "map_sound (store s') (mapBlockIndex s')"
    "modifiers_ok (ie_params E) (store s')" "best_ok (store s') (pindexBestHeader s')"
    unfolding s' times_ok_def work_ok_def
    using inv b new free
    by (auto simp: tree_inv_def extends_def times_ok_def work_ok_def intro!: index_ok_insert local_ok_insert one_root_insert
        block_map_ok_insert map_sound_insert modifiers_ok_insert best_ok_insert)
  moreover have "\<forall>p. next_ptr s' \<le> p \<longrightarrow> store s' p = None" using inv by (auto simp: s' tree_inv_def)
  ultimately show ?thesis by (simp add: tree_inv_def)
qed

text \<open>The entry a block starts with, a second root until its parent is found.\<close>

definition fresh_entry :: "uint256 \<Rightarrow> CBlock \<Rightarrow> CBlockIndex" where
  "fresh_entry hash block = (CBlockIndex_of_block block)\<lparr>nSequenceId := 0, phashBlock := Some hash\<rparr>"

lemma fresh_entry_fields [simp]:
  "pprev (fresh_entry hash block) = None" "nHeight (fresh_entry hash block) = 0" "vStakeModifier (fresh_entry hash block) = []"
  "phashBlock (fresh_entry hash block) = Some hash" "bi_nBits (fresh_entry hash block) = bh_nBits (blk_header block)"
  by (simp_all add: fresh_entry_def CBlockIndex_of_block_def CBlockIndex_new_def SetProofOfStake_def Let_def)

lemma fresh_entry_counts: "new_counts (fresh_entry hash block)"
  by (simp add: fresh_entry_def new_counts_def CBlockIndex_of_block_def CBlockIndex_new_def SetProofOfStake_def Let_def)

lemma fresh_store:
  assumes inv: "tree_inv E s" and new: "mapBlockIndex s hash = None"
  shows "index_ok ((store s)(next_ptr s \<mapsto> fresh_entry hash block))"
    "block_map_ok ((store s)(next_ptr s \<mapsto> fresh_entry hash block)) ((mapBlockIndex s)(hash \<mapsto> next_ptr s))"
    "modifiers_ok (ie_params E) ((store s)(next_ptr s \<mapsto> fresh_entry hash block))"
  using inv new
  by (auto simp: tree_inv_def entry_ok_def modifier_ok_def intro!: index_ok_insert block_map_ok_insert modifiers_ok_insert)

text \<open>The parent's part: the entry continues the tree except for its largest time and its work.\<close>

lemma add_entry:
  assumes inv: "tree_inv E s" and ok: "add_ok E block s" and new: "mapBlockIndex s (block_GetHash E block) = None"
  defines "hash \<equiv> block_GetHash E block"
  defines "m \<equiv> (mapBlockIndex s)(hash \<mapsto> next_ptr s)" and "st \<equiv> (store s)(next_ptr s \<mapsto> fresh_entry hash block)"
  shows "\<exists>c. (case m (bh_hashPrevBlock (blk_header block)) of None \<Rightarrow> Some (fresh_entry hash block)
      | Some q \<Rightarrow> link_parent E m st block q (fresh_entry hash block)) = Some c \<and>
    entry_ok (store s) c \<and> phashBlock c = Some hash \<and> modifier_ok (ie_params E) c \<and> pprev c \<noteq> Some (next_ptr s) \<and> new_counts c \<and>
    bi_nBits c = bh_nBits (blk_header block) \<and> (\<forall>q. pprev c = Some q \<longrightarrow> mapBlockIndex s (bh_hashPrevBlock (blk_header block)) = Some q) \<and>
    (pprev c = None \<longrightarrow> store s = Map.empty)"
proof (cases "mapBlockIndex s (bh_hashPrevBlock (blk_header block))")
  case None
  then have "m (bh_hashPrevBlock (blk_header block)) = None" "store s = Map.empty" using ok by (auto simp: add_ok_def m_def hash_def)
  then show ?thesis by (simp add: entry_ok_def modifier_ok_def fresh_entry_counts)
next
  case (Some q)
  then have m: "m (bh_hashPrevBlock (blk_header block)) = Some q" using new by (auto simp: m_def hash_def)
  have free: "store s (next_ptr s) = None" using inv by (simp add: tree_inv_def)
  obtain prev where prev: "store s q = Some prev" using inv Some unfolding tree_inv_def map_sound_def by blast
  then have q: "st q = Some prev" "q \<noteq> next_ptr s" using free by (auto simp: st_def)
  have tx: "NetworkUpgradeActive (Suc (nHeight prev)) (ie_params E) UPGRADE_V3_4 \<longrightarrow> 1 < length (vtx block) \<and> vin (vtx block ! 1) \<noteq> []"
    using ok Some prev by (auto simp: add_ok_def)
  have new': "mapBlockIndex s hash = None" using new by (simp add: hash_def)
  have hash: "phashBlock (fresh_entry hash block) = Some hash" by simp
  obtain c where c: "link_parent E m st block q (fresh_entry hash block) = Some c"
      "linked_to (ie_params E) st q prev (fresh_entry hash block) c"
    using link_parent_total [OF fresh_store [OF inv new', of block, folded m_def st_def] q(1) hash tx] by blast
  have "up st n q = up (store s) n q" for n
    unfolding st_def by (rule up_insert [OF _ free prev]) (use inv in \<open>simp add: tree_inv_def\<close>)
  then have "entry_ok (store s) c" "phashBlock c = Some hash" "modifier_ok (ie_params E) c" "new_counts c"
    using c(2) prev fresh_entry_counts by (auto simp: linked_to_def entry_ok_def modifier_ok_def)
  moreover have "pprev c = Some q" "bi_nBits c = bh_nBits (blk_header block)" using c(2) by (simp_all add: linked_to_def)
  ultimately show ?thesis using c(1) m q(2) Some by simp
qed

lemma GetBlockProof_Some: "\<exists>w. GetBlockProof n = Some w"
  by (rule exE [OF GetBlockProof_value [of n]], elim conjE, rule exI)

text \<open>The state after a new header: one entry more, which has no transactions yet.\<close>

definition added :: "index_state \<Rightarrow> index_state \<Rightarrow> bool" where
  "added s s' \<longleftrightarrow> (\<exists>b. new_counts b \<and> entry_ok (store s) b \<and> store s' = (store s)(next_ptr s \<mapsto> b\<lparr>nStatus := BLOCK_VALID_TREE\<rparr>)) \<and>
    chainActive s' = chainActive s \<and> setBlockIndexCandidates s' = setBlockIndexCandidates s \<and> mapBlocksUnlinked s' = mapBlocksUnlinked s \<and>
    pindexBestInvalid s' = pindexBestInvalid s"

lemma RaiseValidity_new: "nStatus b = 0 \<Longrightarrow> RaiseValidity BLOCK_VALID_TREE b = Some (True, b\<lparr>nStatus := BLOCK_VALID_TREE\<rparr>)"
  by (simp add: RaiseValidity_def status_defs)

lemma AddToBlockIndex_total:
  assumes inv: "tree_inv E s" and ok: "add_ok E block s"
  shows "\<exists>p s'. AddToBlockIndex E block s = Some (p, s') \<and> tree_inv E s' \<and> mapBlockIndex s' (block_GetHash E block) = Some p \<and>
    (s' = s \<or> added s s')"
proof (cases "mapBlockIndex s (block_GetHash E block)")
  case (Some p)
  then show ?thesis using inv by (simp add: AddToBlockIndex_def Let_def)
next
  case None
  let ?p = "next_ptr s" let ?hash = "block_GetHash E block"
  let ?m = "(mapBlockIndex s)(?hash \<mapsto> ?p)" let ?st = "(store s)(?p \<mapsto> fresh_entry ?hash block)"
  obtain c where c: "(case ?m (bh_hashPrevBlock (blk_header block)) of None \<Rightarrow> Some (fresh_entry ?hash block)
      | Some q \<Rightarrow> link_parent E ?m ?st block q (fresh_entry ?hash block)) = Some c"
    "entry_ok (store s) c" "phashBlock c = Some ?hash" "modifier_ok (ie_params E) c" "pprev c \<noteq> Some ?p" "new_counts c"
    "bi_nBits c = bh_nBits (blk_header block)" "\<forall>q. pprev c = Some q \<longrightarrow> mapBlockIndex s (bh_hashPrevBlock (blk_header block)) = Some q"
    "pprev c = None \<longrightarrow> store s = Map.empty"
    using add_entry [OF inv ok None] by (elim exE conjE) (rule that)
  let ?prev = "parent (store s) c"
  have prev: "(case pprev c of None \<Rightarrow> Some None | Some q \<Rightarrow> map_option Some (?st q)) = Some ?prev"
    using c(2,5) by (auto simp: parent_def entry_ok_def split: option.splits)
  obtain w where w: "GetBlockProof (bi_nBits c) = Some w" by (rule exE [OF GetBlockProof_Some])
  define d where "d = c\<lparr>nTimeMax := (case ?prev of None \<Rightarrow> bi_nTime c | Some pb \<Rightarrow> max (nTimeMax pb) (bi_nTime c)),
    nChainWork := (case ?prev of None \<Rightarrow> 0 | Some pb \<Rightarrow> nChainWork pb) + w\<rparr>"
  have d: "new_counts d" "entry_ok (store s) d" using c(2,6) by (simp_all add: d_def new_counts_def entry_ok_def cong: option.case_cong)
  then have e: "RaiseValidity BLOCK_VALID_TREE d = Some (True, d\<lparr>nStatus := BLOCK_VALID_TREE\<rparr>)"
    by (simp add: RaiseValidity_new new_counts_def)
  let ?e = "d\<lparr>nStatus := BLOCK_VALID_TREE\<rparr>"
  have "work_sum d ?prev"
  proof (cases "pprev c")
    case (Some q)
    then obtain pb where pb: "store s q = Some pb" using c(2) by (auto simp: entry_ok_def split: option.splits)
    then have "unat (nChainWork pb) + unat w < 2 ^ 256" using add_room [OF ok _ pb] c(7,8) w Some by simp
    then have "unat (nChainWork pb + w) = unat (nChainWork pb) + unat w" by (simp add: unat_word_ariths)
    then show ?thesis using Some pb w by (simp add: work_sum_def d_def parent_def)
  qed (use w in \<open>simp add: work_sum_def d_def parent_def\<close>)
  then have ext: "extends E s ?hash ?e"
    using c(2-) w by (auto simp: extends_def work_sum_def d_def entry_ok_def modifier_ok_def GeneratedStakeModifier_def parent_def split: option.splits)
  have best: "(case pindexBestHeader s of None \<Rightarrow> Some (Some ?p)
      | Some h \<Rightarrow> do { hb \<leftarrow> (?st(?p \<mapsto> ?e)) h; Some (if nChainWork hb < nChainWork ?e then Some ?p else Some h) }) =
    Some (best_header (store s) (pindexBestHeader s) ?p ?e)"
    using inv by (auto simp: tree_inv_def best_ok_def best_header_def split: option.splits)
  let ?s = "s\<lparr>store := ?st(?p \<mapsto> ?e), mapBlockIndex := ?m, next_ptr := ?p + 1,
    pindexBestHeader := best_header (store s) (pindexBestHeader s) ?p ?e, setDirtyBlockIndex := insert ?p (setDirtyBlockIndex s)\<rparr>"
  have "AddToBlockIndex E block s = Some (?p, ?s)"
    unfolding AddToBlockIndex_def Let_def fresh_entry_def [symmetric]
    by (simp only: None option.case c(1) Option.bind.simps prev w d_def [symmetric] e prod.case best)
  moreover have "tree_inv E ?s" by (rule tree_inv_insert [OF inv ext None]) simp_all
  moreover have "added s ?s" unfolding added_def using d by (intro conjI exI [of _ d]) simp_all
  ultimately show ?thesis by simp
qed

end
