(* ===== verification/Block_Links.thy ===== *)
theory Block_Links
  imports Block_Index
begin

text \<open>
  The links of the block index: the assertions that \<^verbatim>\<open>CheckBlockIndex\<close> of \<^verbatim>\<open>src/validation.cpp\<close> makes about the status, the
  transaction counts and the unlinked blocks of every entry hold after every sequence of headers, blocks and failures.
\<close>

section \<open>Updates that keep the tree\<close>

definition same_index :: "CBlockIndex \<Rightarrow> CBlockIndex \<Rightarrow> bool" where
  "same_index b c \<longleftrightarrow> same_tree b c \<and> phashBlock b = phashBlock c \<and> bi_nTime b = bi_nTime c \<and> bi_nBits b = bi_nBits c \<and>
    nTimeMax b = nTimeMax c \<and> nChainWork b = nChainWork c \<and> vStakeModifier b = vStakeModifier c \<and>
    GeneratedStakeModifier b = GeneratedStakeModifier c"

lemma best_ok_update:
  assumes "best_ok st best" "st p = Some b" "nChainWork b = nChainWork c"
  shows "best_ok (st(p \<mapsto> c)) best"
proof (cases best)
  case (Some h)
  then obtain hb where h: "st h = Some hb" "\<And>q d. st q = Some d \<Longrightarrow> nChainWork d \<le> nChainWork hb"
    using assms(1) by (auto simp: best_ok_def)
  define hc where "hc = (if h = p then c else hb)"
  have "(st(p \<mapsto> c)) h = Some hc" "nChainWork hc = nChainWork hb" using h(1) assms(2,3) by (auto simp: hc_def)
  moreover have "nChainWork d \<le> nChainWork hb" if "(st(p \<mapsto> c)) q = Some d" for q d
    using that h(2) [of q] h(2) [OF assms(2)] assms(3) by (auto split: if_splits)
  ultimately show ?thesis unfolding best_ok_def Some option.case by metis
qed (use assms in \<open>auto simp: best_ok_def\<close>)

lemma tree_maps_update:
  assumes "st p = Some b" "same_index b c"
  shows "one_root st \<Longrightarrow> one_root (st(p \<mapsto> c))" "block_map_ok st m \<Longrightarrow> block_map_ok (st(p \<mapsto> c)) m"
    "map_sound st m \<Longrightarrow> map_sound (st(p \<mapsto> c)) m"
proof -
  have eq: "pprev c = pprev b" "phashBlock c = phashBlock b" using assms(2) by (simp_all add: same_index_def same_tree_def)
  show "one_root st \<Longrightarrow> one_root (st(p \<mapsto> c))"
    using assms(1) eq unfolding one_root_def by (metis fun_upd_apply option.inject)
  show "block_map_ok st m \<Longrightarrow> block_map_ok (st(p \<mapsto> c)) m"
    using assms(1) eq unfolding block_map_ok_def by (metis fun_upd_apply option.inject)
  show "map_sound st m \<Longrightarrow> map_sound (st(p \<mapsto> c)) m"
    using assms(1) eq unfolding map_sound_def by (metis fun_upd_apply option.inject)
qed

lemma tree_inv_update:
  assumes inv: "tree_inv E s" and b: "store s p = Some b" "same_index b c"
    and s': "store s' = (store s)(p \<mapsto> c)" "mapBlockIndex s' = mapBlockIndex s" "next_ptr s' = next_ptr s" "pindexBestHeader s' = pindexBestHeader s"
  shows "tree_inv E s'"
proof -
  have tree: "same_tree b c" using b by (simp add: same_index_def)
  have eq: "nTimeMax c = nTimeMax b" "bi_nTime c = bi_nTime b" "nChainWork c = nChainWork b" "bi_nBits c = bi_nBits b"
    using b by (simp_all add: same_index_def)
  have "index_ok (store s')" unfolding s' by (rule index_ok_same_tree [of "store s" p b c, OF _ b(1) tree]) (use inv in \<open>simp add: tree_inv_def\<close>)
  moreover have "times_ok (store s')" unfolding s' times_ok_def
    by (rule local_ok_update [of "store s" p b c, OF b(1) tree]) (use inv eq in \<open>simp_all add: tree_inv_def times_ok_def cong: option.case_cong\<close>)
  moreover have "work_ok (store s')" unfolding s' work_ok_def
    by (rule local_ok_update [of "store s" p b c, OF b(1) tree]) (use inv eq in \<open>simp_all add: tree_inv_def work_ok_def work_sum_def cong: option.case_cong\<close>)
  moreover have "one_root (store s')" "block_map_ok (store s') (mapBlockIndex s')" "map_sound (store s') (mapBlockIndex s')"
    using inv b tree_maps_update [of "store s" p b c] unfolding s' by (simp_all add: tree_inv_def)
  moreover have "modifiers_ok (ie_params E) (store s')"
  proof -
    have "modifier_ok (ie_params E) b" using inv b(1) unfolding tree_inv_def modifiers_ok_def modifier_ok_def by blast
    moreover have "nHeight c = nHeight b" "vStakeModifier c = vStakeModifier b" "GeneratedStakeModifier c = GeneratedStakeModifier b"
      using b(2) by (simp_all add: same_index_def same_tree_def)
    ultimately have "modifier_ok (ie_params E) c" by (simp only: modifier_ok_def)
    then show ?thesis using inv unfolding s' by (simp add: tree_inv_def modifiers_ok_insert)
  qed
  moreover have "best_ok (store s') (pindexBestHeader s')"
    unfolding s' by (rule best_ok_update [of "store s" _ p b, OF _ b(1)]) (use inv b in \<open>auto simp: tree_inv_def same_index_def\<close>)
  moreover have "\<forall>q. next_ptr s' \<le> q \<longrightarrow> store s' q = None" using inv b unfolding s' by (auto simp: tree_inv_def)
  ultimately show ?thesis by (simp add: tree_inv_def)
qed

section \<open>The assertions about one entry\<close>

text \<open>Data, validity level and transaction count agree; a sequence number and a Sapling total come with the link to the genesis block.\<close>

definition status_ok :: "CBlockIndex \<Rightarrow> bool" where
  "status_ok b \<longleftrightarrow>
    (nStatus b AND BLOCK_HAVE_DATA \<noteq> 0 \<longleftrightarrow> nTx b \<noteq> 0) \<and>
    (BLOCK_VALID_TRANSACTIONS \<le> nStatus b AND BLOCK_VALID_MASK \<longleftrightarrow> nTx b \<noteq> 0) \<and>
    BLOCK_VALID_TREE \<le> nStatus b AND BLOCK_VALID_MASK \<and>
    (nChainTx b = 0 \<longrightarrow> nSequenceId b = 0) \<and> (nChainSaplingValue b = None \<longleftrightarrow> nChainTx b = 0)"

lemma status_or_data [simp]: "(x OR BLOCK_HAVE_DATA) AND BLOCK_VALID_MASK = x AND BLOCK_VALID_MASK"
  "(x OR BLOCK_HAVE_DATA) AND BLOCK_HAVE_DATA = BLOCK_HAVE_DATA"
  "(x OR BLOCK_HAVE_DATA) AND BLOCK_FAILED_MASK = x AND BLOCK_FAILED_MASK"
  by (simp_all add: status_defs bit.conj_disj_distrib2)

lemma status_raise [simp]: "(x AND NOT BLOCK_VALID_MASK OR BLOCK_VALID_TRANSACTIONS) AND BLOCK_VALID_MASK = BLOCK_VALID_TRANSACTIONS"
  "(x AND NOT BLOCK_VALID_MASK OR BLOCK_VALID_TREE) AND BLOCK_VALID_MASK = BLOCK_VALID_TREE"
  "(x AND NOT BLOCK_VALID_MASK OR BLOCK_VALID_TRANSACTIONS) AND BLOCK_HAVE_DATA = x AND BLOCK_HAVE_DATA"
  by (simp_all add: status_defs bit.conj_disj_distrib2 and.assoc)

lemma status_or_failed [simp]: "(x OR BLOCK_FAILED_VALID) AND BLOCK_VALID_MASK = x AND BLOCK_VALID_MASK"
  "(x OR BLOCK_FAILED_VALID) AND BLOCK_HAVE_DATA = x AND BLOCK_HAVE_DATA"
  "(x OR BLOCK_FAILED_CHILD) AND BLOCK_VALID_MASK = x AND BLOCK_VALID_MASK"
  "(x OR BLOCK_FAILED_CHILD) AND BLOCK_HAVE_DATA = x AND BLOCK_HAVE_DATA"
  "(x AND NOT BLOCK_FAILED_MASK) AND BLOCK_VALID_MASK = x AND BLOCK_VALID_MASK"
  "(x AND NOT BLOCK_FAILED_MASK) AND BLOCK_HAVE_DATA = x AND BLOCK_HAVE_DATA"
  by (simp_all add: status_defs bit.conj_disj_distrib2 and.assoc)

section \<open>Linked blocks\<close>

text \<open>A block whose count is set has its transactions, its parent is linked as well, and the counts add up.\<close>

definition count_ok :: "CBlockIndex \<Rightarrow> CBlockIndex option \<Rightarrow> bool" where
  "count_ok b pb \<longleftrightarrow> (nChainTx b \<noteq> 0 \<longrightarrow> nTx b \<noteq> 0 \<and>
    (case pb of None \<Rightarrow> nChainTx b = nTx b | Some c \<Rightarrow> nChainTx c \<noteq> 0 \<and> unat (nChainTx b) = unat (nChainTx c) + unat (nTx b)))"

definition waiting :: "CBlockIndex \<Rightarrow> bool" where
  "waiting b \<longleftrightarrow> nTx b \<noteq> 0 \<and> nChainTx b = 0"

text \<open>
  A block that waits for its link is in the queue or in the map of unlinked blocks, under a parent that is not linked. The queue
  holds blocks whose parent is linked.
\<close>

definition ready :: "block_store \<Rightarrow> ptr \<Rightarrow> bool" where
  "ready st p \<longleftrightarrow> (\<exists>b. st p = Some b \<and> waiting b \<and> (\<forall>c. parent st b = Some c \<longrightarrow> nChainTx c \<noteq> 0))"

definition stuck :: "block_store \<Rightarrow> ptr \<Rightarrow> ptr \<Rightarrow> bool" where
  "stuck st q p \<longleftrightarrow> (\<exists>b c. st p = Some b \<and> waiting b \<and> pprev b = Some q \<and> st q = Some c \<and> nChainTx c = 0)"

definition links_ok :: "ptr list \<Rightarrow> block_store \<Rightarrow> (ptr \<times> ptr) list \<Rightarrow> bool" where
  "links_ok queue st unlinked \<longleftrightarrow>
    (\<forall>p b. st p = Some b \<longrightarrow> status_ok b) \<and> local_ok count_ok st \<and>
    (\<forall>p b. st p = Some b \<and> waiting b \<longrightarrow> p \<in> set queue \<or> (\<exists>q. pprev b = Some q \<and> (q, p) \<in> set unlinked)) \<and>
    (\<forall>p \<in> set queue. ready st p) \<and> (\<forall>(q, p) \<in> set unlinked. stuck st q p) \<and> distinct (queue @ map snd unlinked)"

text \<open>The transactions on the way to a block; their number stays below \<open>2 ^ 32\<close>.\<close>

definition tx_total :: "block_store \<Rightarrow> ptr \<Rightarrow> nat" where
  "tx_total st p = (\<Sum>r \<leftarrow> path st p. unat (nTx (the (st r))))"

definition tx_room :: "block_store \<Rightarrow> bool" where
  "tx_room st \<longleftrightarrow> (\<forall>p b. st p = Some b \<longrightarrow> tx_total st p < 2 ^ 32)"

lemma tx_total_prev:
  assumes "index_ok st" "st p = Some b"
  shows "tx_total st p = unat (nTx b) + (case pprev b of None \<Rightarrow> 0 | Some q \<Rightarrow> tx_total st q)"
  using assms(2) by (simp add: tx_total_def path_Cons [OF assms] split: option.splits)

lemma nChainTx_total:
  assumes ok: "index_ok st" "local_ok count_ok st" and "st p = Some b" "nChainTx b \<noteq> 0"
  shows "unat (nChainTx b) = tx_total st p"
  using assms(3,4)
proof (induction "nHeight b" arbitrary: p b)
  case 0
  then have "pprev b = None" using index_ok_zero [OF ok(1) 0(2)] by simp
  then have "count_ok b None" using ok(2) 0(2) unfolding local_ok_def by (metis option.simps(4) parent_def)
  then show ?case using 0 \<open>pprev b = None\<close> by (simp add: tx_total_prev [OF ok(1) 0(2)] count_ok_def)
next
  case (Suc h)
  then obtain q where q: "pprev b = Some q" using index_ok_genesis [OF ok(1) Suc.prems(1)] by (cases "pprev b") auto
  obtain c where c: "st q = Some c" "nHeight b = Suc (nHeight c)" by (rule index_ok_prev [OF ok(1) Suc.prems(1) q])
  then have "count_ok b (Some c)" using ok(2) Suc.prems(1) q unfolding local_ok_def by (metis option.simps(5) parent_def)
  then show ?case using Suc c q by (simp add: tx_total_prev [OF ok(1) Suc.prems(1)] count_ok_def)
qed

lemma nChainTx_iff:
  assumes ok: "index_ok st" "links_ok [] st unlinked" and "st p = Some b"
  shows "nChainTx b \<noteq> 0 \<longleftrightarrow> (\<forall>r \<in> set (path st p). nTx (the (st r)) \<noteq> 0)"
  using assms(3)
proof (induction "nHeight b" arbitrary: p b)
  case 0
  then have "pprev b = None" using index_ok_zero [OF ok(1) 0(2)] by simp
  moreover from this have "\<not> waiting b" using ok(2) 0(2) by (fastforce simp: links_ok_def)
  ultimately show ?case
    using 0 ok(2) by (fastforce simp: path_Cons [OF ok(1) 0(2)] links_ok_def local_ok_def count_ok_def waiting_def)
next
  case (Suc h)
  then obtain q where q: "pprev b = Some q" using index_ok_genesis [OF ok(1) Suc.prems] by (cases "pprev b") auto
  obtain c where c: "st q = Some c" "nHeight b = Suc (nHeight c)" by (rule index_ok_prev [OF ok(1) Suc.prems q])
  have "parent st b = Some c" using q c by (simp add: parent_def)
  then have "count_ok b (Some c)" using ok(2) Suc.prems unfolding links_ok_def local_ok_def by metis
  moreover have "nChainTx c = 0" if "waiting b"
  proof -
    have "(q, p) \<in> set unlinked" using that ok(2) Suc.prems q by (fastforce simp: links_ok_def)
    then show ?thesis using ok(2) c by (fastforce simp: links_ok_def stuck_def)
  qed
  ultimately show ?case
    using Suc.hyps(1) [OF _ c(1)] Suc.hyps(2) Suc.prems c q
    by (auto simp: path_Cons [OF ok(1) Suc.prems] count_ok_def waiting_def)
qed

section \<open>One step of the queue\<close>

lemma distinct_split:
  "distinct (xs @ map snd ps) \<Longrightarrow> distinct (xs @ map snd (filter P ps) @ map snd (filter (\<lambda>x. \<not> P x) ps))"
  by (induction ps) auto

lemma parent_update: "parent (st(p \<mapsto> c)) d = (if pprev d = Some p then Some c else parent st d)"
  by (auto simp: parent_def split: option.splits)

lemma parent_same: "index_ok st \<Longrightarrow> st p = Some b \<Longrightarrow> same_tree b c \<Longrightarrow> parent (st(p \<mapsto> c)) c = parent st b"
proof -
  assume ok: "index_ok st" "st p = Some b" "same_tree b c"
  have "pprev b \<noteq> Some p" using index_ok_prev [OF ok(1,2), of p] ok(2) by fastforce
  then show "parent (st(p \<mapsto> c)) c = parent st b" using ok(3) by (simp add: parent_update same_tree_def) (simp add: parent_def)
qed

lemma tx_total_update:
  assumes "st p = Some b" "same_tree b c" "nTx c = nTx b"
  shows "tx_total (st(p \<mapsto> c)) q = tx_total st q"
  using assms(1,3) path_same_tree [of st p b c q, OF assms(1,2)] by (auto simp: tx_total_def intro!: arg_cong [where f = sum_list] map_cong)

lemma tx_room_update:
  assumes "tx_room st" "st p = Some b" "same_tree b c" "nTx c = nTx b"
  shows "tx_room (st(p \<mapsto> c))"
  using assms(1,2) by (auto simp: tx_room_def tx_total_update [of st p b c, OF assms(2-4)])

definition parent_tx :: "block_store \<Rightarrow> CBlockIndex \<Rightarrow> uint32" where
  "parent_tx st b = (case parent st b of None \<Rightarrow> 0 | Some c \<Rightarrow> nChainTx c)"

lemma ready_sum:
  assumes ok: "index_ok st" "local_ok count_ok st" "tx_room st" and "ready st p" "st p = Some b"
  shows "unat (parent_tx st b + nTx b) = unat (parent_tx st b) + unat (nTx b)" "parent_tx st b + nTx b \<noteq> 0"
proof -
  have b: "nTx b \<noteq> 0" "nChainTx b = 0" "\<forall>c. parent st b = Some c \<longrightarrow> nChainTx c \<noteq> 0"
    using assms(4,5) by (auto simp: ready_def waiting_def)
  have "unat (parent_tx st b) + unat (nTx b) = tx_total st p"
  proof (cases "pprev b")
    case (Some q)
    obtain c where c: "st q = Some c" "nHeight b = Suc (nHeight c)" by (rule index_ok_prev [OF ok(1) assms(5) Some])
    then have "parent st b = Some c" using Some by (simp add: parent_def)
    then show ?thesis
      using nChainTx_total [OF ok(1,2) c(1)] b(3) Some by (simp add: parent_tx_def tx_total_prev [OF ok(1) assms(5)])
  qed (simp add: parent_tx_def parent_def tx_total_prev [OF ok(1) assms(5)])
  then have "unat (parent_tx st b) + unat (nTx b) < 2 ^ 32" using ok(3) assms(5) by (simp add: tx_room_def)
  then show sum: "unat (parent_tx st b + nTx b) = unat (parent_tx st b) + unat (nTx b)" by (simp add: unat_word_ariths)
  have "0 < unat (nTx b)" using b(1) by (simp add: unat_gt_0)
  then have "unat (parent_tx st b + nTx b) \<noteq> 0" unfolding sum by simp
  then show "parent_tx st b + nTx b \<noteq> 0" by auto
qed

lemma count_ok_link:
  assumes ok: "index_ok st" "tx_room st" "local_ok count_ok st" and ready: "ready st p" and b: "st p = Some b"
    and c: "c = b\<lparr>nChainTx := parent_tx st b + nTx b, nChainSaplingValue := Some v, nSequenceId := n\<rparr>"
  shows "local_ok count_ok (st(p \<mapsto> c))"
proof (unfold local_ok_def, intro allI impI)
  note sum = ready_sum [OF ok(1,3,2) ready b]
  have w: "waiting b" "\<forall>d. parent st b = Some d \<longrightarrow> nChainTx d \<noteq> 0" using ready b by (auto simp: ready_def)
  fix r d assume d: "(st(p \<mapsto> c)) r = Some d"
  show "count_ok d (parent (st(p \<mapsto> c)) d)"
  proof (cases "r = p")
    case True
    have "parent (st(p \<mapsto> c)) c = parent st b" by (rule parent_same [OF ok(1) b]) (simp add: c same_tree_def)
    moreover have "count_ok c (parent st b)"
      using sum w by (auto simp: count_ok_def c parent_tx_def waiting_def split: option.splits)
    ultimately show ?thesis using True d by simp
  next
    case False
    then have old: "count_ok d (parent st d)" using ok(3) d by (simp add: local_ok_def)
    show ?thesis
    proof (cases "pprev d = Some p")
      case True
      then have "nChainTx d = 0" using old b w(1) by (auto simp: count_ok_def parent_def waiting_def)
      then show ?thesis by (simp add: count_ok_def)
    qed (use old in \<open>simp add: parent_update\<close>)
  qed
qed

lemma ready_link:
  assumes "nChainTx c \<noteq> 0" "r \<noteq> p"
  shows "ready st r \<Longrightarrow> ready (st(p \<mapsto> c)) r" "stuck st p r \<Longrightarrow> ready (st(p \<mapsto> c)) r"
    "stuck st q r \<Longrightarrow> q \<noteq> p \<Longrightarrow> stuck (st(p \<mapsto> c)) q r"
  using assms by (auto simp: ready_def stuck_def parent_update)

lemma links_ok_link:
  assumes ok: "index_ok st" "tx_room st" and links: "links_ok (p # queue) st unlinked" and b: "st p = Some b"
    and c: "c = b\<lparr>nChainTx := parent_tx st b + nTx b, nChainSaplingValue := Some v, nSequenceId := n\<rparr>"
  shows "links_ok (queue @ map snd (filter (\<lambda>x. fst x = p) unlinked)) (st(p \<mapsto> c)) (filter (\<lambda>x. fst x \<noteq> p) unlinked)"
proof -
  let ?st = "st(p \<mapsto> c)"
  have ready: "ready st p" and count: "local_ok count_ok st" using links by (auto simp: links_ok_def)
  have linked: "nChainTx c \<noteq> 0" "\<not> waiting c" using ready_sum(2) [OF ok(1) count ok(2) ready b] by (auto simp: c waiting_def)
  have dist: "distinct (p # queue @ map snd unlinked)" using links by (simp add: links_ok_def)
  then have notp: "p \<notin> set queue" "(q, p) \<notin> set unlinked" for q by force+
  have stuck: "stuck st q r" if "(q, r) \<in> set unlinked" for q r using links that by (auto simp: links_ok_def)
  have "status_ok d" if "?st r = Some d" for r d
  proof (cases "r = p")
    case True
    have "status_ok b" using links b by (auto simp: links_ok_def)
    moreover have "d = c" using True that by simp
    ultimately show ?thesis using linked(1) by (simp add: status_ok_def c)
  qed (use links that in \<open>auto simp: links_ok_def\<close>)
  moreover have "local_ok count_ok ?st" by (rule count_ok_link [OF ok count ready b c])
  moreover have "r \<in> set (queue @ map snd (filter (\<lambda>x. fst x = p) unlinked)) \<or>
      (\<exists>q. pprev d = Some q \<and> (q, r) \<in> set (filter (\<lambda>x. fst x \<noteq> p) unlinked))"
    if "?st r = Some d" "waiting d" for r d
  proof -
    have r: "r \<noteq> p" "st r = Some d" using that linked(2) by (auto split: if_splits)
    then have "r \<in> set (p # queue) \<or> (\<exists>q. pprev d = Some q \<and> (q, r) \<in> set unlinked)"
      using links that(2) unfolding links_ok_def by blast
    then show ?thesis using r(1) by force
  qed
  moreover have "ready ?st r" if "r \<in> set (queue @ map snd (filter (\<lambda>x. fst x = p) unlinked))" for r
  proof -
    have "r \<in> set queue \<or> (p, r) \<in> set unlinked" using that by force
    moreover have "r \<noteq> p" using calculation notp by auto
    moreover have "ready st r" if "r \<in> set queue" using links that by (simp add: links_ok_def)
    ultimately show ?thesis using ready_link(1,2) [OF linked(1), of r p st] stuck by blast
  qed
  moreover have "stuck ?st q r" if "(q, r) \<in> set (filter (\<lambda>x. fst x \<noteq> p) unlinked)" for q r
  proof -
    have "(q, r) \<in> set unlinked" "q \<noteq> p" using that by auto
    moreover from this have "r \<noteq> p" using notp by auto
    ultimately show ?thesis using ready_link(3) [OF linked(1)] stuck by blast
  qed
  moreover have "distinct ((queue @ map snd (filter (\<lambda>x. fst x = p) unlinked)) @ map snd (filter (\<lambda>x. fst x \<noteq> p) unlinked))"
    using distinct_split [of queue unlinked "\<lambda>x. fst x = p"] dist by simp
  ultimately show ?thesis unfolding links_ok_def by blast
qed

section \<open>The queue runs to its end\<close>

definition cands_ok :: "index_state \<Rightarrow> bool" where
  "cands_ok s \<longleftrightarrow> distinct (setBlockIndexCandidates s) \<and>
    (\<forall>p \<in> set (setBlockIndexCandidates s). \<exists>b. store s p = Some b \<and> nChainTx b \<noteq> 0) \<and>
    (\<forall>i. pindexBestInvalid s = Some i \<longrightarrow> store s i \<noteq> None)"

definition index_inv :: "index_env \<Rightarrow> ptr list \<Rightarrow> index_state \<Rightarrow> bool" where
  "index_inv E queue s \<longleftrightarrow> tree_inv E s \<and> chain_ok (store s) (chainActive s) \<and> tx_room (store s) \<and>
    links_ok queue (store s) (mapBlocksUnlinked s) \<and> cands_ok s"

lemma chain_ok_update:
  assumes "chain_ok st v" "st p = Some b" "same_tree b c"
  shows "chain_ok (st(p \<mapsto> c)) v"
proof -
  have "chain_of (st(p \<mapsto> c)) q = chain_of st q" for q
    using path_same_tree [of st p b c q] assms by (simp add: chain_of_def)
  moreover have "\<exists>d. (st(p \<mapsto> c)) q = Some d" if "st q = Some e" for q e using that by simp
  ultimately show ?thesis using assms(1) unfolding chain_ok_def by metis
qed

lemma tip_exists:
  assumes "index_ok st" "chain_ok st v"
  shows "\<exists>r. CChain_Tip st False v = Some r \<and> (\<forall>t. r = Some t \<longrightarrow> (\<exists>b. st t = Some b \<and> v = chain_of st t))"
proof (cases "v = []")
  case False
  then obtain t b where t: "st t = Some b" "v = chain_of st t" using assms(2) by (auto simp: chain_ok_def)
  moreover have "last v = Some t" "v \<noteq> []" using chain_of_Suc [OF assms(1) t(1)] t(2) by auto
  ultimately show ?thesis by (auto simp: CChain_Tip_def last_conv_nth)
qed (simp add: CChain_Tip_def)

lemma better_than_tip_total:
  assumes "index_ok (store s)" "chain_ok (store s) (chainActive s)" "store s p = Some b"
  shows "\<exists>r. better_than_tip p s = Some r"
proof -
  obtain r where r: "CChain_Tip (store s) False (chainActive s) = Some r" "\<forall>t. r = Some t \<longrightarrow> (\<exists>c. store s t = Some c \<and> chainActive s = chain_of (store s) t)"
    using tip_exists [OF assms(1,2)] by blast
  then show ?thesis using assms(3) by (cases r) (auto simp: better_than_tip_def WorkComparator_def)
qed

lemma index_ok_parent:
  assumes "index_ok st" "st p = Some b"
  shows "pprev b = None \<or> (\<exists>q c. pprev b = Some q \<and> st q = Some c)"
proof (cases "pprev b")
  case (Some q)
  show ?thesis by (rule index_ok_prev [OF assms Some]) (use Some in blast)
qed simp

lemma linked_sapling:
  assumes "index_ok st" "links_ok queue st unlinked" "st p = Some b" "\<forall>d. parent st b = Some d \<longrightarrow> nChainTx d \<noteq> 0"
  shows "\<exists>v. SetChainSaplingValue st (b\<lparr>nChainTx := n\<rparr>) = Some (b\<lparr>nChainTx := n, nChainSaplingValue := Some v\<rparr>)"
proof (cases "pprev b")
  case (Some q)
  obtain c where c: "st q = Some c" "nHeight b = Suc (nHeight c)" by (rule index_ok_prev [OF assms(1,3) Some])
  then have "status_ok c" "nChainTx c \<noteq> 0" using assms(2,4) Some by (auto simp: links_ok_def parent_def)
  then obtain w where "nChainSaplingValue c = Some w" by (cases "nChainSaplingValue c") (auto simp: status_ok_def)
  then show ?thesis using Some c by (intro exI [of _ "wrap64 (w + nSaplingValue b)"]) (simp add: SetChainSaplingValue_def)
qed (intro exI [of _ "nSaplingValue b"], simp add: SetChainSaplingValue_def)

lemma link_entry_total:
  assumes inv: "index_inv E (p # queue) s"
  shows "\<exists>s1. link_entry p s = Some s1 \<and>
    index_inv E (queue @ map snd (filter (\<lambda>x. fst x = p) (mapBlocksUnlinked s1)))
      (s1\<lparr>mapBlocksUnlinked := filter (\<lambda>x. fst x \<noteq> p) (mapBlocksUnlinked s1)\<rparr>)"
proof -
  let ?st = "store s"
  have ok: "index_ok ?st" "tx_room ?st" "links_ok (p # queue) ?st (mapBlocksUnlinked s)" "chain_ok ?st (chainActive s)"
    using inv by (auto simp: index_inv_def tree_inv_def)
  obtain b where b: "?st p = Some b" "waiting b" "\<forall>d. parent ?st b = Some d \<longrightarrow> nChainTx d \<noteq> 0" using ok(3) by (auto simp: links_ok_def ready_def)
  have tx: "(case pprev b of None \<Rightarrow> Some 0 | Some q \<Rightarrow> map_option nChainTx (?st q)) = Some (parent_tx ?st b)"
    using index_ok_parent [OF ok(1) b(1)] by (auto simp: parent_tx_def parent_def split: option.splits)
  obtain v where v: "SetChainSaplingValue ?st (b\<lparr>nChainTx := parent_tx ?st b + nTx b\<rparr>) =
      Some (b\<lparr>nChainTx := parent_tx ?st b + nTx b, nChainSaplingValue := Some v\<rparr>)"
    using linked_sapling [OF ok(1,3) b(1,3)] by blast
  define c where "c = b\<lparr>nChainTx := parent_tx ?st b + nTx b, nChainSaplingValue := Some v, nSequenceId := nBlockSequenceId s\<rparr>"
  define s1 where "s1 = s\<lparr>store := ?st(p \<mapsto> c), nBlockSequenceId := nBlockSequenceId s + 1\<rparr>"
  have same: "same_index b c" "same_tree b c" by (simp_all add: same_index_def same_tree_def c_def GeneratedStakeModifier_def)
  have tree: "tree_inv E s1" by (rule tree_inv_update [OF _ b(1) same(1)]) (use inv in \<open>simp_all add: index_inv_def s1_def\<close>)
  have chain: "chain_ok (store s1) (chainActive s1)" using chain_ok_update [of ?st _ p b c] ok(4) b(1) same(2) by (simp add: s1_def)
  obtain r where r: "better_than_tip p s1 = Some r"
    using better_than_tip_total [OF _ chain, of p c] tree by (auto simp: tree_inv_def s1_def)
  let ?s = "if r then s1\<lparr>setBlockIndexCandidates := List.insert p (setBlockIndexCandidates s1)\<rparr> else s1"
  have entry: "link_entry p s = Some ?s"
    using b(1) tx v r by (simp add: link_entry_def s1_def c_def)
  have links: "links_ok (queue @ map snd (filter (\<lambda>x. fst x = p) (mapBlocksUnlinked s))) (?st(p \<mapsto> c)) (filter (\<lambda>x. fst x \<noteq> p) (mapBlocksUnlinked s))"
    by (rule links_ok_link [OF ok(1-3) b(1) c_def])
  have room: "tx_room (?st(p \<mapsto> c))" using tx_room_update [of ?st p b c] ok(2) b(1) same(2) by (simp add: c_def)
  have "nChainTx c \<noteq> 0" using ready_sum(2) [OF ok(1) _ ok(2) _ b(1)] ok(3) by (simp add: c_def links_ok_def)
  then have "cands_ok ?s" using inv b(1) by (auto simp: index_inv_def cands_ok_def s1_def)
  then have "index_inv E (queue @ map snd (filter (\<lambda>x. fst x = p) (mapBlocksUnlinked ?s)))
      (?s\<lparr>mapBlocksUnlinked := filter (\<lambda>x. fst x \<noteq> p) (mapBlocksUnlinked ?s)\<rparr>)"
    using tree chain room links by (auto simp: index_inv_def s1_def tree_inv_def cands_ok_def)
  then show ?thesis using entry by blast
qed

lemma link_queue_total:
  "index_inv E queue s \<Longrightarrow> \<exists>s'. link_queue queue s = Some s' \<and> index_inv E [] s'"
proof (induction queue s rule: link_queue.induct)
  case (2 p queue s)
  from link_entry_total [OF 2(2)] obtain s1 where s1: "link_entry p s = Some s1"
    "index_inv E (queue @ map snd (filter (\<lambda>x. fst x = p) (mapBlocksUnlinked s1)))
      (s1\<lparr>mapBlocksUnlinked := filter (\<lambda>x. fst x \<noteq> p) (mapBlocksUnlinked s1)\<rparr>)" by blast
  from 2(1) [OF s1] s1(1) show ?case by simp
qed simp

section \<open>Receiving the transactions of a block\<close>

lemma count_ok_receive:
  assumes count: "local_ok count_ok st" and b: "st p = Some b" "nChainTx b = 0" and c: "same_tree b c" "nChainTx c = 0"
  shows "local_ok count_ok (st(p \<mapsto> c))"
  by (rule local_ok_update [of st p b c, OF b(1) c(1) count]) (use b(2) c(2) in \<open>auto simp: count_ok_def\<close>)

lemma links_ok_receive:
  assumes links: "links_ok [] st unlinked" and b: "st p = Some b" "nTx b = 0" and c: "same_tree b c" "waiting c" "status_ok c"
    and new: "queue = [p] \<and> unlinked' = unlinked \<and> ready (st(p \<mapsto> c)) p \<or>
      queue = [] \<and> unlinked' = unlinked @ [(q, p)] \<and> stuck (st(p \<mapsto> c)) q p"
  shows "links_ok queue (st(p \<mapsto> c)) unlinked'"
proof -
  have count: "local_ok count_ok st" using links by (simp add: links_ok_def)
  then have "nChainTx b = 0" using b by (auto simp: local_ok_def count_ok_def)
  then have count': "local_ok count_ok (st(p \<mapsto> c))"
    by (rule count_ok_receive [OF count b(1) _ c(1)]) (use c(2) in \<open>simp add: waiting_def\<close>)
  have stuck: "stuck st r t" if "(r, t) \<in> set unlinked" for r t using links that by (auto simp: links_ok_def)
  have notp: "p \<notin> snd ` set unlinked" using stuck b by (force simp: stuck_def waiting_def)
  have stuck': "stuck (st(p \<mapsto> c)) r t" if "(r, t) \<in> set unlinked" for r t
  proof -
    have "t \<noteq> p" using notp that by force
    then show ?thesis using stuck [OF that] c(2) by (auto simp: stuck_def waiting_def)
  qed
  have here: "p \<in> set queue \<or> (q, p) \<in> set unlinked' \<and> pprev c = Some q"
    using new by (auto simp: stuck_def)
  have wait: "r \<in> set queue \<or> (\<exists>q. pprev d = Some q \<and> (q, r) \<in> set unlinked')" if d: "(st(p \<mapsto> c)) r = Some d" "waiting d" for r d
  proof (cases "r = p")
    case False
    then have "\<exists>q. pprev d = Some q \<and> (q, r) \<in> set unlinked" using links d by (auto simp: links_ok_def)
    then show ?thesis using new by auto
  qed (use here d in auto)
  have "distinct (queue @ map snd unlinked')" using links new notp unfolding links_ok_def by (elim disjE conjE) simp_all
  moreover have "status_ok d" if "(st(p \<mapsto> c)) r = Some d" for r d using that links c(3) by (auto simp: links_ok_def split: if_splits)
  ultimately show ?thesis using count' wait new stuck' unfolding links_ok_def by auto
qed

definition receive_ok :: "CBlock \<Rightarrow> ptr \<Rightarrow> index_state \<Rightarrow> bool" where
  "receive_ok block p s \<longleftrightarrow> vtx block \<noteq> [] \<and> length (vtx block) < 2 ^ 32 \<and>
    (\<exists>b. store s p = Some b \<and> nStatus b AND BLOCK_HAVE_DATA = 0 \<and> nStatus b AND BLOCK_FAILED_MASK = 0 \<and>
      (\<forall>c. parent (store s) b = Some c \<longrightarrow> nStatus c AND BLOCK_FAILED_MASK = 0) \<and>
      tx_room ((store s)(p \<mapsto> b\<lparr>nTx := word_of_nat (length (vtx block))\<rparr>)))"

lemma proof_of_stake_modifier: "GeneratedStakeModifier (SetProofOfStake b) = GeneratedStakeModifier b"
proof -
  have "(nFlags b OR BLOCK_PROOF_OF_STAKE) AND BLOCK_STAKE_MODIFIER = nFlags b AND BLOCK_STAKE_MODIFIER"
    by (simp add: BLOCK_PROOF_OF_STAKE_def BLOCK_STAKE_MODIFIER_def bit.conj_disj_distrib2)
  then show ?thesis by (simp add: GeneratedStakeModifier_def SetProofOfStake_def)
qed

text \<open>The entry of a block whose transactions have arrived.\<close>

definition received :: "CBlock \<Rightarrow> CDiskBlockPos \<Rightarrow> CBlockIndex \<Rightarrow> CBlockIndex" where
  "received block pos b = (if CBlock_IsProofOfStake block then SetProofOfStake b else b)
     \<lparr>nTx := word_of_nat (length (vtx block)), nChainTx := 0, nSaplingValue := sapling_value block, nChainSaplingValue := None,
      nFile := pos_nFile pos, nDataPos := pos_nPos pos, nUndoPos := 0,
      nStatus := (nStatus b OR BLOCK_HAVE_DATA) AND NOT BLOCK_VALID_MASK OR BLOCK_VALID_TRANSACTIONS\<rparr>"

lemma status_nonzero: "BLOCK_HAVE_DATA \<noteq> 0" "BLOCK_VALID_TREE \<le> BLOCK_VALID_TRANSACTIONS" "\<not> BLOCK_VALID_TRANSACTIONS \<le> BLOCK_VALID_TREE"
  by (simp_all add: status_defs)

lemma received_ok:
  assumes "status_ok b" "nTx b = 0" "nChainTx b = 0" "vtx block \<noteq> []" "length (vtx block) < 2 ^ 32"
  shows "same_index b (received block pos b)" "waiting (received block pos b)" "status_ok (received block pos b)"
proof -
  show "same_index b (received block pos b)"
    using proof_of_stake_modifier [of b]
    by (auto simp: same_index_def same_tree_def received_def SetProofOfStake_def GeneratedStakeModifier_def)
  have "unat (word_of_nat (length (vtx block)) :: uint32) = length (vtx block)"
    using assms(5) by (simp add: unsigned_of_nat take_bit_nat_eq_self)
  then have "word_of_nat (length (vtx block)) \<noteq> (0 :: uint32)" using assms(4) by auto
  then show "waiting (received block pos b)" "status_ok (received block pos b)"
    using assms(1,2,3) status_nonzero by (auto simp: received_def waiting_def status_ok_def SetProofOfStake_def)
qed

lemma receive_entry:
  assumes "store s p = Some b" "status_ok b" "nTx b = 0" "nStatus b AND BLOCK_FAILED_MASK = 0"
  shows "ReceivedBlockTransactions block p pos s =
    (let s1 = s\<lparr>store := (store s)(p \<mapsto> received block pos b), setDirtyBlockIndex := insert p (setDirtyBlockIndex s)\<rparr>
     in case pprev b of
          None \<Rightarrow> link_queue [p] s1
        | Some q \<Rightarrow> do {
            prev \<leftarrow> store s1 q;
            if nChainTx prev \<noteq> 0 then link_queue [p] s1
            else do {
              valid \<leftarrow> bi_IsValid BLOCK_VALID_TREE prev;
              Some (if valid then s1\<lparr>mapBlocksUnlinked := mapBlocksUnlinked s1 @ [(q, p)]\<rparr> else s1)
            }
          })"
proof -
  have "BLOCK_VALID_TRANSACTIONS AND NOT BLOCK_VALID_MASK = 0" by (simp add: status_defs)
  moreover have "\<not> BLOCK_VALID_TRANSACTIONS \<le> nStatus b AND BLOCK_VALID_MASK" using assms(2,3) by (simp add: status_ok_def)
  ultimately have raise: "RaiseValidity BLOCK_VALID_TRANSACTIONS ((if CBlock_IsProofOfStake block then SetProofOfStake b else b)
     \<lparr>nTx := word_of_nat (length (vtx block)), nChainTx := 0, nSaplingValue := sapling_value block, nChainSaplingValue := None,
      nFile := pos_nFile pos, nDataPos := pos_nPos pos, nUndoPos := 0,
      nStatus := nStatus (if CBlock_IsProofOfStake block then SetProofOfStake b else b) OR BLOCK_HAVE_DATA\<rparr>) =
    Some (True, received block pos b)"
    using assms(4) by (auto simp: RaiseValidity_def received_def SetProofOfStake_def not_le)
  have prev: "pprev (received block pos b) = pprev b" by (simp add: received_def SetProofOfStake_def)
  show ?thesis unfolding ReceivedBlockTransactions_def Let_def by (simp only: assms(1) Option.bind.simps raise prod.case prev)
qed

lemma receive_rest:
  assumes inv: "index_inv E [] s" and b: "store s p = Some b" "nChainTx b = 0" "same_tree b c"
    and room: "tx_room ((store s)(p \<mapsto> b\<lparr>nTx := nTx c\<rparr>))"
    and s1: "store s1 = (store s)(p \<mapsto> c)" "chainActive s1 = chainActive s" "setBlockIndexCandidates s1 = setBlockIndexCandidates s"
      "pindexBestInvalid s1 = pindexBestInvalid s"
  shows "chain_ok (store s1) (chainActive s1)" "tx_room (store s1)" "cands_ok s1"
proof -
  show "chain_ok (store s1) (chainActive s1)"
    using chain_ok_update [of "store s" _ p b c] inv b by (simp add: s1 index_inv_def)
  have "tx_room ((store s)(p \<mapsto> b\<lparr>nTx := nTx c\<rparr>, p \<mapsto> c))"
    by (rule tx_room_update [OF room, of p "b\<lparr>nTx := nTx c\<rparr>"]) (use b(3) in \<open>simp_all add: same_tree_def\<close>)
  then show "tx_room (store s1)" by (simp add: s1)
  have "p \<notin> set (setBlockIndexCandidates s)" using inv b by (auto simp: index_inv_def cands_ok_def)
  then show "cands_ok s1" using inv by (auto simp: s1 index_inv_def cands_ok_def)
qed

lemma ReceivedBlockTransactions_total:
  assumes inv: "index_inv E [] s" and ok: "receive_ok block p s"
  shows "\<exists>s'. ReceivedBlockTransactions block p pos s = Some s' \<and> index_inv E [] s'"
proof -
  let ?st = "store s"
  have links: "links_ok [] ?st (mapBlocksUnlinked s)" and iok: "index_ok ?st" and chain: "chain_ok ?st (chainActive s)"
    using inv by (auto simp: index_inv_def tree_inv_def)
  obtain b where b: "?st p = Some b" "nStatus b AND BLOCK_HAVE_DATA = 0" "nStatus b AND BLOCK_FAILED_MASK = 0"
      "\<forall>c. parent ?st b = Some c \<longrightarrow> nStatus c AND BLOCK_FAILED_MASK = 0"
      "tx_room (?st(p \<mapsto> b\<lparr>nTx := word_of_nat (length (vtx block))\<rparr>))" and vtx: "vtx block \<noteq> []" "length (vtx block) < 2 ^ 32"
    using ok by (auto simp: receive_ok_def)
  have sb: "status_ok b" "nTx b = 0" "nChainTx b = 0"
    using links b(1,2) by (auto simp: links_ok_def status_ok_def local_ok_def count_ok_def)
  define c where "c = received block pos b"
  note c = received_ok [OF sb vtx, of pos, folded c_def]
  have same: "same_tree b c" using c(1) by (simp add: same_index_def)
  define s1 where "s1 = s\<lparr>store := ?st(p \<mapsto> c), setDirtyBlockIndex := insert p (setDirtyBlockIndex s)\<rparr>"
  have tree: "tree_inv E s1" by (rule tree_inv_update [OF _ b(1) c(1)]) (use inv in \<open>simp_all add: index_inv_def s1_def\<close>)
  have "nTx c = word_of_nat (length (vtx block))" by (simp add: c_def received_def)
  then have rest: "chain_ok (store s1) (chainActive s1)" "tx_room (store s1)" "cands_ok s1"
    using receive_rest [OF inv b(1) sb(3) same, of s1] b(5) by (simp_all add: s1_def)
  have step: "ReceivedBlockTransactions block p pos s = (case pprev b of None \<Rightarrow> link_queue [p] s1
      | Some q \<Rightarrow> do { prev \<leftarrow> store s1 q;
          if nChainTx prev \<noteq> 0 then link_queue [p] s1
          else do { valid \<leftarrow> bi_IsValid BLOCK_VALID_TREE prev;
                    Some (if valid then s1\<lparr>mapBlocksUnlinked := mapBlocksUnlinked s1 @ [(q, p)]\<rparr> else s1) } })"
    by (simp only: receive_entry [OF b(1) sb(1,2) b(3)] Let_def s1_def c_def)
  have parent: "parent (store s1) c = parent ?st b" using parent_same [OF iok b(1) same] by (simp add: s1_def)
  show ?thesis
  proof (cases "\<forall>d. parent ?st b = Some d \<longrightarrow> nChainTx d \<noteq> 0")
    case True
    then have "ready (store s1) p" using c(2) parent by (simp add: ready_def s1_def)
    then have "index_inv E [p] s1"
      using links_ok_receive [OF links b(1) sb(2) same c(2,3), of "[p]"] tree rest by (simp add: index_inv_def s1_def)
    moreover have "ReceivedBlockTransactions block p pos s = link_queue [p] s1"
      unfolding step using True parent same index_ok_parent [OF iok b(1)]
      by (auto simp: parent_def same_tree_def simp del: link_queue.simps split: option.splits)
    ultimately show ?thesis using link_queue_total [of E "[p]" s1] by (simp del: link_queue.simps)
  next
    case False
    then obtain q d where q: "pprev b = Some q" "?st q = Some d" "nChainTx d = 0" by (auto simp: parent_def split: option.splits)
    have "q \<noteq> p" using index_ok_prev [OF iok b(1) q(1)] b(1) by fastforce
    then have "stuck (store s1) q p" using c(2) q same by (auto simp: stuck_def s1_def same_tree_def)
    then have "index_inv E [] (s1\<lparr>mapBlocksUnlinked := mapBlocksUnlinked s1 @ [(q, p)]\<rparr>)"
      using links_ok_receive [OF links b(1) sb(2) same c(2,3), of "[]"] tree rest
      by (simp add: index_inv_def s1_def tree_inv_def cands_ok_def)
    moreover have "bi_IsValid BLOCK_VALID_TREE d = Some True"
      using links q b(4) by (auto simp: links_ok_def status_ok_def bi_IsValid_def parent_def status_defs)
    ultimately show ?thesis unfolding step using q \<open>q \<noteq> p\<close> by (simp add: s1_def)
  qed
qed

section \<open>New headers\<close>

lemma tx_total_insert:
  assumes "index_ok st" "st p = None" "st q = Some b"
  shows "tx_total (st(p \<mapsto> c)) q = tx_total st q"
proof -
  have "(st(p \<mapsto> c)) r = st r" if "r \<in> set (path st q)" for r using path_dom [OF assms(1,3) that] assms(2) by auto
  then show ?thesis by (auto simp: tx_total_def path_insert [OF assms] intro!: arg_cong [where f = sum_list] map_cong)
qed

lemma tx_room_insert:
  assumes ok: "index_ok st" "st p = None" "entry_ok st c" "nTx c = 0" and room: "tx_room st"
  shows "tx_room (st(p \<mapsto> c))"
proof (unfold tx_room_def, intro allI impI)
  fix q d assume d: "(st(p \<mapsto> c)) q = Some d"
  have new: "index_ok (st(p \<mapsto> c))" by (rule index_ok_insert [OF ok(1-3)])
  show "tx_total (st(p \<mapsto> c)) q < 2 ^ 32"
  proof (cases "q = p")
    case True
    have "tx_total (st(p \<mapsto> c)) p = (case pprev c of None \<Rightarrow> 0 | Some r \<Rightarrow> tx_total (st(p \<mapsto> c)) r)"
      using tx_total_prev [OF new, of p c] ok(4) by simp
    then show ?thesis
      using True room tx_total_insert [OF ok(1,2)] ok(3) by (auto simp: entry_ok_def tx_room_def split: option.splits)
  next
    case False
    then have "st q = Some d" using d by simp
    then show ?thesis using room tx_total_insert [OF ok(1,2)] by (simp add: tx_room_def)
  qed
qed

lemma links_ok_insert:
  assumes ok: "index_ok st" "st p = None" "entry_ok st c" and c: "nTx c = 0" "nChainTx c = 0" "status_ok c"
    and links: "links_ok [] st unlinked"
  shows "links_ok [] (st(p \<mapsto> c)) unlinked"
proof -
  have "local_ok count_ok (st(p \<mapsto> c))"
    by (rule local_ok_insert [OF ok(1,2) _ ok(3)]) (use links c in \<open>simp_all add: links_ok_def count_ok_def\<close>)
  moreover have "stuck (st(p \<mapsto> c)) q r" if "(q, r) \<in> set unlinked" for q r
  proof -
    have "stuck st q r" using links that by (auto simp: links_ok_def)
    moreover from this have "q \<noteq> p" "r \<noteq> p" using ok(2) by (auto simp: stuck_def)
    ultimately show ?thesis by (simp add: stuck_def)
  qed
  moreover have "\<exists>q. pprev d = Some q \<and> (q, r) \<in> set unlinked" if "(st(p \<mapsto> c)) r = Some d" "waiting d" for r d
    using that links c(1) by (auto simp: links_ok_def waiting_def split: if_splits)
  moreover have "status_ok d" if "(st(p \<mapsto> c)) r = Some d" for r d using that links c(3) by (auto simp: links_ok_def split: if_splits)
  ultimately show ?thesis using links by (auto simp: links_ok_def)
qed

lemma chain_ok_insert:
  assumes "index_ok st" "st p = None" "chain_ok st v"
  shows "chain_ok (st(p \<mapsto> c)) v"
proof (cases "v = []")
  case False
  then obtain q b where q: "st q = Some b" "v = chain_of st q" using assms(3) by (auto simp: chain_ok_def)
  then have "(st(p \<mapsto> c)) q = Some b" using assms(2) by auto
  moreover have "v = chain_of (st(p \<mapsto> c)) q" using q path_insert [OF assms(1,2) q(1)] by (simp add: chain_of_def)
  ultimately show ?thesis by (auto simp: chain_ok_def)
qed (simp add: chain_ok_def)

lemma AddToBlockIndex_inv:
  assumes inv: "index_inv E [] s" and ok: "add_ok E block s"
  shows "\<exists>p s'. AddToBlockIndex E block s = Some (p, s') \<and> index_inv E [] s' \<and> mapBlockIndex s' (block_GetHash E block) = Some p"
proof -
  have "tree_inv E s" using inv by (simp add: index_inv_def)
  from AddToBlockIndex_total [OF this ok] obtain p s' where
    s': "AddToBlockIndex E block s = Some (p, s')" "tree_inv E s'" "mapBlockIndex s' (block_GetHash E block) = Some p" "s' = s \<or> added s s'" by blast
  have "index_inv E [] s'" if "added s s'"
  proof -
    obtain b where b: "new_counts b" "entry_ok (store s) b" and
      st: "store s' = (store s)(next_ptr s \<mapsto> b\<lparr>nStatus := BLOCK_VALID_TREE\<rparr>)" "chainActive s' = chainActive s"
        "setBlockIndexCandidates s' = setBlockIndexCandidates s" "mapBlocksUnlinked s' = mapBlocksUnlinked s" "pindexBestInvalid s' = pindexBestInvalid s"
      using \<open>added s s'\<close> unfolding added_def by blast
    let ?c = "b\<lparr>nStatus := BLOCK_VALID_TREE\<rparr>"
    have ok: "index_ok (store s)" "store s (next_ptr s) = None" using inv by (auto simp: index_inv_def tree_inv_def)
    have c: "entry_ok (store s) ?c" "nTx ?c = 0" "nChainTx ?c = 0" "status_ok ?c"
      using b by (simp_all add: new_counts_def entry_ok_def status_ok_def status_defs cong: option.case_cong)
    have "cands_ok s'" using inv ok(2) by (fastforce simp: index_inv_def cands_ok_def st)
    then show ?thesis
      using inv s'(2) chain_ok_insert [OF ok] tx_room_insert [OF ok c(1,2)] links_ok_insert [OF ok c]
      by (simp add: index_inv_def st)
  qed
  then show ?thesis using s' inv by blast
qed

section \<open>Marking blocks\<close>

lemma index_inv_status:
  assumes inv: "index_inv E [] s" and b: "store s p = Some b" "x AND BLOCK_VALID_MASK = nStatus b AND BLOCK_VALID_MASK"
      "x AND BLOCK_HAVE_DATA = nStatus b AND BLOCK_HAVE_DATA"
    and s': "store s' = (store s)(p \<mapsto> b\<lparr>nStatus := x\<rparr>)" "mapBlockIndex s' = mapBlockIndex s" "next_ptr s' = next_ptr s"
      "pindexBestHeader s' = pindexBestHeader s" "chainActive s' = chainActive s" "mapBlocksUnlinked s' = mapBlocksUnlinked s"
      "set (setBlockIndexCandidates s') \<subseteq> set (setBlockIndexCandidates s)" "distinct (setBlockIndexCandidates s')"
      "\<And>i. pindexBestInvalid s' = Some i \<Longrightarrow> store s i \<noteq> None"
  shows "index_inv E [] s'"
proof -
  let ?c = "b\<lparr>nStatus := x\<rparr>"
  have same: "same_index b ?c" "same_tree b ?c" by (simp_all add: same_index_def same_tree_def GeneratedStakeModifier_def)
  have "tree_inv E s'" by (rule tree_inv_update [OF _ b(1) same(1) s'(1-4)]) (use inv in \<open>simp add: index_inv_def\<close>)
  moreover have "chain_ok (store s') (chainActive s')" "tx_room (store s')"
    using chain_ok_update [of "store s" _ p b ?c] tx_room_update [of "store s" p b ?c] inv b(1) same(2) by (simp_all add: index_inv_def s')
  moreover have "links_ok [] (store s') (mapBlocksUnlinked s')"
  proof -
    have links: "links_ok [] (store s) (mapBlocksUnlinked s)" using inv by (simp add: index_inv_def)
    then have "local_ok count_ok (store s')" unfolding s'
      by (intro local_ok_update [of "store s" p b ?c, OF b(1) same(2)]) (auto simp: links_ok_def count_ok_def split: option.splits)
    moreover have "stuck (store s') q r" if "stuck (store s) q r" for q r using that b(1) by (auto simp: stuck_def s' waiting_def)
    moreover have "status_ok d" if "store s' r = Some d" for r d
      using that links b by (auto simp: links_ok_def s' status_ok_def split: if_splits)
    ultimately show ?thesis using links b(1) by (auto simp: links_ok_def s' waiting_def split: if_splits)
  qed
  moreover have "cands_ok s'" using inv s'(7-) b(1) by (fastforce simp: index_inv_def cands_ok_def s'(1))
  ultimately show ?thesis by (simp add: index_inv_def)
qed

end
