(* ===== verification/Most_Work.thy ===== *)
theory Most_Work
  imports Block_Links
begin

text \<open>
  Choosing the chain to follow: \<^verbatim>\<open>FindMostWorkChain\<close> and \<^verbatim>\<open>InvalidBlockFound\<close> of \<^verbatim>\<open>src/validation.cpp\<close>, and the states the block index
  reaches by headers, blocks, failures and moves of the tip.
\<close>

section \<open>The candidate with the most work\<close>

text \<open>The last element of the ordered set.\<close>

fun largest :: "block_store \<Rightarrow> ptr list \<Rightarrow> ptr option option" where
  "largest st [] = Some None"
| "largest st (p # ps) = do {
     r \<leftarrow> largest st ps;
     case r of
       None \<Rightarrow> Some (Some p)
     | Some q \<Rightarrow> do { less \<leftarrow> WorkComparator st p q; Some (Some (if less then q else p)) }
   }"

text \<open>
  The walk from a candidate to the active chain: the first block that has failed or has no data. The assertion is that the blocks on
  the way are linked.
\<close>

partial_function (option) test_chain :: "block_store \<Rightarrow> CChain \<Rightarrow> ptr option \<Rightarrow> ptr option option" where
  "test_chain st v pindexTest =
    (case pindexTest of
       None \<Rightarrow> Some None
     | Some t \<Rightarrow> do {
         b \<leftarrow> st t;
         contained \<leftarrow> CChain_Contains st v t;
         if contained then Some None
         else if \<not> (nChainTx b \<noteq> 0 \<or> nHeight b = 0) then None
         else if nStatus b AND BLOCK_FAILED_MASK \<noteq> 0 \<or> nStatus b AND BLOCK_HAVE_DATA = 0 then Some (Some t)
         else test_chain st v (pprev b)
       })"

declare test_chain.simps [code]

text \<open>Removing the candidates between the chosen block and the unusable one.\<close>

partial_function (option) remove_chain :: "ptr \<Rightarrow> bool \<Rightarrow> ptr \<Rightarrow> index_state \<Rightarrow> index_state option" where
  "remove_chain t fFailedChain f s =
    (if t = f then Some s
     else do {
       b \<leftarrow> store s f;
       let s1 = (if fFailedChain then s\<lparr>store := (store s)(f \<mapsto> b\<lparr>nStatus := nStatus b OR BLOCK_FAILED_CHILD\<rparr>)\<rparr>
                 else s\<lparr>mapBlocksUnlinked := mapBlocksUnlinked s @ (case pprev b of None \<Rightarrow> [] | Some q \<Rightarrow> [(q, f)])\<rparr>);
       let s2 = s1\<lparr>setBlockIndexCandidates := removeAll f (setBlockIndexCandidates s1)\<rparr>;
       q \<leftarrow> pprev b;
       remove_chain t fFailedChain q s2
     })"

declare remove_chain.simps [code]

definition drop_chain :: "ptr \<Rightarrow> ptr \<Rightarrow> index_state \<Rightarrow> index_state option" where
  "drop_chain pindexNew t s = do {
     b \<leftarrow> store s t;
     new \<leftarrow> store s pindexNew;
     let failed = (nStatus b AND BLOCK_FAILED_MASK \<noteq> 0);
     worse \<leftarrow> (case pindexBestInvalid s of None \<Rightarrow> Some True | Some i \<Rightarrow> map_option (\<lambda>c. nChainWork new > nChainWork c) (store s i));
     s1 \<leftarrow> remove_chain t failed pindexNew (if failed \<and> worse then s\<lparr>pindexBestInvalid := Some pindexNew\<rparr> else s);
     Some (s1\<lparr>setBlockIndexCandidates := removeAll t (setBlockIndexCandidates s1)\<rparr>)
   }"

lemma largest_in: "largest st ps = Some (Some p) \<Longrightarrow> p \<in> set ps"
  by (induction ps arbitrary: p) (auto split: Option.bind_splits option.splits if_splits)

lemma remove_chain_cands:
  "remove_chain t failed f s = Some s' \<Longrightarrow>
    \<exists>P. setBlockIndexCandidates s' = filter P (setBlockIndexCandidates s) \<and> (t \<noteq> f \<longrightarrow> \<not> P f)"
proof (induction t failed f s s' rule: remove_chain.raw_induct [rotated, consumes 1, case_names step])
  case (step rc t failed f s s')
  show ?case
  proof (cases "t = f")
    case False
    then obtain b q s2 where b: "store s f = Some b" "pprev b = Some q" "rc t failed q s2 = Some s'"
      "setBlockIndexCandidates s2 = removeAll f (setBlockIndexCandidates s)"
      using step(2) by (auto simp: Let_def split: Option.bind_splits if_splits)
    from step(1) [OF b(3)] obtain P where "setBlockIndexCandidates s' = filter P (removeAll f (setBlockIndexCandidates s))"
      using b(4) by auto
    then have "setBlockIndexCandidates s' = filter (\<lambda>x. P x \<and> f \<noteq> x) (setBlockIndexCandidates s)"
      by (simp add: removeAll_filter_not_eq conj_commute)
    then show ?thesis by blast
  qed (use step(2) in \<open>auto intro!: exI [of _ "\<lambda>_. True"]\<close>)
qed

lemma drop_chain_shorter:
  assumes "drop_chain p t s = Some s'" "p \<in> set (setBlockIndexCandidates s)"
  shows "length (setBlockIndexCandidates s') < length (setBlockIndexCandidates s)"
proof -
  obtain failed s0 s1 where s1: "remove_chain t failed p s0 = Some s1" "setBlockIndexCandidates s0 = setBlockIndexCandidates s"
    "s' = s1\<lparr>setBlockIndexCandidates := removeAll t (setBlockIndexCandidates s1)\<rparr>"
    using assms(1) by (auto simp: drop_chain_def Let_def split: Option.bind_splits if_splits)
  obtain P where P: "setBlockIndexCandidates s1 = filter P (setBlockIndexCandidates s)" "t \<noteq> p \<longrightarrow> \<not> P p"
    using remove_chain_cands [OF s1(1)] s1(2) by auto
  have "setBlockIndexCandidates s' = filter (\<lambda>x. P x \<and> t \<noteq> x) (setBlockIndexCandidates s)"
    using s1(3) P(1) by (simp add: removeAll_filter_not_eq conj_commute)
  moreover have "\<not> (P p \<and> t \<noteq> p)" using P(2) by auto
  ultimately show ?thesis using length_filter_less [OF assms(2), of "\<lambda>x. P x \<and> t \<noteq> x"] by simp
qed

function FindMostWorkChain :: "index_state \<Rightarrow> (ptr option \<times> index_state) option" where
  "FindMostWorkChain s = do {
     r \<leftarrow> largest (store s) (setBlockIndexCandidates s);
     case r of
       None \<Rightarrow> Some (None, s)
     | Some pindexNew \<Rightarrow> do {
         test \<leftarrow> test_chain (store s) (chainActive s) (Some pindexNew);
         case test of
           None \<Rightarrow> Some (Some pindexNew, s)
         | Some t \<Rightarrow> do { s1 \<leftarrow> drop_chain pindexNew t s; FindMostWorkChain s1 }
       }
   }"
  by pat_completeness auto

termination
  by (relation "measure (\<lambda>s. length (setBlockIndexCandidates s))") (auto intro: drop_chain_shorter largest_in)

declare FindMostWorkChain.simps [simp del]

section \<open>The order of the candidates\<close>

lemma WorkComparator_iff:
  assumes "st p = Some b" "st q = Some c"
  shows "WorkComparator st p q = Some (nChainWork b < nChainWork c \<or> nChainWork b = nChainWork c \<and>
    (nSequenceId c < nSequenceId b \<or> nSequenceId c = nSequenceId b \<and> q < p))"
  using assms by (auto simp: WorkComparator_def)

definition worse :: "block_store \<Rightarrow> ptr \<Rightarrow> ptr \<Rightarrow> bool" where
  "worse st p q \<longleftrightarrow> WorkComparator st p q = Some True"

lemma worse_total:
  assumes "st p = Some b" "st q = Some c"
  shows "WorkComparator st p q = Some (worse st p q)" "\<not> worse st p q \<Longrightarrow> q = p \<or> worse st q p"
  using assms by (auto simp: worse_def WorkComparator_iff)

lemma worse_trans:
  assumes "st p = Some b" "st q = Some c" "st r = Some d" "worse st p q" "worse st q r"
  shows "worse st p r"
  using assms by (auto simp: worse_def WorkComparator_iff)

lemma largest_total:
  assumes "\<forall>p \<in> set ps. \<exists>b. st p = Some b"
  shows "\<exists>r. largest st ps = Some r \<and> (r = None \<longleftrightarrow> ps = []) \<and>
    (\<forall>p. r = Some p \<longrightarrow> p \<in> set ps \<and> (\<forall>q \<in> set ps. q = p \<or> worse st q p))"
  using assms
proof (induction ps)
  case (Cons p ps)
  then obtain r where r: "largest st ps = Some r" "r = None \<longleftrightarrow> ps = []"
    "\<forall>p. r = Some p \<longrightarrow> p \<in> set ps \<and> (\<forall>q \<in> set ps. q = p \<or> worse st q p)" by auto
  obtain b where b: "st p = Some b" using Cons.prems by auto
  show ?case
  proof (cases r)
    case None
    then show ?thesis using r by simp
  next
    case (Some q)
    then obtain c where c: "st q = Some c" using r(3) Cons.prems by auto
    show ?thesis
    proof (cases "worse st p q")
      case True
      then show ?thesis using r Some worse_total(1) [OF b c] by auto
    next
      case False
      have "x = p \<or> worse st x p" if x: "x \<in> set ps" for x
      proof -
        obtain d where d: "st x = Some d" using x Cons.prems by auto
        have "x = q \<or> worse st x q" "q = p \<or> worse st q p" using x r(3) Some worse_total(2) [OF b c False] by auto
        then show ?thesis using worse_trans [OF d c b] by auto
      qed
      then show ?thesis using r Some False worse_total(1) [OF b c] by auto
    qed
  qed
qed simp

section \<open>Usable candidates\<close>

definition on_chain :: "block_store \<Rightarrow> CChain \<Rightarrow> ptr \<Rightarrow> bool" where
  "on_chain st v p \<longleftrightarrow> CChain_Contains st v p = Some True"

definition failed :: "block_store \<Rightarrow> ptr \<Rightarrow> bool" where
  "failed st p \<longleftrightarrow> nStatus (the (st p)) AND BLOCK_FAILED_MASK \<noteq> 0"

definition usable :: "block_store \<Rightarrow> CChain \<Rightarrow> ptr \<Rightarrow> bool" where
  "usable st v p \<longleftrightarrow> (\<forall>r \<in> set (path st p). on_chain st v r \<or> \<not> failed st r)"

lemma on_chain_closed:
  assumes ok: "index_ok st" "chain_ok st v" and "st p = Some b" "on_chain st v p" "r \<in> set (path st p)"
  shows "on_chain st v r"
proof -
  obtain t c where t: "st t = Some c" "v = chain_of st t"
    using ok(2) assms(3,4) by (auto simp: chain_ok_def on_chain_def CChain_Contains_def CChain_at_def)
  obtain d where d: "st r = Some d" using path_dom [OF ok(1) assms(3,5)] by blast
  have "is_ancestor st p t" using assms(3,4) at_chain_of [OF ok(1) t(1) assms(3)] t(2) by (simp add: on_chain_def CChain_Contains_def)
  then have "is_ancestor st r t" using is_ancestor_trans [OF ok(1) t(1)] assms(5) by (simp add: is_ancestor_def)
  then show ?thesis using at_chain_of [OF ok(1) t(1) d] d t(2) by (simp add: on_chain_def CChain_Contains_def)
qed

lemma test_chain_find:
  assumes ok: "index_ok st" and "st p = Some b"
    and "\<forall>r \<in> set (path st p). nChainTx (the (st r)) \<noteq> 0 \<and> nStatus (the (st r)) AND BLOCK_HAVE_DATA \<noteq> 0"
  shows "test_chain st v (Some p) = Some (find (failed st) (takeWhile (\<lambda>r. \<not> on_chain st v r) (path st p)))"
  using assms(2,3)
proof (induction "nHeight b" arbitrary: p b)
  case 0
  then have "pprev b = None" using index_ok_zero [OF ok 0(2)] by simp
  then show ?case
    using 0 by (auto simp: test_chain.simps [of st v "Some p"] test_chain.simps [of st v None] path_Cons [OF ok 0(2)]
      on_chain_def failed_def CChain_Contains_def)
next
  case (Suc h)
  then obtain q where q: "pprev b = Some q" using index_ok_genesis [OF ok Suc.prems(1)] by (cases "pprev b") auto
  obtain b' where b': "st q = Some b'" "nHeight b = Suc (nHeight b')" by (rule index_ok_prev [OF ok Suc.prems(1) q])
  show ?case
    using Suc.hyps b' Suc.prems q
    by (auto simp: test_chain.simps [of st v "Some p"] path_Cons [OF ok Suc.prems(1)] on_chain_def failed_def CChain_Contains_def)
qed

section \<open>Dropping an unusable candidate\<close>

text \<open>What removing the blocks above \<open>t\<close> may change: the status of blocks above \<open>t\<close>, and candidates above \<open>t\<close> are lost.\<close>

definition keeps :: "ptr \<Rightarrow> index_state \<Rightarrow> index_state \<Rightarrow> bool" where
  "keeps t s s' \<longleftrightarrow> (\<forall>r. path (store s') r = path (store s) r) \<and>
    (\<forall>r b. store s r = Some b \<longrightarrow> (\<exists>x. store s' r = Some (b\<lparr>nStatus := x\<rparr>) \<and> (t \<notin> set (path (store s) r) \<or> r = t \<longrightarrow> x = nStatus b))) \<and>
    chainActive s' = chainActive s \<and>
    (\<exists>P. setBlockIndexCandidates s' = filter P (setBlockIndexCandidates s) \<and> (\<forall>q. \<not> P q \<longrightarrow> t \<in> set (path (store s) q)))"

lemma keeps_refl: "keeps t s s"
  unfolding keeps_def
proof (intro conjI allI impI)
  fix r b assume "store s r = Some b"
  then show "\<exists>x. store s r = Some (b\<lparr>nStatus := x\<rparr>) \<and> (t \<notin> set (path (store s) r) \<or> r = t \<longrightarrow> x = nStatus b)"
    by (intro exI [of _ "nStatus b"]) simp
next
  show "\<exists>P. setBlockIndexCandidates s = filter P (setBlockIndexCandidates s) \<and> (\<forall>q. \<not> P q \<longrightarrow> t \<in> set (path (store s) q))"
    by (intro exI [of _ "\<lambda>_. True"]) simp
qed simp_all

lemma keepsD:
  "keeps t s s' \<Longrightarrow> store s r = Some b \<Longrightarrow>
    \<exists>x. store s' r = Some (b\<lparr>nStatus := x\<rparr>) \<and> (t \<notin> set (path (store s) r) \<or> r = t \<longrightarrow> x = nStatus b)"
  unfolding keeps_def by blast

lemma keeps_trans:
  assumes "keeps t s s1" "keeps t s1 s2"
  shows "keeps t s s2"
proof -
  obtain P where P: "setBlockIndexCandidates s1 = filter P (setBlockIndexCandidates s)" "\<And>q. \<not> P q \<Longrightarrow> t \<in> set (path (store s) q)"
    using assms(1) unfolding keeps_def by blast
  obtain Q where Q: "setBlockIndexCandidates s2 = filter Q (setBlockIndexCandidates s1)" "\<And>q. \<not> Q q \<Longrightarrow> t \<in> set (path (store s1) q)"
    using assms(2) unfolding keeps_def by blast
  have path: "path (store s1) r = path (store s) r" "path (store s2) r = path (store s) r" for r
    using assms unfolding keeps_def by simp_all
  have "\<exists>x. store s2 r = Some (b\<lparr>nStatus := x\<rparr>) \<and> (t \<notin> set (path (store s) r) \<or> r = t \<longrightarrow> x = nStatus b)" if r: "store s r = Some b" for r b
  proof -
    obtain x where x: "store s1 r = Some (b\<lparr>nStatus := x\<rparr>)" "t \<notin> set (path (store s) r) \<or> r = t \<longrightarrow> x = nStatus b"
      using assms(1) r unfolding keeps_def by blast
    from keepsD [OF assms(2) x(1)] show ?thesis using x(2) by (auto simp: path(1))
  qed
  moreover have "setBlockIndexCandidates s2 = filter (\<lambda>x. P x \<and> Q x) (setBlockIndexCandidates s)" by (simp add: P(1) Q(1))
  moreover have "t \<in> set (path (store s) q)" if "\<not> (P q \<and> Q q)" for q using that P(2) Q(2) path(1) by auto
  moreover have "chainActive s2 = chainActive s" using assms unfolding keeps_def by simp
  ultimately show ?thesis unfolding keeps_def using path(2) by blast
qed

lemma keeps_usable:
  assumes ok: "index_ok (store s)" and keep: "keeps t s s'" and t: "store s t = Some b" "failed (store s) t" "\<not> on_chain (store s) (chainActive s) t"
    and q: "store s q = Some c"
  shows "usable (store s') (chainActive s') q \<longleftrightarrow> usable (store s) (chainActive s) q"
proof -
  have same: "on_chain (store s') (chainActive s') r = on_chain (store s) (chainActive s) r" if r: "store s r = Some d" for r d
  proof -
    obtain x where "store s' r = Some (d\<lparr>nStatus := x\<rparr>)" using keep r unfolding keeps_def by blast
    moreover have "chainActive s' = chainActive s" using keep unfolding keeps_def by blast
    ultimately show ?thesis using r by (simp add: on_chain_def CChain_Contains_def)
  qed
  have path: "path (store s') q = path (store s) q" using keep unfolding keeps_def by blast
  have status: "failed (store s') r = failed (store s) r" if r: "store s r = Some d" "t \<notin> set (path (store s) r) \<or> r = t" for r d
  proof -
    have "store s' r = Some (d\<lparr>nStatus := nStatus d\<rparr>)" using keep r unfolding keeps_def by blast
    then show ?thesis using r(1) by (simp add: failed_def)
  qed
  show ?thesis
  proof (cases "t \<in> set (path (store s) q)")
    case True
    have "failed (store s') t" "\<not> on_chain (store s') (chainActive s') t" using t status [OF t(1)] same [OF t(1)] by auto
    then show ?thesis using True t path unfolding usable_def by metis
  next
    case False
    have "failed (store s') r = failed (store s) r \<and> on_chain (store s') (chainActive s') r = on_chain (store s) (chainActive s) r"
      if r: "r \<in> set (path (store s) q)" for r
    proof -
      obtain d where d: "store s r = Some d" using path_dom [OF ok q r] by blast
      have "t \<notin> set (path (store s) r)" using False is_ancestor_trans [OF ok q] r by (auto simp: is_ancestor_def)
      then show ?thesis using status [OF d] same [OF d] by simp
    qed
    then show ?thesis unfolding usable_def path by (metis (no_types, lifting))
  qed
qed

lemma keeps_step:
  assumes ok: "index_ok (store s)" and f: "store s f = Some b" "t \<in> set (path (store s) f)" "t \<noteq> f"
    and s': "store s' = (store s)(f \<mapsto> b\<lparr>nStatus := x\<rparr>)" "chainActive s' = chainActive s"
      "setBlockIndexCandidates s' = removeAll f (setBlockIndexCandidates s)"
  shows "keeps t s s'"
  unfolding keeps_def
proof (intro conjI allI impI)
  have same: "same_tree b (b\<lparr>nStatus := x\<rparr>)" by (simp add: same_tree_def)
  show "path (store s') r = path (store s) r" for r unfolding s' using path_same_tree [of "store s" f b "b\<lparr>nStatus := x\<rparr>" r] f(1) same by simp
  show "chainActive s' = chainActive s" by (rule s')
  fix r c assume c: "store s r = Some c"
  show "\<exists>y. store s' r = Some (c\<lparr>nStatus := y\<rparr>) \<and> (t \<notin> set (path (store s) r) \<or> r = t \<longrightarrow> y = nStatus c)"
  proof (cases "r = f")
    case True
    then show ?thesis using c f by (intro exI [of _ x]) (simp add: s')
  qed (use c in \<open>intro exI [of _ "nStatus c"], simp add: s'\<close>)
next
  show "\<exists>P. setBlockIndexCandidates s' = filter P (setBlockIndexCandidates s) \<and> (\<forall>q. \<not> P q \<longrightarrow> t \<in> set (path (store s) q))"
    using f(2) by (intro exI [of _ "\<lambda>y. f \<noteq> y"]) (simp add: s' removeAll_filter_not_eq)
qed

lemma remove_chain_failed:
  assumes "index_inv E [] s" "store s f = Some b" "t \<in> set (path (store s) f)"
  shows "\<exists>s'. remove_chain t True f s = Some s' \<and> index_inv E [] s' \<and> keeps t s s'"
  using assms
proof (induction "nHeight b" arbitrary: f b s)
  case 0
  have ok: "index_ok (store s)" using 0(2) by (simp add: index_inv_def tree_inv_def)
  have "pprev b = None" using 0(1) index_ok_zero [OF ok 0(3)] by simp
  then have "t = f" using 0(4) path_Cons [OF ok 0(3)] by simp
  then show ?case using 0(2) keeps_refl by (simp add: remove_chain.simps)
next
  case (Suc h)
  have ok: "index_ok (store s)" using Suc.prems(1) by (simp add: index_inv_def tree_inv_def)
  show ?case
  proof (cases "t = f")
    case True
    then show ?thesis using Suc.prems(1) keeps_refl by (simp add: remove_chain.simps)
  next
    case False
    obtain q where q: "pprev b = Some q" using Suc.hyps(2) index_ok_zero [OF ok Suc.prems(2)] by (cases "pprev b") auto
    obtain c where c: "store s q = Some c" "nHeight b = Suc (nHeight c)" by (rule index_ok_prev [OF ok Suc.prems(2) q])
    have tq: "t \<in> set (path (store s) q)" using Suc.prems(3) False q by (simp add: path_Cons [OF ok Suc.prems(2)])
    define s2 where "s2 = s\<lparr>store := (store s)(f \<mapsto> b\<lparr>nStatus := nStatus b OR BLOCK_FAILED_CHILD\<rparr>),
      setBlockIndexCandidates := removeAll f (setBlockIndexCandidates s)\<rparr>"
    have keep: "keeps t s s2" by (rule keeps_step [OF ok Suc.prems(2,3) False]) (simp_all add: s2_def)
    have inv: "index_inv E [] s2"
      by (rule index_inv_status [OF Suc.prems(1,2), of "nStatus b OR BLOCK_FAILED_CHILD"])
        (use Suc.prems(1) in \<open>auto simp: s2_def index_inv_def cands_ok_def distinct_removeAll\<close>)
    have "q \<noteq> f" using c Suc.prems(2) by auto
    then have "store s2 q = Some c" "t \<in> set (path (store s2) q)" using c(1) tq keep by (simp_all add: s2_def keeps_def)
    then obtain s' where "remove_chain t True q s2 = Some s'" "index_inv E [] s'" "keeps t s2 s'"
      using Suc.hyps(1) [OF _ inv, of c q] Suc.hyps(2) c(2) by auto
    moreover have "remove_chain t True f s = remove_chain t True q s2"
      using False Suc.prems(2) q by (simp add: remove_chain.simps [of t True f] s2_def)
    ultimately show ?thesis using keeps_trans [OF keep] by auto
  qed
qed

lemma index_inv_cands:
  assumes "index_inv E [] s" "set C \<subseteq> set (setBlockIndexCandidates s)" "distinct C" "\<And>i. best = Some i \<Longrightarrow> store s i \<noteq> None"
  shows "index_inv E [] (s\<lparr>setBlockIndexCandidates := C, pindexBestInvalid := best\<rparr>)"
  using assms by (auto simp: index_inv_def tree_inv_def cands_ok_def)

lemma keeps_drop:
  assumes "store s' = store s" "chainActive s' = chainActive s" "setBlockIndexCandidates s' = removeAll t (setBlockIndexCandidates s)"
    and "store s t = Some b" "index_ok (store s)"
  shows "keeps t s s'"
proof -
  have "t \<in> set (path (store s) t)" using is_ancestor_refl [OF assms(5,4)] by (simp add: is_ancestor_def)
  then have "\<exists>P. setBlockIndexCandidates s' = filter P (setBlockIndexCandidates s) \<and> (\<forall>q. \<not> P q \<longrightarrow> t \<in> set (path (store s) q))"
    by (intro exI [of _ "\<lambda>y. t \<noteq> y"]) (simp add: assms(3) removeAll_filter_not_eq)
  then show ?thesis using keeps_refl [of t s] unfolding keeps_def assms(1,2) by blast
qed

lemma drop_chain_failed:
  assumes inv: "index_inv E [] s" and p: "store s p = Some b" "t \<in> set (path (store s) p)" and t: "failed (store s) t"
  shows "\<exists>s'. drop_chain p t s = Some s' \<and> index_inv E [] s' \<and> keeps t s s'"
proof -
  have ok: "index_ok (store s)" using inv by (simp add: index_inv_def tree_inv_def)
  obtain c where c: "store s t = Some c" using path_dom [OF ok p] by blast
  then have f: "nStatus c AND BLOCK_FAILED_MASK \<noteq> 0" using t by (simp add: failed_def)
  have "\<exists>w. (case pindexBestInvalid s of None \<Rightarrow> Some True | Some i \<Rightarrow> map_option (\<lambda>c. nChainWork b > nChainWork c) (store s i)) = Some w"
    using inv by (cases "pindexBestInvalid s") (auto simp: index_inv_def cands_ok_def)
  then obtain w where w: "(case pindexBestInvalid s of None \<Rightarrow> Some True | Some i \<Rightarrow> map_option (\<lambda>c. nChainWork b > nChainWork c) (store s i)) = Some w"
    by blast
  define s0 where "s0 = (if w then s\<lparr>pindexBestInvalid := Some p\<rparr> else s)"
  have "index_inv E [] s0"
    using index_inv_cands [OF inv, of "setBlockIndexCandidates s" "Some p"] inv p(1) by (simp add: s0_def index_inv_def cands_ok_def)
  moreover have st0: "store s0 = store s" "setBlockIndexCandidates s0 = setBlockIndexCandidates s" "chainActive s0 = chainActive s"
    by (simp_all add: s0_def)
  ultimately obtain s1 where s1: "remove_chain t True p s0 = Some s1" "index_inv E [] s1" "keeps t s0 s1"
    using remove_chain_failed [of E s0 p b t] p by auto
  define s' where "s' = s1\<lparr>setBlockIndexCandidates := removeAll t (setBlockIndexCandidates s1)\<rparr>"
  have "drop_chain p t s = Some s'" using c p(1) f w s1(1) by (simp add: drop_chain_def s'_def s0_def)
  moreover have "index_inv E [] s'"
    using index_inv_cands [OF s1(2), of "removeAll t (setBlockIndexCandidates s1)" "pindexBestInvalid s1"] s1(2)
    by (auto simp: s'_def index_inv_def cands_ok_def distinct_removeAll)
  moreover have keep: "keeps t s s1" using s1(3) by (simp add: keeps_def st0)
  obtain d where "store s1 t = Some d" using keepsD [OF keep c] by blast
  then have "keeps t s1 s'" using s1(2) by (intro keeps_drop) (simp_all add: s'_def index_inv_def tree_inv_def)
  then have "keeps t s s'" by (rule keeps_trans [OF keep])
  ultimately show ?thesis by blast
qed

section \<open>The choice is the best usable candidate\<close>

lemma candidate_path:
  assumes inv: "index_inv E [] s" and p: "store s p = Some b" "nChainTx b \<noteq> 0"
  shows "\<forall>r \<in> set (path (store s) p). nChainTx (the (store s r)) \<noteq> 0 \<and> nStatus (the (store s r)) AND BLOCK_HAVE_DATA \<noteq> 0"
proof
  fix r assume r: "r \<in> set (path (store s) p)"
  have ok: "index_ok (store s)" and links: "links_ok [] (store s) (mapBlocksUnlinked s)" using inv by (simp_all add: index_inv_def tree_inv_def)
  obtain c where c: "store s r = Some c" using path_dom [OF ok p(1) r] by blast
  have "set (path (store s) r) \<subseteq> set (path (store s) p)" using is_ancestor_trans [OF ok p(1)] r by (auto simp: is_ancestor_def)
  then have "nChainTx c \<noteq> 0" using nChainTx_iff [OF ok links p(1)] nChainTx_iff [OF ok links c] p(2) by blast
  moreover have "nTx c \<noteq> 0" "status_ok c" using calculation links c by (auto simp: links_ok_def local_ok_def count_ok_def)
  ultimately show "nChainTx (the (store s r)) \<noteq> 0 \<and> nStatus (the (store s r)) AND BLOCK_HAVE_DATA \<noteq> 0" using c by (simp add: status_ok_def)
qed

lemma find_takeWhile:
  "find P (takeWhile Q xs) = Some x \<Longrightarrow> x \<in> set xs \<and> P x \<and> Q x"
  by (induction xs) (auto split: if_splits)

lemma find_failed:
  assumes inv: "index_inv E [] s" and p: "store s p = Some b" "nChainTx b \<noteq> 0"
  shows "\<exists>r. test_chain (store s) (chainActive s) (Some p) = Some r \<and> (r = None \<longrightarrow> usable (store s) (chainActive s) p) \<and>
    (\<forall>t. r = Some t \<longrightarrow> t \<in> set (path (store s) p) \<and> failed (store s) t \<and> \<not> on_chain (store s) (chainActive s) t)"
proof -
  let ?on = "on_chain (store s) (chainActive s)"
  have ok: "index_ok (store s)" "chain_ok (store s) (chainActive s)" using inv by (simp_all add: index_inv_def tree_inv_def)
  let ?r = "find (failed (store s)) (takeWhile (\<lambda>r. \<not> ?on r) (path (store s) p))"
  have "usable (store s) (chainActive s) p" if none: "?r = None"
  proof (unfold usable_def, intro ballI)
    fix r assume r: "r \<in> set (path (store s) p)"
    show "?on r \<or> \<not> failed (store s) r"
    proof (cases "r \<in> set (takeWhile (\<lambda>r. \<not> ?on r) (path (store s) p))")
      case True
      then show ?thesis using none by (auto simp: find_None_iff)
    next
      case False
      then have d: "r \<in> set (dropWhile (\<lambda>r. \<not> ?on r) (path (store s) p))"
        using r by (metis Un_iff set_append takeWhile_dropWhile_id)
      then obtain c ys where c: "dropWhile (\<lambda>r. \<not> ?on r) (path (store s) p) = c # ys" "?on c"
        by (metis hd_dropWhile list.exhaust list.sel(1) empty_iff empty_set)
      then have path: "path (store s) c = c # ys"
        using path_suffix [OF ok(1) p(1)] takeWhile_dropWhile_id by metis
      have "c \<in> set (path (store s) p)" using c(1) by (metis list.set_intros(1) set_dropWhileD)
      then obtain e where "store s c = Some e" using path_dom [OF ok(1) p(1)] by blast
      then show ?thesis using on_chain_closed [OF ok _ c(2)] path d c(1) by simp
    qed
  qed
  then show ?thesis
    using test_chain_find [OF ok(1) p(1) candidate_path [OF inv p], of "chainActive s"]
      find_takeWhile [of "failed (store s)" "\<lambda>r. \<not> ?on r" "path (store s) p"] by auto
qed

definition best_usable :: "index_state \<Rightarrow> ptr option \<Rightarrow> bool" where
  "best_usable s r \<longleftrightarrow>
    (case r of
       None \<Rightarrow> \<forall>q \<in> set (setBlockIndexCandidates s). \<not> usable (store s) (chainActive s) q
     | Some p \<Rightarrow> p \<in> set (setBlockIndexCandidates s) \<and> usable (store s) (chainActive s) p \<and>
         (\<forall>q \<in> set (setBlockIndexCandidates s). usable (store s) (chainActive s) q \<longrightarrow> q = p \<or> worse (store s) q p))"

lemma worse_keeps:
  assumes "keeps t s s'" "store s p = Some b" "store s q = Some c"
  shows "worse (store s') p q = worse (store s) p q"
  using keepsD [OF assms(1,2)] keepsD [OF assms(1,3)] assms(2,3) by (auto simp: worse_def WorkComparator_iff)

lemma best_usable_keeps:
  assumes inv: "index_inv E [] s" and keep: "keeps t s s'" and best: "best_usable s' r"
    and t: "store s t = Some b" "failed (store s) t" "\<not> on_chain (store s) (chainActive s) t"
  shows "best_usable s r"
proof -
  have ok: "index_ok (store s)" using inv by (simp add: index_inv_def tree_inv_def)
  have dom: "\<exists>c. store s q = Some c" if "q \<in> set (setBlockIndexCandidates s)" for q using inv that by (auto simp: index_inv_def cands_ok_def)
  obtain P where P: "setBlockIndexCandidates s' = filter P (setBlockIndexCandidates s)" "\<And>q. \<not> P q \<Longrightarrow> t \<in> set (path (store s) q)"
    using keep unfolding keeps_def by blast
  have same: "usable (store s') (chainActive s') q = usable (store s) (chainActive s) q" if "q \<in> set (setBlockIndexCandidates s)" for q
    using dom [OF that] keeps_usable [OF ok keep t] by blast
  have lost: "\<not> usable (store s) (chainActive s) q" if "\<not> P q" for q
    using P(2) [OF that] t(2,3) by (auto simp: usable_def)
  show ?thesis
  proof (cases r)
    case None
    then show ?thesis using best same lost by (auto simp: best_usable_def P(1))
  next
    case (Some p)
    then have p: "p \<in> set (setBlockIndexCandidates s)" "usable (store s') (chainActive s') p"
      "\<forall>q \<in> set (setBlockIndexCandidates s'). usable (store s') (chainActive s') q \<longrightarrow> q = p \<or> worse (store s') q p"
      using best by (auto simp: best_usable_def P(1))
    have "q = p \<or> worse (store s) q p" if q: "q \<in> set (setBlockIndexCandidates s)" "usable (store s) (chainActive s) q" for q
    proof -
      have "q \<in> set (setBlockIndexCandidates s')" using q lost by (auto simp: P(1))
      moreover obtain b c where "store s q = Some b" "store s p = Some c" using dom q(1) p(1) by blast
      ultimately show ?thesis using p(3) same [OF q(1)] q(2) worse_keeps [OF keep] by blast
    qed
    then show ?thesis using Some p same by (simp add: best_usable_def)
  qed
qed

lemma FindMostWorkChain_correct:
  assumes "index_inv E [] s"
  shows "\<exists>r s'. FindMostWorkChain s = Some (r, s') \<and> index_inv E [] s' \<and> best_usable s r"
  using assms
proof (induction s rule: FindMostWorkChain.induct)
  case (1 s)
  note inv = 1(2)
  have dom: "\<forall>p \<in> set (setBlockIndexCandidates s). \<exists>b. store s p = Some b" using inv by (auto simp: index_inv_def cands_ok_def)
  obtain r where r: "largest (store s) (setBlockIndexCandidates s) = Some r" "r = None \<longleftrightarrow> setBlockIndexCandidates s = []"
    "\<forall>p. r = Some p \<longrightarrow> p \<in> set (setBlockIndexCandidates s) \<and> (\<forall>q \<in> set (setBlockIndexCandidates s). q = p \<or> worse (store s) q p)"
    using largest_total [OF dom] by blast
  show ?case
  proof (cases r)
    case None
    then show ?thesis using r inv by (simp add: FindMostWorkChain.simps [of s] best_usable_def)
  next
    case (Some p)
    then obtain b where p: "store s p = Some b" "nChainTx b \<noteq> 0" using r(3) inv by (auto simp: index_inv_def cands_ok_def)
    obtain x where x: "test_chain (store s) (chainActive s) (Some p) = Some x" "x = None \<longrightarrow> usable (store s) (chainActive s) p"
        "\<forall>t. x = Some t \<longrightarrow> t \<in> set (path (store s) p) \<and> failed (store s) t \<and> \<not> on_chain (store s) (chainActive s) t"
      using find_failed [OF inv p] by blast
    show ?thesis
    proof (cases x)
      case None
      then show ?thesis using r Some x inv by (simp add: FindMostWorkChain.simps [of s] best_usable_def)
    next
      case (Some t)
      then have t: "t \<in> set (path (store s) p)" "failed (store s) t" "\<not> on_chain (store s) (chainActive s) t" using x(3) by auto
      have ok: "index_ok (store s)" using inv by (simp add: index_inv_def tree_inv_def)
      obtain c where c: "store s t = Some c" using path_dom [OF ok p(1) t(1)] by blast
      obtain s1 where s1: "drop_chain p t s = Some s1" "index_inv E [] s1" "keeps t s s1"
        using drop_chain_failed [OF inv p(1) t(1,2)] by blast
      from 1(1) [OF r(1) \<open>r = Some p\<close> x(1) Some s1(1,2)] obtain r' s' where
        s': "FindMostWorkChain s1 = Some (r', s')" "index_inv E [] s'" "best_usable s1 r'" by blast
      have "FindMostWorkChain s = Some (r', s')" using r(1) \<open>r = Some p\<close> x(1) Some s1(1) s'(1) by (simp add: FindMostWorkChain.simps [of s])
      then show ?thesis using s' best_usable_keeps [OF inv s1(3) s'(3) c t(2,3)] by blast
    qed
  qed
qed

section \<open>Failed blocks and the tip\<close>

definition InvalidChainFound :: "ptr \<Rightarrow> index_state \<Rightarrow> index_state option" where
  "InvalidChainFound p s = do {
     b \<leftarrow> store s p;
     worse \<leftarrow> (case pindexBestInvalid s of None \<Rightarrow> Some True | Some i \<Rightarrow> map_option (\<lambda>c. nChainWork b > nChainWork c) (store s i));
     tip \<leftarrow> CChain_Tip (store s) False (chainActive s);
     if tip = None then None else Some (if worse then s\<lparr>pindexBestInvalid := Some p\<rparr> else s)
   }"

definition InvalidBlockFound :: "ptr \<Rightarrow> bool \<Rightarrow> index_state \<Rightarrow> index_state option" where
  "InvalidBlockFound p fCorruptionPossible s =
    (if fCorruptionPossible then Some s
     else do {
       b \<leftarrow> store s p;
       InvalidChainFound p (s\<lparr>store := (store s)(p \<mapsto> b\<lparr>nStatus := nStatus b OR BLOCK_FAILED_VALID\<rparr>),
         setDirtyBlockIndex := insert p (setDirtyBlockIndex s), setBlockIndexCandidates := removeAll p (setBlockIndexCandidates s)\<rparr>)
     })"

text \<open>The ordered set is left from its smallest element on up to the first that is not worse than the tip.\<close>

definition PruneBlockIndexCandidates :: "index_state \<Rightarrow> index_state option" where
  "PruneBlockIndexCandidates s = do {
     tip \<leftarrow> CChain_Tip (store s) False (chainActive s);
     t \<leftarrow> tip;
     let C = filter (\<lambda>p. WorkComparator (store s) p t \<noteq> Some True) (setBlockIndexCandidates s);
     if C = [] then None else Some (s\<lparr>setBlockIndexCandidates := C\<rparr>)
   }"

lemma InvalidBlockFound_inv:
  assumes inv: "index_inv E [] s" and s': "InvalidBlockFound p c s = Some s'"
  shows "index_inv E [] s'"
proof (cases c)
  case False
  then obtain b where b: "store s p = Some b" using s' by (auto simp: InvalidBlockFound_def split: Option.bind_splits)
  let ?x = "nStatus b OR BLOCK_FAILED_VALID"
  define s1 where "s1 = s\<lparr>store := (store s)(p \<mapsto> b\<lparr>nStatus := ?x\<rparr>),
    setDirtyBlockIndex := insert p (setDirtyBlockIndex s), setBlockIndexCandidates := removeAll p (setBlockIndexCandidates s)\<rparr>"
  have inv1: "index_inv E [] s1"
    by (rule index_inv_status [OF inv b, of ?x])
      (use inv in \<open>auto simp: s1_def index_inv_def cands_ok_def distinct_removeAll\<close>)
  have "InvalidChainFound p s1 = Some s'" using s' False b by (simp add: InvalidBlockFound_def s1_def)
  then have "s' = s1\<lparr>pindexBestInvalid := Some p\<rparr> \<or> s' = s1"
    by (auto simp: InvalidChainFound_def split: Option.bind_splits if_splits)
  then show ?thesis
    using inv1 index_inv_cands [OF inv1, of "setBlockIndexCandidates s1" "Some p"] by (auto simp: s1_def index_inv_def cands_ok_def)
qed (use assms in \<open>simp add: InvalidBlockFound_def\<close>)

section \<open>Reachable states\<close>

definition index_start :: index_state where
  "index_start = \<lparr>store = Map.empty, mapBlockIndex = Map.empty, next_ptr = 0, pindexBestHeader = None, pindexBestInvalid = None,
    setDirtyBlockIndex = {}, chainActive = [], setBlockIndexCandidates = [], mapBlocksUnlinked = [], nBlockSequenceId = 1\<rparr>"

inductive index_step :: "index_env \<Rightarrow> index_state \<Rightarrow> index_state \<Rightarrow> bool" for E where
  header: "add_ok E block s \<Longrightarrow> AddToBlockIndex E block s = Some (p, s') \<Longrightarrow> index_step E s s'"
| block: "receive_ok block p s \<Longrightarrow> ReceivedBlockTransactions block p pos s = Some s' \<Longrightarrow> index_step E s s'"
| invalid: "InvalidBlockFound p c s = Some s' \<Longrightarrow> index_step E s s'"
| choose: "FindMostWorkChain s = Some (r, s') \<Longrightarrow> index_step E s s'"
| prune: "PruneBlockIndexCandidates s = Some s' \<Longrightarrow> index_step E s s'"
| tip: "store s t = Some b \<Longrightarrow> SetTip (store s) (Some t) (chainActive s) = Some v \<Longrightarrow> index_step E s (s\<lparr>chainActive := v\<rparr>)"

inductive index_reachable :: "index_env \<Rightarrow> index_state \<Rightarrow> bool" for E where
  start: "index_reachable E index_start"
| step: "index_reachable E s \<Longrightarrow> index_step E s s' \<Longrightarrow> index_reachable E s'"

inductive_cases index_stepE: "index_step E s s'"

lemma index_start_inv: "index_inv E [] index_start"
  by (simp add: index_inv_def tree_inv_def index_start_def index_ok_def times_ok_def work_ok_def local_ok_def one_root_def block_map_ok_def
      map_sound_def modifiers_ok_def best_ok_def chain_ok_def tx_room_def links_ok_def cands_ok_def)

lemma index_step_inv:
  assumes "index_inv E [] s" "index_step E s s'"
  shows "index_inv E [] s'"
  using assms(2)
proof (cases rule: index_step.cases)
  case (header block p)
  then show ?thesis using AddToBlockIndex_inv [OF assms(1)] by force
next
  case (block block p pos)
  then show ?thesis using ReceivedBlockTransactions_total [OF assms(1), of block p pos] by auto
next
  case (invalid p c)
  then show ?thesis using InvalidBlockFound_inv [OF assms(1)] by blast
next
  case (choose r)
  then show ?thesis using FindMostWorkChain_correct [OF assms(1)] by force
next
  case prune
  then obtain P where "s' = s\<lparr>setBlockIndexCandidates := filter P (setBlockIndexCandidates s)\<rparr>"
    by (auto simp: PruneBlockIndexCandidates_def Let_def split: Option.bind_splits if_splits)
  then show ?thesis using assms(1) by (auto simp: index_inv_def tree_inv_def cands_ok_def)
next
  case (tip t b v)
  have ok: "index_ok (store s)" "chain_ok (store s) (chainActive s)" using assms(1) by (simp_all add: index_inv_def tree_inv_def)
  have "v = chain_of (store s) t" using SetTip_correct [OF ok tip(2)] tip(3) by simp
  then show ?thesis using assms(1) tip by (auto simp: index_inv_def tree_inv_def chain_ok_def cands_ok_def)
qed

lemma index_reachable_inv: "index_reachable E s \<Longrightarrow> index_inv E [] s"
  by (induction rule: index_reachable.induct) (auto intro: index_start_inv index_step_inv)

end
