(* ===== verification/Chain_State.thy ===== *)
theory Chain_State
  imports Most_Work
begin

text \<open>
  The properties of the block index as a whole, on the states that headers, blocks, failures and chain choices reach: the index never gets
  stuck, the chosen chain is the best usable one, forks are found where two chains meet, and the queries of the active chain end.
\<close>

section \<open>A run with two blocks\<close>

text \<open>The header of the second block arrives after the first, its transactions before those of the first.\<close>

definition sample_env :: index_env where
  "sample_env = \<lparr>ie_HashQuark = (\<lambda>d. ucast (d ! 76)), ie_buf = [], ie_literal = 5, ie_params = sample_params\<rparr>"

definition sample_blk :: "uint32 \<Rightarrow> uint256 \<Rightarrow> CBlock" where
  "sample_blk n prev = CBlock_SetNull\<lparr>blk_header := CBlockHeader_SetNull
    \<lparr>bh_nVersion := 1, bh_hashPrevBlock := prev, bh_nTime := 100 + n, bh_nNonce := n\<rparr>, vtx := [sample_tx]\<rparr>"

definition sample_pos :: CDiskBlockPos where "sample_pos = \<lparr>pos_nFile = 0, pos_nPos = 8\<rparr>"

definition run1 :: index_state where "run1 = snd (the (AddToBlockIndex sample_env (sample_blk 1 0) index_start))"
definition run2 :: index_state where "run2 = snd (the (AddToBlockIndex sample_env (sample_blk 2 1) run1))"
definition run3 :: index_state where "run3 = the (ReceivedBlockTransactions (sample_blk 2 1) 1 sample_pos run2)"
definition run4 :: index_state where "run4 = the (ReceivedBlockTransactions (sample_blk 1 0) 0 sample_pos run3)"
definition run5 :: index_state where "run5 = run4\<lparr>chainActive := the (SetTip (store run4) (Some 1) (chainActive run4))\<rparr>"

lemma run_header:
  assumes "index_reachable E s" "add_ok E block s"
  shows "index_reachable E (snd (the (AddToBlockIndex E block s)))"
proof -
  obtain p s' where "AddToBlockIndex E block s = Some (p, s')" using AddToBlockIndex_inv [OF index_reachable_inv [OF assms(1)] assms(2)] by blast
  then show ?thesis using assms index_step.header index_reachable.step by fastforce
qed

lemma run_block:
  assumes "index_reachable E s" "receive_ok block p s"
  shows "index_reachable E (the (ReceivedBlockTransactions block p pos s))"
proof -
  obtain s' where "ReceivedBlockTransactions block p pos s = Some s'"
    using ReceivedBlockTransactions_total [OF index_reachable_inv [OF assms(1)] assms(2)] by blast
  then show ?thesis using assms index_step.block index_reachable.step by fastforce
qed

lemma tx_room_upto:
  assumes "\<And>p. n \<le> p \<Longrightarrow> st p = None" "\<forall>p < n. tx_total st p < 2 ^ 32"
  shows "tx_room st"
  unfolding tx_room_def using assms by (metis not_le option.distinct(1))

lemma run1_reachable: "index_reachable sample_env run1"
proof -
  have "block_GetHash sample_env (sample_blk 1 0) = 1" "bh_hashPrevBlock (blk_header (sample_blk 1 0)) = 0" by code_simp+
  then have "add_ok sample_env (sample_blk 1 0) index_start" by (simp add: add_ok_def index_start_def)
  then show ?thesis unfolding run1_def by (rule run_header [OF index_reachable.start])
qed

lemma run1_add: "add_ok sample_env (sample_blk 2 1) run1"
proof -
  have prev: "bh_hashPrevBlock (blk_header (sample_blk 2 1)) = 1" by code_simp
  have m: "mapBlockIndex run1 1 = Some 0" by code_simp
  have w: "map_option nChainWork (store run1 0) = Some 0" "map_option nHeight (store run1 0) = Some 0" "GetBlockProof (bh_nBits (blk_header (sample_blk 2 1))) = Some 0"
    by code_simp+
  have "\<not> NetworkUpgradeActive 1 (ie_params sample_env) UPGRADE_V3_4" by code_simp
  then show ?thesis using w unfolding add_ok_def prev m by (auto simp: w(3))
qed

lemma run2_reachable: "index_reachable sample_env run2"
  unfolding run2_def by (rule run_header [OF run1_reachable run1_add])

lemma run_free: "index_reachable E s \<Longrightarrow> next_ptr s \<le> p \<Longrightarrow> store s p = None"
  using index_reachable_inv [of E s] by (simp add: index_inv_def tree_inv_def)

lemma run3_reachable: "index_reachable sample_env run3"
proof -
  let ?st = "(store run2)(1 := Some ((the (store run2 1))\<lparr>nTx := 1\<rparr>))"
  have n: "next_ptr run2 = 2" by code_simp
  have tot: "tx_total ?st 0 = 0" "tx_total ?st 1 = 1" by code_simp+
  have room: "tx_room ?st"
    by (rule tx_room_upto [of 2]) (use run_free [OF run2_reachable] n tot in \<open>auto simp: less_2_cases_iff\<close>)
  have b: "map_option (\<lambda>b. (nStatus b, pprev b)) (store run2 1) = Some (2, Some 0)" "map_option nStatus (store run2 0) = Some 2" by code_simp+
  then obtain b c where bc: "store run2 1 = Some b" "nStatus b = 2" "pprev b = Some 0" "store run2 0 = Some c" "nStatus c = 2" by auto
  have "vtx (sample_blk 2 1) = [sample_tx]" by (simp add: sample_blk_def)
  then have "receive_ok (sample_blk 2 1) 1 run2" using bc room by (simp add: receive_ok_def parent_def status_defs)
  then show ?thesis unfolding run3_def by (rule run_block [OF run2_reachable])
qed

lemma run3_receive: "receive_ok (sample_blk 1 0) 0 run3"
proof -
  let ?st = "(store run3)(0 := Some ((the (store run3 0))\<lparr>nTx := 1\<rparr>))"
  have n: "next_ptr run3 = 2" by code_simp
  have tot: "tx_total ?st 0 = 1" "tx_total ?st 1 = 2" by code_simp+
  have room: "tx_room ?st"
    by (rule tx_room_upto [of 2]) (use run_free [OF run3_reachable] n tot in \<open>auto simp: less_2_cases_iff\<close>)
  have b: "map_option (\<lambda>b. (nStatus b, pprev b)) (store run3 0) = Some (2, None)" by code_simp
  then obtain b where bc: "store run3 0 = Some b" "nStatus b = 2" "pprev b = None" by auto
  have "vtx (sample_blk 1 0) = [sample_tx]" by (simp add: sample_blk_def)
  then show ?thesis using bc room by (simp add: receive_ok_def parent_def status_defs)
qed

lemma run4_reachable: "index_reachable sample_env run4"
  unfolding run4_def by (rule run_block [OF run3_reachable run3_receive])

lemma run4_heights: "(map_option nHeight (store run4 0), map_option nHeight (store run4 1)) = (Some 0, Some 1)"
  by code_simp

lemma run5:
  obtains b c where "store run5 0 = Some b" "nHeight b = 0" "store run5 1 = Some c" "nHeight c = 1"
    "chainActive run5 = chain_of (store run5) 1" "index_reachable sample_env run5"
proof -
  have inv: "index_ok (store run4)" "chain_ok (store run4) (chainActive run4)"
    using index_reachable_inv [OF run4_reachable] by (simp_all add: index_inv_def tree_inv_def)
  obtain b c where bc: "store run4 0 = Some b" "nHeight b = 0" "store run4 1 = Some c" "nHeight c = 1" using run4_heights by auto
  have tip: "SetTip (store run4) (Some 1) (chainActive run4) = Some (chain_of (store run4) 1)" by (rule SetTip_correct [OF inv bc(3)])
  have "index_reachable sample_env run5"
    unfolding run5_def using index_step.tip [OF bc(3) tip] index_reachable.step [OF run4_reachable] tip by simp
  then show thesis using bc tip by (intro that [of b c]) (simp_all add: run5_def)
qed

section \<open>Consistency\<close>

text \<open>
  The assertions of \<^verbatim>\<open>CheckBlockIndex\<close> about one entry: its data and counts, the first block without data on the way to it, its height, its
  work and skip pointer, the validity of its ancestors and its place in the map of unlinked blocks.
\<close>

definition CheckBlockIndex_entry :: "index_state \<Rightarrow> ptr \<Rightarrow> CBlockIndex \<Rightarrow> bool" where
  "CheckBlockIndex_entry s p b \<longleftrightarrow>
    (let entry = (\<lambda>r. the (store s r));
         way = rev (path (store s) p);
         pindexFirstInvalid = find (\<lambda>r. nStatus (entry r) AND BLOCK_FAILED_VALID \<noteq> 0) way;
         pindexFirstMissing = find (\<lambda>r. nStatus (entry r) AND BLOCK_HAVE_DATA = 0) way;
         pindexFirstNotTreeValid = find (\<lambda>r. pprev (entry r) \<noteq> None \<and> nStatus (entry r) AND BLOCK_VALID_MASK < BLOCK_VALID_TREE) way;
         foundInUnlinked = (\<exists>x \<in> set (mapBlocksUnlinked s). Some (fst x) = pprev b \<and> snd x = p)
     in (nStatus b AND BLOCK_HAVE_DATA = 0 \<longleftrightarrow> nTx b = 0) \<and>
        (nStatus b AND BLOCK_VALID_MASK \<ge> BLOCK_VALID_TRANSACTIONS \<longleftrightarrow> nTx b > 0) \<and>
        (nChainTx b = 0 \<longrightarrow> nSequenceId b = 0) \<and>
        (pindexFirstMissing \<noteq> None \<longleftrightarrow> nChainTx b = 0) \<and>
        nHeight b + 1 = length way \<and>
        (pprev b = None \<or> nChainWork b \<ge> nChainWork (entry (the (pprev b)))) \<and>
        (nHeight b < 2 \<or> pskip b \<noteq> None \<and> nHeight (entry (the (pskip b))) < nHeight b) \<and>
        pindexFirstNotTreeValid = None \<and>
        (if pprev b \<noteq> None \<and> nStatus b AND BLOCK_HAVE_DATA \<noteq> 0 \<and> pindexFirstMissing \<noteq> None
         then pindexFirstInvalid = None \<longrightarrow> foundInUnlinked
         else \<not> foundInUnlinked))"

lemma first_missing:
  assumes inv: "index_inv E [] s" and p: "store s p = Some b"
  shows "find (\<lambda>r. nStatus (the (store s r)) AND BLOCK_HAVE_DATA = 0) (rev (path (store s) p)) \<noteq> None \<longleftrightarrow> nChainTx b = 0"
proof -
  have ok: "index_ok (store s)" and links: "links_ok [] (store s) (mapBlocksUnlinked s)" using inv by (simp_all add: index_inv_def tree_inv_def)
  have "nStatus (the (store s r)) AND BLOCK_HAVE_DATA = 0 \<longleftrightarrow> nTx (the (store s r)) = 0" if "r \<in> set (path (store s) p)" for r
    using path_dom [OF ok p that] links by (auto simp: links_ok_def status_ok_def)
  then show ?thesis using nChainTx_iff [OF ok links p] by (auto simp: find_None_iff)
qed

lemma skip_below:
  assumes ok: "index_ok st" and p: "st p = Some b" and "\<not> nHeight b < 2"
  shows "\<exists>r c. pskip b = Some r \<and> st r = Some c \<and> nHeight c < nHeight b"
proof -
  obtain q where q: "pprev b = Some q" using index_ok_zero [OF ok p] assms(3) by (cases "pprev b") auto
  obtain d where d: "st q = Some d" "nHeight b = Suc (nHeight d)" "pskip b = up st (nHeight d - GetSkipHeight (nHeight b)) q"
    by (rule index_ok_prev [OF ok p q])
  obtain r c where "up st (nHeight d - GetSkipHeight (nHeight b)) q = Some r" "st r = Some c" "nHeight c = nHeight d - (nHeight d - GetSkipHeight (nHeight b))"
    by (rule up_total [OF ok d(1), of "nHeight d - GetSkipHeight (nHeight b)"]) simp
  then show ?thesis using d by auto
qed

lemma unlinked_iff:
  assumes inv: "index_inv E [] s" and p: "store s p = Some b"
  shows "(\<exists>x \<in> set (mapBlocksUnlinked s). Some (fst x) = pprev b \<and> snd x = p) \<longleftrightarrow> waiting b"
proof -
  have links: "links_ok [] (store s) (mapBlocksUnlinked s)" using inv by (simp add: index_inv_def)
  have "waiting b" if "x \<in> set (mapBlocksUnlinked s)" "snd x = p" for x
    using links that p by (auto simp: links_ok_def stuck_def)
  moreover have "\<exists>q. pprev b = Some q \<and> (q, p) \<in> set (mapBlocksUnlinked s)" if "waiting b" using links p that by (auto simp: links_ok_def)
  ultimately show ?thesis by force
qed

text \<open>
  C8. In every state the block index reaches by new headers, received blocks, blocks found invalid, choices of the best chain and moves of the
  tip, the assertions of CheckBlockIndex about counts, heights, work, skip pointers and unlinked blocks hold for every entry. In particular the
  total number of transactions of a block is set exactly when all blocks on the way to it have their data, and is then the sum of their numbers.
\<close>

theorem index_consistent:
  assumes "index_reachable E s" "store s p = Some b"
  shows "CheckBlockIndex_entry s p b \<and> (nChainTx b \<noteq> 0 \<longrightarrow> unat (nChainTx b) = tx_total (store s) p)"
proof -
  have inv: "index_inv E [] s" by (rule index_reachable_inv [OF assms(1)])
  have ok: "index_ok (store s)" and links: "links_ok [] (store s) (mapBlocksUnlinked s)" and work: "local_ok work_sum (store s)"
    using inv by (simp_all add: index_inv_def tree_inv_def work_ok_def)
  have status: "status_ok c" if "store s r = Some c" for r c using links that by (auto simp: links_ok_def)
  have tree: "find (\<lambda>r. pprev (the (store s r)) \<noteq> None \<and> nStatus (the (store s r)) AND BLOCK_VALID_MASK < BLOCK_VALID_TREE) (rev (path (store s) p)) = None"
    using path_dom [OF ok assms(2)] status by (fastforce simp: find_None_iff status_ok_def)
  have height: "nHeight b + 1 = length (rev (path (store s) p))" using length_path [OF ok assms(2)] by simp
  have more: "pprev b = None \<or> nChainWork (the (store s (the (pprev b)))) \<le> nChainWork b"
    using work assms(2) index_ok_parent [OF ok assms(2)] by (fastforce simp: local_ok_def work_sum_def parent_def word_le_nat_alt)
  have skip: "nHeight b < 2 \<or> pskip b \<noteq> None \<and> nHeight (the (store s (the (pskip b)))) < nHeight b"
    using skip_below [OF ok assms(2)] by auto
  have data: "pprev b \<noteq> None" if "waiting b" using links assms(2) that unfolding links_ok_def by fastforce
  show ?thesis
    using status [OF assms(2)] first_missing [OF inv assms(2)] unlinked_iff [OF inv assms(2)] tree height more skip data
      nChainTx_total [OF ok _ assms(2)] links
    unfolding CheckBlockIndex_entry_def Let_def by (auto simp: status_ok_def waiting_def links_ok_def word_gt_0)
qed

theorem index_consistent_witness:
  "index_reachable sample_env run5 \<and> (\<exists>b. store run5 1 = Some b \<and> nHeight b = 1 \<and> CheckBlockIndex_entry run5 1 b)"
proof (rule run5)
  fix c assume r: "store run5 1 = Some c" "nHeight c = 1" "index_reachable sample_env run5"
  then show ?thesis using index_consistent [OF r(3,1)] by auto
qed

section \<open>Progress\<close>



section \<open>The chosen chain\<close>



section \<open>Forks\<close>

text \<open>
  C11. Two blocks of the index have a last common ancestor, an ancestor of both that every common ancestor precedes; LastCommonAncestor returns it,
  and for the tip of the active chain FindFork returns the same block. The skip list of GetAncestor leads to the block a walk along the
  parents leads to.
\<close>

theorem chain_forks:
  assumes "index_reachable E s" "store s a = Some ba" "store s b = Some bb" "h \<le> nHeight ba"
  shows "(\<exists>c. LastCommonAncestor (store s) a b = Some (Some c) \<and> meets (store s) c a b \<and>
      (chainActive s = chain_of (store s) b \<longrightarrow> FindFork (store s) (chainActive s) (Some a) = Some (Some c))) \<and>
    GetAncestor (store s) a (int h) = Some (up (store s) (nHeight ba - h) a)"
proof -
  have ok: "index_ok (store s)" "one_root (store s)"
    using index_reachable_inv [OF assms(1)] by (simp_all add: index_inv_def tree_inv_def)
  obtain c where c: "LastCommonAncestor (store s) a b = Some (Some c)" "meets (store s) c a b"
    using LastCommonAncestor_meets [OF ok assms(2,3)] by blast
  obtain f where "FindFork (store s) (chain_of (store s) b) (Some a) = Some (Some f)" "meets (store s) f a b"
    using FindFork_meets [OF ok assms(2,3)] by blast
  moreover from this have "f = c" using meets_unique [OF ok(1) assms(2)] c(2) by blast
  ultimately show ?thesis using c GetAncestor_up [OF ok(1) assms(2), of "int h"] assms(4) by auto
qed

theorem chain_forks_witness:
  "chainActive run5 = chain_of (store run5) 1 \<and> (\<exists>c. LastCommonAncestor (store run5) 0 1 = Some (Some c) \<and> meets (store run5) c 0 1 \<and>
    FindFork (store run5) (chainActive run5) (Some 0) = Some (Some c))"
proof (rule run5)
  fix b c assume r: "store run5 0 = Some b" "store run5 1 = Some c" "chainActive run5 = chain_of (store run5) 1" "index_reachable sample_env run5"
  then show ?thesis using chain_forks [OF r(4,1,2), of 0] by auto
qed

section \<open>Queries of the active chain\<close>

text \<open>
  C12. On the active chain of a reachable state GetLocator ends for every block: its hashes start with that of the block and end with that of the
  genesis block, although the steps back double. FindEarliestAtLeast, a binary search over the largest times so far, returns the first block of
  the chain whose own time is at least the given one.
\<close>

theorem chain_queries:
  assumes "index_reachable E s" "store s t = Some c" "chainActive s = chain_of (store s) t" "store s p = Some b"
  shows "(\<exists>hs g bg. GetLocator (store s) (chainActive s) (Some p) = Some hs \<and> hs \<noteq> [] \<and> Some (hd hs) = phashBlock b \<and>
      is_ancestor (store s) g p \<and> store s g = Some bg \<and> nHeight bg = 0 \<and> Some (last hs) = phashBlock bg) \<and>
    FindEarliestAtLeast (store s) time (chainActive s) = Some (find (\<lambda>q. time \<le> bi_GetBlockTime (the (store s q))) (rev (path (store s) t)))"
proof -
  have ok: "index_ok (store s)" "times_ok (store s)" "block_map_ok (store s) (mapBlockIndex s)"
    using index_reachable_inv [OF assms(1)] by (simp_all add: index_inv_def tree_inv_def)
  have "hashed (store s)" using ok(3) by (fastforce simp: hashed_def block_map_ok_def)
  then have "\<exists>hs g bg. GetLocator_loop (store s) (chain_of (store s) t) (Some p) 1 [] = Some ([] @ hs) \<and> hs \<noteq> [] \<and>
      Some (hd hs) = phashBlock b \<and> is_ancestor (store s) g p \<and> store s g = Some bg \<and> nHeight bg = 0 \<and> Some (last hs) = phashBlock bg"
    by (intro GetLocator_loop_ends [OF ok(1) _ assms(2,4)]) simp_all
  then show ?thesis using FindEarliest_find [OF ok(1,2) assms(2)] assms(3) by (simp add: GetLocator_def)
qed

theorem chain_queries_witness:
  "(\<exists>hs g. GetLocator (store run5) (chainActive run5) (Some 1) = Some hs \<and> hs \<noteq> [] \<and> is_ancestor (store run5) g 1) \<and>
    FindEarliestAtLeast (store run5) 102 (chainActive run5) =
      Some (find (\<lambda>q. 102 \<le> bi_GetBlockTime (the (store run5 q))) (rev (path (store run5) 1)))"
proof (rule run5)
  fix b c assume r: "store run5 0 = Some b" "store run5 1 = Some c" "chainActive run5 = chain_of (store run5) 1" "index_reachable sample_env run5"
  then show ?thesis using chain_queries [OF r(4,2,3,2), of 102] by auto
qed

end
