(* ===== verification/Wire_Types.thy ===== *)
theory Wire_Types
  imports Block
begin

text \<open>
  What the readers of the wire formats promise for arbitrary bytes: a value they return is well-formed, whoever sent the bytes, and they have
  consumed part of the stream. The contract is the locale \<open>typed_reader\<close>; it is interpreted on the formats of transactions, headers and blocks.
\<close>

locale typed_reader =
  fixes unser :: "'a reader" and ok :: "'a \<Rightarrow> bool"
  assumes typed: "unser s = Inr (x, tail) \<Longrightarrow> ok x \<and> length tail < length s"
begin

lemma result_ok: "unser s = Inr (x, tail) \<Longrightarrow> ok x"
  and consumes: "unser s = Inr (x, tail) \<Longrightarrow> length tail < length s"
  using typed by blast+

lemma vector_loop_typed: "unser_vector_loop unser k s = Inr (xs, tail) \<Longrightarrow> list_all ok xs \<and> length xs = k \<and> length tail \<le> length s"
proof (induction k arbitrary: s xs)
  case (Suc k)
  then obtain x s' xs' where x: "unser s = Inr (x, s')" "unser_vector_loop unser k s' = Inr (xs', tail)" "xs = x # xs'"
    by (auto split: sum.splits)
  with Suc.IH [OF x(2)] typed [OF x(1)] show ?case by simp
qed simp

end

lemma unser_int16_typed: "unser_int16 s = Inr (x, tail) \<Longrightarrow> int_ok 16 x \<and> length tail < length s"
  by (auto simp: c_int16.unser_iff ser_int16_def ser_data_defs simp del: le_bytes.simps)

lemma unser_int32_typed: "unser_int32 s = Inr (x, tail) \<Longrightarrow> int_ok 32 x \<and> length tail < length s"
  by (auto simp: c_int32.unser_iff ser_int32_def ser_data_defs simp del: le_bytes.simps)

lemma unser_int64_typed: "unser_int64 s = Inr (x, tail) \<Longrightarrow> int_ok 64 x \<and> length tail < length s"
  by (auto simp: c_int64.unser_iff ser_int64_def ser_data_defs simp del: le_bytes.simps)

lemma unser_uint32_typed: "unser_uint32 s = Inr (x, tail) \<Longrightarrow> length tail < length s"
  by (auto simp: c_uint32.unser_iff ser_uint32_def ser_data_defs simp del: le_bytes.simps)

lemma unser_uint256_typed: "unser_uint256 s = Inr (x, tail) \<Longrightarrow> length tail < length s"
  by (auto simp: c_uint256.unser_iff ser_uint256_def simp del: le_bytes.simps)

lemma ReadCompactSize_typed: "ReadCompactSize s = Inr (n, tail) \<Longrightarrow> n \<le> MAX_SIZE \<and> length tail < length s"
  by (auto simp: c_size.unser_iff length_WriteCompactSize GetSizeOfCompactSize_def)

lemma ser_readdata8_typed: "ser_readdata8 s = Inr (n, tail) \<Longrightarrow> length tail < length s"
  by (auto simp: ser_data_defs read_le_iff simp del: le_bytes.simps)

lemma stream_read_typed: "stream_read k s = Inr (bs, tail) \<Longrightarrow> length bs = k \<and> length tail \<le> length s"
  by (auto simp: stream_read_iff)

interpretation t_bytes: typed_reader unser_bytes "\<lambda>v. length v \<le> MAX_SIZE"
  by unfold_locales (auto simp: c_bytes.unser_iff ser_bytes_def length_WriteCompactSize GetSizeOfCompactSize_def)

lemmas typed_dests = unser_int16_typed unser_int32_typed unser_int64_typed unser_uint32_typed unser_uint256_typed
  ReadCompactSize_typed ser_readdata8_typed stream_read_typed t_bytes.typed

text \<open>Vectors and optional values of well-formed values.\<close>

context typed_reader
begin

lemma vector_typed: "typed_reader (unser_vector unser) (\<lambda>v. length v \<le> MAX_SIZE \<and> list_all ok v)"
  by unfold_locales (auto simp: unser_vector_def res_simps dest!: ReadCompactSize_typed vector_loop_typed)

lemma option_typed: "typed_reader (unser_option unser) (pred_option ok)"
  by unfold_locales
    (auto simp: unser_option_def res_simps split: if_splits dest!: ser_readdata8_typed dest: result_ok consumes)

end

interpretation t_outpoint: typed_reader unser_OutPoint "\<lambda>_. True"
  by unfold_locales (auto simp: unser_OutPoint_def res_simps dest!: typed_dests)

interpretation t_txin: typed_reader unser_TxIn txin_ok
  by unfold_locales (auto simp: unser_TxIn_def txin_ok_def res_simps dest!: typed_dests t_outpoint.typed)

interpretation t_txout: typed_reader unser_TxOut txout_ok
  by unfold_locales (auto simp: unser_TxOut_def txout_ok_def CTxOut_new_def res_simps dest!: typed_dests)

interpretation t_spend: typed_reader unser_SpendDescription spend_ok
  by unfold_locales (auto simp: unser_SpendDescription_def spend_ok_def res_simps dest!: typed_dests)

interpretation t_output: typed_reader unser_OutputDescription output_ok
  by unfold_locales (auto simp: unser_OutputDescription_def output_ok_def res_simps dest!: typed_dests)

lemmas typed_vectors = typed_reader.typed [OF t_txin.vector_typed]
  typed_reader.typed [OF t_txout.vector_typed]
  typed_reader.typed [OF t_spend.vector_typed]
  typed_reader.typed [OF t_output.vector_typed]

interpretation t_sapling: typed_reader unser_SaplingTxData sapling_ok
  by unfold_locales (auto simp: unser_SaplingTxData_def sapling_ok_def res_simps dest!: typed_dests typed_vectors)

lemmas typed_options = typed_reader.typed [OF t_sapling.option_typed]
  typed_reader.typed [OF t_bytes.option_typed]

interpretation t_tx: typed_reader UnserializeTransaction tx_ok
  by unfold_locales
    (auto simp: UnserializeTransaction_def tx_ok_def isSaplingVersion_def IsNormalType_def Let_def res_simps
      dest!: typed_dests typed_vectors typed_options split: if_splits)

lemma optional_uint256_typed:
  "(if c then unser_uint256 else read_return x) s = Inr (y, tail) \<Longrightarrow> (c \<or> y = x) \<and> length tail \<le> length s"
  by (auto dest: unser_uint256_typed split: if_splits)

interpretation t_header: typed_reader "unser_CBlockHeader CBlockHeader_SetNull" header_ok
  by unfold_locales
    (auto simp: unser_CBlockHeader_def CBlockHeader_SetNull_def header_ok_def res_simps
      dest!: typed_dests optional_uint256_typed)

interpretation t_block: typed_reader "unser_CBlock CBlock_SetNull" block_ok
  by unfold_locales
    (auto simp: unser_CBlock_def block_ok_def CBlock_IsProofOfStake_def CBlock_SetNull_def res_simps
      dest!: t_bytes.typed typed_reader.typed [OF t_tx.vector_typed]
      dest: t_header.typed [unfolded CBlock_SetNull_def] split: if_splits)

text \<open>
  C0. Whatever bytes a peer sends, a block that is read from them is well-formed: every vector and script is within the size limit, every
  array has its length, every integer its width, the fields off the wire are null, there is a signature for a proof of stake only, and the
  block is not marked as checked. The reader has consumed part of the stream, and the block can be written and read again.
\<close>

theorem unser_CBlock_wellformed:
  assumes "unser_CBlock CBlock_SetNull s = Inr (b, tail)"
  shows "block_ok b \<and> length tail < length s \<and> unser_CBlock CBlock_SetNull (ser_CBlock b) = Inr (b, [])"
  using t_block.typed [OF assms] c_block.roundtrip [of b "[]"] by simp

lemma unser_CBlock_wellformed_witness:
  "block_ok sample_block \<and> length [1, 2 :: byte] < length (ser_CBlock sample_block @ [1, 2]) \<and>
   unser_CBlock CBlock_SetNull (ser_CBlock sample_block) = Inr (sample_block, [])"
  by (rule unser_CBlock_wellformed [OF c_block.roundtrip [OF sample_block_ok]])

text \<open>
  The bytes are not determined by the block: an optional value is announced by the byte 1, but the reader takes every byte other than 0 for
  the announcement.
\<close>

lemma unser_option_not_canonical: "unser_option unser ([2] @ s) = unser_option unser ([1] @ s)"
  by (simp add: unser_option_def ser_readdata8_def read_le_def stream_read_def read_then_def read_return_def)

end
