(* ===== verification/Spec2Isabelle.thy ===== *)
theory Spec2Isabelle
  imports Interpreter_Spends SigHash Chainstate Compressor Hashers SipHash ChaCha20 AES_CBC Chain_State Wire_Types
begin

text \<open>
  A verification development for the Passion node. The header lists the parts and the theories.
\<close>

end
